(* ===== verification/Prelude.thy ===== *)
theory Prelude
  imports Main "HOL-Library.List_Lexorder" "HOL-Library.Char_ord" "HOL-Library.Sublist"
begin

text \<open>
  Shared vocabulary of the development: the machine-level conventions (64-bit wrap-around,
  instants and durations as nanosecond counts), relational tables as lists of rows with the
  four statement shapes the SQL texts of the program use (filtered delete, filtered update,
  insert with and without a conflict clause), the interface every keyed table offers to its
  clients, and the collections of facts that the component theories extend.
\<close>

named_theorems go_defs \<open>definitions of small helpers that proofs unfold routinely\<close>
named_theorems tab_simps \<open>rewrite rules for rows, keys and lookups of tables\<close>
named_theorems io_rules \<open>introduction rules of the relational reasoning about effects\<close>

section \<open>Numbers and time\<close>

text \<open>A Go \<open>int64\<close> keeps the value modulo \<open>2^64\<close>, read as two's complement.\<close>

definition wrap64 :: "int \<Rightarrow> int" where
  "wrap64 n = (n + 2 ^ 63) mod 2 ^ 64 - 2 ^ 63"

definition is_int64 :: "int \<Rightarrow> bool" where
  "is_int64 n \<longleftrightarrow> - (2 ^ 63) \<le> n \<and> n < 2 ^ 63"

lemma is_int64_wrap64 [simp]: "is_int64 (wrap64 n)"
  by (auto simp: is_int64_def wrap64_def)

lemma wrap64_id [simp]: "is_int64 n \<Longrightarrow> wrap64 n = n"
  by (simp add: is_int64_def wrap64_def)

lemma wrap64_add_left [simp]: "wrap64 (wrap64 a + b) = wrap64 (a + b)"
proof -
  have "(wrap64 a + b) + 2 ^ 63 = (a + 2 ^ 63) mod 2 ^ 64 + b"
    by (simp add: wrap64_def)
  moreover have "((a + 2 ^ 63) mod 2 ^ 64 + b) mod 2 ^ 64 = ((a + 2 ^ 63) + b) mod 2 ^ 64"
    by (rule mod_add_left_eq)
  moreover have "(a + 2 ^ 63) + b = (a + b) + 2 ^ 63"
    by simp
  ultimately show ?thesis
    by (simp only: wrap64_def [of "wrap64 a + b"] wrap64_def [of "a + b"])
qed

text \<open>
  An instant is the number of nanoseconds since the zero time of Go's \<^verbatim>\<open>time\<close> package,
  0001-01-01 00:00:00 UTC; a duration is a number of nanoseconds.
\<close>

type_synonym time = int
type_synonym duration = int

definition Second :: duration where "Second = 1000000000"
definition Minute :: duration where "Minute = 60 * Second"
definition Hour :: duration where "Hour = 60 * Minute"
definition Day :: duration where "Day = 24 * Hour"

lemmas time_units [go_defs] = Second_def Minute_def Hour_def Day_def

section \<open>Tables\<close>

definition tab_delete :: "('r \<Rightarrow> bool) \<Rightarrow> 'r list \<Rightarrow> 'r list" where
  "tab_delete P rows = filter (\<lambda>r. \<not> P r) rows"

definition tab_update :: "('r \<Rightarrow> bool) \<Rightarrow> ('r \<Rightarrow> 'r) \<Rightarrow> 'r list \<Rightarrow> 'r list" where
  "tab_update P f rows = map (\<lambda>r. if P r then f r else r) rows"

text \<open>
  \<open>tab_upsert key r upd rows\<close> is \<^verbatim>\<open>INSERT r ON CONFLICT (key) DO UPDATE SET upd\<close>: the row with the
  key of \<open>r\<close> is updated, or \<open>r\<close> is added when there is none.
\<close>

definition tab_upsert :: "('r \<Rightarrow> 'k) \<Rightarrow> 'r \<Rightarrow> ('r \<Rightarrow> 'r) \<Rightarrow> 'r list \<Rightarrow> 'r list" where
  "tab_upsert key r upd rows =
     (if key r \<in> key ` set rows
      then tab_update (\<lambda>r'. key r' = key r) upd rows
      else rows @ [r])"

definition tab_find :: "('r \<Rightarrow> 'k) \<Rightarrow> 'r list \<Rightarrow> 'k \<Rightarrow> 'r option" where
  "tab_find key rows k = find (\<lambda>r. key r = k) rows"

definition tab_wf :: "('r \<Rightarrow> 'k) \<Rightarrow> 'r list \<Rightarrow> bool" where
  "tab_wf key rows \<longleftrightarrow> distinct (map key rows)"

lemma find_append: "find P (xs @ ys) = (case find P xs of None \<Rightarrow> find P ys | Some x \<Rightarrow> Some x)"
  by (induction xs) auto

lemma find_SomeD: "find P xs = Some y \<Longrightarrow> y \<in> set xs \<and> P y"
  by (induction xs) (auto split: if_splits)

lemma tab_find_Nil [simp]: "tab_find key [] k = None"
  by (simp add: tab_find_def)

lemma tab_find_Cons [simp]:
  "tab_find key (r # rows) k = (if key r = k then Some r else tab_find key rows k)"
  by (simp add: tab_find_def)

lemma tab_find_append [tab_simps]:
  "tab_find key (rows @ rows') k =
     (case tab_find key rows k of None \<Rightarrow> tab_find key rows' k | Some r \<Rightarrow> Some r)"
  unfolding tab_find_def by (rule find_append)

lemma tab_find_None_iff: "tab_find key rows k = None \<longleftrightarrow> k \<notin> key ` set rows"
  by (induction rows) auto

lemma tab_find_SomeD: "tab_find key rows k = Some r \<Longrightarrow> r \<in> set rows \<and> key r = k"
  by (induction rows) (auto split: if_splits)

lemma tab_find_in_set:
  "tab_wf key rows \<Longrightarrow> r \<in> set rows \<Longrightarrow> tab_find key rows (key r) = Some r"
  by (induction rows) (auto simp: tab_wf_def)

lemma tab_find_Some_iff:
  "tab_wf key rows \<Longrightarrow> tab_find key rows k = Some r \<longleftrightarrow> r \<in> set rows \<and> key r = k"
  using tab_find_in_set tab_find_SomeD by metis

lemma tab_wf_delete [tab_simps]: "tab_wf key rows \<Longrightarrow> tab_wf key (tab_delete P rows)"
  by (induction rows) (auto simp: tab_wf_def tab_delete_def)

lemma tab_find_delete_key [tab_simps]:
  "tab_find key (tab_delete (\<lambda>r. key r = k) rows) k' = (if k' = k then None else tab_find key rows k')"
  by (induction rows) (auto simp: tab_delete_def)

lemma tab_find_delete [tab_simps]:
  "tab_wf key rows \<Longrightarrow> tab_find key (tab_delete P rows) k =
     (case tab_find key rows k of None \<Rightarrow> None | Some r \<Rightarrow> if P r then None else Some r)"
proof (induction rows)
  case (Cons r rows)
  have None: "key r = k \<Longrightarrow> tab_find key rows k = None"
    using Cons.prems by (auto simp: tab_wf_def tab_find_None_iff)
  have wf: "tab_wf key rows" using Cons.prems by (simp add: tab_wf_def)
  show ?case using Cons.IH [OF wf] None by (auto simp: tab_delete_def)
qed (simp add: tab_delete_def)

lemma keys_tab_update [simp]:
  "(\<And>r. P r \<Longrightarrow> key (f r) = key r) \<Longrightarrow> map key (tab_update P f rows) = map key rows"
  by (induction rows) (auto simp: tab_update_def)

lemma tab_wf_update [tab_simps]:
  "(\<And>r. P r \<Longrightarrow> key (f r) = key r) \<Longrightarrow> tab_wf key (tab_update P f rows) = tab_wf key rows"
  by (simp add: tab_wf_def)

lemma tab_find_update [tab_simps]:
  assumes "\<And>r. P r \<Longrightarrow> key (f r) = key r"
  shows "tab_find key (tab_update P f rows) k =
     map_option (\<lambda>r. if P r then f r else r) (tab_find key rows k)"
  using assms by (induction rows) (auto simp: tab_update_def)

lemma tab_wf_upsert [tab_simps]:
  assumes "tab_wf key rows" and "\<And>r'. key (upd r') = key r'"
  shows "tab_wf key (tab_upsert key r upd rows)"
  using assms by (auto simp: tab_upsert_def tab_wf_def)

lemma tab_find_upsert [tab_simps]:
  assumes "\<And>r'. key (upd r') = key r'"
  shows "tab_find key (tab_upsert key r upd rows) k =
     (if k = key r then Some (case tab_find key rows k of None \<Rightarrow> r | Some r' \<Rightarrow> upd r')
      else tab_find key rows k)"
proof (cases "key r \<in> key ` set rows")
  case True
  then obtain r' where "tab_find key rows (key r) = Some r'"
    using tab_find_None_iff by (metis not_None_eq)
  moreover have "tab_find key rows k = Some r2 \<Longrightarrow> key r2 = k" for r2
    using tab_find_SomeD by metis
  ultimately show ?thesis
    using True assms by (auto simp: tab_upsert_def tab_find_update map_option_case split: option.splits)
next
  case False
  then have "tab_find key rows (key r) = None"
    by (simp add: tab_find_None_iff)
  with False show ?thesis
    by (cases "tab_find key rows k") (auto simp: tab_upsert_def tab_find_append)
qed

subsection \<open>The interface of a keyed table\<close>

text \<open>
  A client of a keyed table knows it by its lookup function: storing a value under a key
  changes what that key finds and nothing else, and keeps the keys unique.
  \<open>mk v old\<close> is the row found after storing \<open>v\<close> where \<open>old\<close> was found before.
\<close>

locale keyed_store =
  fixes lookup :: "'t \<Rightarrow> 'k \<Rightarrow> 'r option"
    and put :: "'k \<Rightarrow> 'v \<Rightarrow> 't \<Rightarrow> 't"
    and wf :: "'t \<Rightarrow> bool"
    and mk :: "'k \<Rightarrow> 'v \<Rightarrow> 'r option \<Rightarrow> 'r"
  assumes wf_put: "wf t \<Longrightarrow> wf (put k v t)"
    and lookup_put: "wf t \<Longrightarrow> lookup (put k v t) k' = (if k' = k then Some (mk k v (lookup t k)) else lookup t k')"
begin

fun puts :: "('k \<times> 'v) list \<Rightarrow> 't \<Rightarrow> 't" where
  "puts [] t = t"
| "puts ((k, v) # kvs) t = puts kvs (put k v t)"

lemma wf_puts: "wf t \<Longrightarrow> wf (puts kvs t)"
  by (induction kvs t rule: puts.induct) (auto simp: wf_put)

lemma puts_append: "puts (kvs @ kvs') t = puts kvs' (puts kvs t)"
  by (induction kvs t rule: puts.induct) auto

lemma lookup_puts_other: "wf t \<Longrightarrow> k \<notin> fst ` set kvs \<Longrightarrow> lookup (puts kvs t) k = lookup t k"
  by (induction kvs t rule: puts.induct) (auto simp: wf_put lookup_put)

lemma lookup_puts_mem:
  "wf t \<Longrightarrow> k \<in> fst ` set kvs \<Longrightarrow> \<exists>v old. (k, v) \<in> set kvs \<and> lookup (puts kvs t) k = Some (mk k v old)"
proof (induction kvs t rule: puts.induct)
  case (2 k' v' kvs t)
  show ?case
  proof (cases "k \<in> fst ` set kvs")
    case True
    then show ?thesis using 2 wf_put by (metis list.set_intros(2) puts.simps(2))
  next
    case False
    then have "k = k'" using 2 by auto
    with False have "lookup (puts ((k', v') # kvs) t) k = Some (mk k v' (lookup t k))"
      using 2 by (simp add: wf_put lookup_put lookup_puts_other)
    then show ?thesis using \<open>k = k'\<close> by auto
  qed
qed simp

lemma lookup_puts_None:
  "wf t \<Longrightarrow> lookup (puts kvs t) k = None \<longleftrightarrow> k \<notin> fst ` set kvs \<and> lookup t k = None"
  using lookup_puts_mem lookup_puts_other by (metis option.distinct(1))

lemma put_put: "wf t \<Longrightarrow> lookup (put k w (put k v t)) k = Some (mk k w (Some (mk k v (lookup t k))))"
  by (simp add: wf_put lookup_put)

end

text \<open>A table that also deletes by key.\<close>

locale keyed_store_delete = keyed_store lookup put wf mk
  for lookup :: "'t \<Rightarrow> 'k \<Rightarrow> 'r option"
    and put :: "'k \<Rightarrow> 'v \<Rightarrow> 't \<Rightarrow> 't"
    and wf :: "'t \<Rightarrow> bool"
    and mk :: "'k \<Rightarrow> 'v \<Rightarrow> 'r option \<Rightarrow> 'r" +
  fixes del :: "'k \<Rightarrow> 't \<Rightarrow> 't"
  assumes wf_del: "wf t \<Longrightarrow> wf (del k t)"
    and lookup_del: "wf t \<Longrightarrow> lookup (del k t) k' = (if k' = k then None else lookup t k')"
begin

lemma put_after_del: "wf t \<Longrightarrow> lookup (put k v (del k t)) k = Some (mk k v None)"
  by (simp add: wf_del lookup_del lookup_put)

lemma del_after_puts: "wf t \<Longrightarrow> lookup (del k (puts kvs t)) k' = (if k' = k then None else lookup (puts kvs t) k')"
  by (simp add: wf_puts lookup_del)

end

section \<open>Lists\<close>

text \<open>
  The program removes duplicates by keeping a set of what it has seen and appending to an
  output list: the first occurrence of every element stays, in order.
\<close>

fun dedup :: "'a set \<Rightarrow> 'a list \<Rightarrow> 'a list" where
  "dedup seen [] = []"
| "dedup seen (x # xs) = (if x \<in> seen then dedup seen xs else x # dedup (insert x seen) xs)"

lemma set_dedup [simp]: "set (dedup seen xs) = set xs - seen"
  by (induction seen xs rule: dedup.induct) auto

lemma distinct_dedup [simp]: "distinct (dedup seen xs)"
  by (induction seen xs rule: dedup.induct) auto

lemma dedup_distinct: "distinct xs \<Longrightarrow> set xs \<inter> seen = {} \<Longrightarrow> dedup seen xs = xs"
  by (induction seen xs rule: dedup.induct) auto

lemma dedup_append: "dedup seen (xs @ ys) = dedup seen xs @ dedup (seen \<union> set xs) ys"
  by (induction seen xs rule: dedup.induct) (auto simp: insert_absorb)

text \<open>Sums by groups add up to the whole.\<close>

lemma sum_groups:
  fixes h :: "'a \<Rightarrow> int"
  assumes "finite A" and "f ` set rows \<subseteq> A"
  shows "(\<Sum>p\<in>A. sum_list (map h (filter (\<lambda>r. f r = p) rows))) = sum_list (map h rows)"
  using assms(2)
proof (induction rows)
  case (Cons r rows)
  have "(\<Sum>p\<in>A. sum_list (map h (filter (\<lambda>r. f r = p) (r # rows)))) =
    (\<Sum>p\<in>A. (if f r = p then h r else 0) + sum_list (map h (filter (\<lambda>r. f r = p) rows)))"
    by (rule sum.cong) auto
  then show ?case using Cons assms(1) by (simp add: sum.distrib sum.delta')
qed simp

lemma sum_dedup_groups:
  fixes h :: "'a \<Rightarrow> int"
  shows "sum_list (map (\<lambda>p. sum_list (map h (filter (\<lambda>r. f r = p) rows))) (dedup {} (map f rows))) = sum_list (map h rows)"
  using sum_groups [of "f ` set rows" f rows h] by (simp add: sum_list_distinct_conv_sum_set)

lemma sum_list_partition:
  fixes h :: "'a \<Rightarrow> int"
  shows "sum_list (map h (filter P rows)) + sum_list (map h (filter (\<lambda>r. \<not> P r) rows)) = sum_list (map h rows)"
  by (induction rows) auto

end
