(* ===== verification/GoStrings.thy ===== *)
theory GoStrings
  imports Prelude "HOL-Library.Word"
begin

text \<open>
  The functions of Go's \<^verbatim>\<open>strings\<close>, \<^verbatim>\<open>strconv\<close> and \<^verbatim>\<open>sort\<close> packages that the program calls,
  on strings as byte lists, which is what a Go string is. Order on strings is the bytewise
  lexicographic order of HOL-Library's list and character orders.
\<close>

section \<open>Prefixes, suffixes, trimming\<close>

definition HasPrefix :: "string \<Rightarrow> string \<Rightarrow> bool" where
  "HasPrefix s p \<longleftrightarrow> prefix p s"

definition HasSuffix :: "string \<Rightarrow> string \<Rightarrow> bool" where
  "HasSuffix s p \<longleftrightarrow> suffix p s"

definition TrimPrefix :: "string \<Rightarrow> string \<Rightarrow> string" where
  "TrimPrefix s p = (if HasPrefix s p then drop (length p) s else s)"

text \<open>\<^verbatim>\<open>Trim\<close> and \<^verbatim>\<open>TrimRight\<close> with a cutset of one ASCII character.\<close>

definition TrimLeftChar :: "string \<Rightarrow> char \<Rightarrow> string" where
  "TrimLeftChar s c = dropWhile (\<lambda>d. d = c) s"

definition TrimRightChar :: "string \<Rightarrow> char \<Rightarrow> string" where
  "TrimRightChar s c = rev (dropWhile (\<lambda>d. d = c) (rev s))"

definition TrimChar :: "string \<Rightarrow> char \<Rightarrow> string" where
  "TrimChar s c = TrimRightChar (TrimLeftChar s c) c"

text \<open>
  \<^verbatim>\<open>TrimSpace\<close> removes leading and trailing Unicode white space. On the UTF-8 bytes, a white
  space character is one of six ASCII bytes, a two-byte sequence (U+0085, U+00A0) or a
  three-byte one (U+1680, U+2000 to U+200A, U+2028, U+2029, U+202F, U+205F, U+3000). UTF-8
  synchronises itself, so the last character of a string is one of these exactly when the
  string ends with its bytes; \<open>strip True\<close> works on the reversed string.
\<close>

definition space1 :: "char \<Rightarrow> bool" where
  "space1 c \<longleftrightarrow> c \<in> set [CHR 0x09, CHR 0x0A, CHR 0x0B, CHR 0x0C, CHR 0x0D, CHR 0x20]"

definition space2 :: "char \<Rightarrow> char \<Rightarrow> bool" where
  "space2 c d \<longleftrightarrow> c = CHR 0xC2 \<and> d \<in> set [CHR 0x85, CHR 0xA0]"

definition space3 :: "char \<Rightarrow> char \<Rightarrow> char \<Rightarrow> bool" where
  "space3 c d e \<longleftrightarrow>
     c = CHR 0xE1 \<and> d = CHR 0x9A \<and> e = CHR 0x80
   \<or> c = CHR 0xE2 \<and> d = CHR 0x80 \<and>
       e \<in> set [CHR 0x80, CHR 0x81, CHR 0x82, CHR 0x83, CHR 0x84, CHR 0x85, CHR 0x86, CHR 0x87,
                CHR 0x88, CHR 0x89, CHR 0x8A, CHR 0xA8, CHR 0xA9, CHR 0xAF]
   \<or> c = CHR 0xE2 \<and> d = CHR 0x81 \<and> e = CHR 0x9F
   \<or> c = CHR 0xE3 \<and> d = CHR 0x80 \<and> e = CHR 0x80"

fun strip :: "bool \<Rightarrow> string \<Rightarrow> string" where
  "strip r [] = []"
| "strip r [c] = (if space1 c then [] else [c])"
| "strip r [c, d] =
     (if space1 c then strip r [d]
      else if (if r then space2 d c else space2 c d) then []
      else [c, d])"
| "strip r (c # d # e # s) =
     (if space1 c then strip r (d # e # s)
      else if (if r then space2 d c else space2 c d) then strip r (e # s)
      else if (if r then space3 e d c else space3 c d e) then strip r s
      else c # d # e # s)"

definition TrimSpace :: "string \<Rightarrow> string" where
  "TrimSpace s = rev (strip True (rev (strip False s)))"

lemma TrimSpace_Nil [simp]: "TrimSpace [] = []"
  by (simp add: TrimSpace_def)

lemma TrimSpace_nonempty: "TrimSpace s \<noteq> [] \<Longrightarrow> s \<noteq> []"
  by auto

text \<open>\<^verbatim>\<open>ToLower\<close> as far as the result can be an ASCII word: capital letters, and the two other letters
  that lower to an ASCII one, U+0130 (to \<^verbatim>\<open>i\<close>) and U+212A (to \<^verbatim>\<open>k\<close>). Other bytes are left as they are.\<close>

definition lower_char :: "char \<Rightarrow> char" where
  "lower_char c = (let n = of_char c :: nat in if 65 \<le> n \<and> n \<le> 90 then char_of (n + 32) else c)"

fun ToLower :: "string \<Rightarrow> string" where
  "ToLower [] = []"
| "ToLower (c # s) =
     (if c = CHR 0xC4 \<and> prefix [CHR 0xB0] s then CHR ''i'' # ToLower (drop 1 s)
      else if c = CHR 0xE2 \<and> prefix [CHR 0x84, CHR 0xAA] s then CHR ''k'' # ToLower (drop 2 s)
      else lower_char c # ToLower s)"

section \<open>Searching\<close>

fun index_from :: "nat \<Rightarrow> string \<Rightarrow> char \<Rightarrow> int" where
  "index_from i [] c = -1"
| "index_from i (d # s) c = (if d = c then int i else index_from (Suc i) s c)"

definition IndexByte :: "string \<Rightarrow> char \<Rightarrow> int" where
  "IndexByte s c = index_from 0 s c"

lemma index_from_eq:
  "index_from i s c = (if c \<in> set s then int (i + length (takeWhile (\<lambda>d. d \<noteq> c) s)) else -1)"
  by (induction i s c rule: index_from.induct) auto

lemma IndexByte_eq:
  "IndexByte s c = (if c \<in> set s then int (length (takeWhile (\<lambda>d. d \<noteq> c) s)) else -1)"
  by (simp add: IndexByte_def index_from_eq)

lemma IndexByte_neg [simp]: "IndexByte s c < 0 \<longleftrightarrow> c \<notin> set s"
  by (simp add: IndexByte_eq)

lemma IndexByte_nonneg [simp]: "0 \<le> IndexByte s c \<longleftrightarrow> c \<in> set s"
  by (simp add: IndexByte_eq)

lemma take_IndexByte:
  assumes "c \<in> set s"
  shows "take (nat (IndexByte s c) + 1) s = takeWhile (\<lambda>d. d \<noteq> c) s @ [c]"
  using assms
proof (induction s)
  case (Cons d s)
  then show ?case by (auto simp: IndexByte_eq)
qed simp

text \<open>\<^verbatim>\<open>sort.SearchStrings\<close>: the binary search of the standard library.\<close>

function search_loop :: "string list \<Rightarrow> string \<Rightarrow> nat \<Rightarrow> nat \<Rightarrow> nat" where
  "search_loop a x i j =
     (if i < j
      then let h = (i + j) div 2
           in if a ! h < x then search_loop a x (h + 1) j else search_loop a x i h
      else i)"
  by pat_completeness auto
termination
  by (relation "measure (\<lambda>(a, x, i, j). j - i)") auto

declare search_loop.simps [simp del]

definition SearchStrings :: "string list \<Rightarrow> string \<Rightarrow> nat" where
  "SearchStrings a x = search_loop a x 0 (length a)"

lemma search_loop_spec:
  assumes "sorted a" and "i \<le> j" and "j \<le> length a"
    and "\<forall>k < i. a ! k < x" and "\<forall>k. j \<le> k \<and> k < length a \<longrightarrow> x \<le> a ! k"
  shows "search_loop a x i j \<le> length a \<and> (\<forall>k < search_loop a x i j. a ! k < x) \<and>
     (\<forall>k. search_loop a x i j \<le> k \<and> k < length a \<longrightarrow> x \<le> a ! k)"
  using assms
proof (induction a x i j rule: search_loop.induct)
  case (1 a x i j)
  show ?case
  proof (cases "i < j")
    case True
    define h where "h = (i + j) div 2"
    have h: "i \<le> h" "h < j" using True by (auto simp: h_def)
    show ?thesis
    proof (cases "a ! h < x")
      case less: True
      have "a ! k < x" if "k < h + 1" for k
        using that less h 1(5) sorted_nth_mono [OF 1(3), of k h] by simp
      moreover have "search_loop a x i j = search_loop a x (h + 1) j"
        using True less by (simp add: search_loop.simps [of a x i j] h_def Let_def)
      ultimately show ?thesis
        using 1(5,7) h by (simp only:) (rule 1(1) [OF True h_def less 1(3)], auto)
    next
      case ge: False
      have "x \<le> a ! k" if "h \<le> k" "k < length a" for k
        using that ge sorted_nth_mono [OF 1(3), of h k] by simp
      moreover have "search_loop a x i j = search_loop a x i h"
        using True ge by (simp add: search_loop.simps [of a x i j] h_def Let_def)
      ultimately show ?thesis
        using 1(5,6) h by (simp only:) (rule 1(2) [OF True h_def ge 1(3)], auto)
    qed
  next
    case False
    then have "search_loop a x i j = i" by (simp add: search_loop.simps [of a x i j])
    with False 1(4-7) show ?thesis by simp
  qed
qed

lemma SearchStrings_bounds:
  assumes "sorted a"
  shows "SearchStrings a x \<le> length a \<and> (\<forall>k < SearchStrings a x. a ! k < x) \<and>
    (\<forall>k. SearchStrings a x \<le> k \<and> k < length a \<longrightarrow> x \<le> a ! k)"
  unfolding SearchStrings_def by (rule search_loop_spec [OF assms]) auto

lemma SearchStrings_below: "sorted a \<Longrightarrow> k < SearchStrings a x \<Longrightarrow> a ! k < x"
  using SearchStrings_bounds by blast

lemma SearchStrings_above: "sorted a \<Longrightarrow> SearchStrings a x \<le> k \<Longrightarrow> k < length a \<Longrightarrow> x \<le> a ! k"
  using SearchStrings_bounds by blast

lemma SearchStrings_nth:
  assumes "sorted a" and "distinct a" and "i < length a"
  shows "SearchStrings a (a ! i) = i"
proof (rule linorder_cases)
  assume less: "SearchStrings a (a ! i) < i"
  then have "a ! i \<le> a ! SearchStrings a (a ! i)"
    using SearchStrings_above [OF assms(1) order_refl] assms(3) by simp
  moreover have "a ! SearchStrings a (a ! i) \<le> a ! i"
    using less assms by (simp add: sorted_nth_mono)
  ultimately have "a ! i = a ! SearchStrings a (a ! i)" by (rule antisym)
  then show ?thesis
    using assms less by (simp add: nth_eq_iff_index_eq)
next
  assume "i < SearchStrings a (a ! i)"
  then have "a ! i < a ! i" by (rule SearchStrings_below [OF assms(1)])
  then show ?thesis by simp
qed simp

section \<open>Decimal numbers\<close>

definition digit_char :: "nat \<Rightarrow> char" where
  "digit_char d = ''0123456789'' ! d"

fun nat_str :: "nat \<Rightarrow> string" where
  "nat_str n = (if n < 10 then [digit_char n] else nat_str (n div 10) @ [digit_char (n mod 10)])"

declare nat_str.simps [simp del]

definition FormatInt :: "int \<Rightarrow> string" where
  "FormatInt n = (if n < 0 then CHR ''-'' # nat_str (nat (- n)) else nat_str (nat n))"

definition digit_val :: "char \<Rightarrow> nat option" where
  "digit_val c = (let n = of_char c :: nat in if 48 \<le> n \<and> n \<le> 57 then Some (n - 48) else None)"

fun digits_val :: "nat \<Rightarrow> string \<Rightarrow> nat option" where
  "digits_val acc [] = Some acc"
| "digits_val acc (c # s) =
     (case digit_val c of None \<Rightarrow> None | Some d \<Rightarrow> digits_val (10 * acc + d) s)"

text \<open>\<^verbatim>\<open>strconv.Atoi\<close> on a 64-bit platform: an optional sign, at least one decimal digit and
  nothing else, and a value in the range of \<open>int64\<close>.\<close>

definition parse_unsigned :: "string \<Rightarrow> nat option" where
  "parse_unsigned s = (if s = [] then None else digits_val 0 s)"

definition Atoi :: "string \<Rightarrow> int option" where
  "Atoi s =
     (let m = (case s of
                 [] \<Rightarrow> None
               | c # s' \<Rightarrow>
                   if c = CHR ''-'' then map_option (\<lambda>n. - int n) (parse_unsigned s')
                   else if c = CHR ''+'' then map_option int (parse_unsigned s')
                   else map_option int (parse_unsigned s))
      in case m of None \<Rightarrow> None | Some n \<Rightarrow> if is_int64 n then Some n else None)"

lemma digit_val_char [simp]: "d < 10 \<Longrightarrow> digit_val (digit_char d) = Some d"
proof -
  assume "d < 10"
  then have "d \<in> {0, 1, 2, 3, 4, 5, 6, 7, 8, 9}" by auto
  then show ?thesis by (auto simp: digit_val_def digit_char_def)
qed

lemma digits_val_append:
  "digits_val acc (s @ t) = (case digits_val acc s of None \<Rightarrow> None | Some a \<Rightarrow> digits_val a t)"
  by (induction acc s rule: digits_val.induct) (auto split: option.split)

lemma digits_val_nat_str: "digits_val 0 (nat_str n) = Some n"
proof (induction n rule: nat_str.induct)
  case (1 n)
  show ?case
  proof (cases "n < 10")
    case True
    then show ?thesis by (subst nat_str.simps) simp
  next
    case False
    with 1 have "digits_val 0 (nat_str (n div 10)) = Some (n div 10)" by simp
    with False show ?thesis by (subst nat_str.simps) (simp add: digits_val_append)
  qed
qed

lemma nat_str_nonempty [simp]: "nat_str n \<noteq> []"
  by (subst nat_str.simps) simp

lemma digit_char_less: "d < 10 \<Longrightarrow> digit_char d \<in> set ''0123456789''"
  unfolding digit_char_def by (rule nth_mem) simp

lemma nat_str_digits: "set (nat_str n) \<subseteq> set ''0123456789''"
proof (induction n rule: nat_str.induct)
  case (1 n)
  show ?case
  proof (cases "n < 10")
    case True
    then show ?thesis using digit_char_less by (subst nat_str.simps) simp
  next
    case False
    have "digit_char (n mod 10) \<in> set ''0123456789''" by (rule digit_char_less) simp
    with False 1 show ?thesis by (subst nat_str.simps) simp
  qed
qed

lemma nat_str_inject [simp]: "nat_str m = nat_str n \<longleftrightarrow> m = n"
  using digits_val_nat_str by (metis option.inject)

lemma nat_str_no_minus: "nat_str n \<noteq> CHR ''-'' # s"
  using nat_str_digits [of n] by auto

lemma FormatInt_inject [simp]: "FormatInt m = FormatInt n \<longleftrightarrow> m = n"
  using nat_str_no_minus by (auto simp: FormatInt_def dest: sym)

lemma FormatInt_chars: "set (FormatInt n) \<subseteq> set ''-0123456789''"
proof -
  have "set ''0123456789'' \<subseteq> set ''-0123456789''" by (simp only: list.set) blast
  then have "set (nat_str m) \<subseteq> set ''-0123456789''" for m
    using nat_str_digits by (rule subset_trans [rotated])
  then show ?thesis by (simp add: FormatInt_def)
qed

lemma Atoi_FormatInt: "is_int64 n \<Longrightarrow> Atoi (FormatInt n) = Some n"
proof -
  assume n: "is_int64 n"
  show ?thesis
  proof (cases "n < 0")
    case True
    then show ?thesis
      using n by (simp add: Atoi_def FormatInt_def parse_unsigned_def digits_val_nat_str)
  next
    case False
    obtain c s where cs: "nat_str (nat n) = c # s" by (cases "nat_str (nat n)") auto
    then have "c \<noteq> CHR ''-''" "c \<noteq> CHR ''+''" using nat_str_digits [of "nat n"] by auto
    then show ?thesis
      using False n cs digits_val_nat_str [of "nat n"]
      by (simp add: Atoi_def FormatInt_def parse_unsigned_def)
  qed
qed

section \<open>Joining\<close>

fun Join :: "string list \<Rightarrow> string \<Rightarrow> string" where
  "Join [] sep = []"
| "Join [s] sep = s"
| "Join (s # t # ss) sep = s @ sep @ Join (t # ss) sep"

end
