(* ===== verification/GoError.thy ===== *)
theory GoError
  imports GoStrings
begin

text \<open>
  Go error values. A package-level \<^verbatim>\<open>errors.New\<close> variable that the program compares with
  \<^verbatim>\<open>errors.Is\<close> is a constructor of its own; an error made on the spot carries its text;
  \<^verbatim>\<open>fmt.Errorf("...: %w", err)\<close> is \<open>ErrWrap\<close>. An error value of a library the program only
  calls (AWS SDK, pgx, go-redis, asynq) is \<open>ErrExt\<close> of what the program reads of it: the
  concrete type and the code that \<^verbatim>\<open>errors.As\<close> extracts, and the text.
\<close>

section \<open>Errors of the libraries\<close>

datatype aws_type =
    NoSuchKey | NoSuchBucket | NotFound | BucketAlreadyExists | BucketAlreadyOwnedByYou | OtherAPIError

datatype ext_error =
    AwsError aws_type string string   \<comment> \<open>concrete type, \<^verbatim>\<open>ErrorCode()\<close>, text\<close>
  | PgError string string             \<comment> \<open>SQLSTATE, text\<close>
  | TaskIDConflict                    \<comment> \<open>\<^verbatim>\<open>asynq.ErrTaskIDConflict\<close>\<close>
  | NetError string                   \<comment> \<open>any other error\<close>

fun ext_text :: "ext_error \<Rightarrow> string" where
  "ext_text (AwsError ty code msg) = msg"
| "ext_text (PgError code msg) = msg"
| "ext_text TaskIDConflict = ''task ID conflicts with another task''"
| "ext_text (NetError msg) = msg"

section \<open>Errors of the program\<close>

datatype go_error =
    ErrNotFound                 \<comment> \<open>\<^verbatim>\<open>storage.ErrNotFound\<close>\<close>
  | ErrNotEmpty                 \<comment> \<open>\<^verbatim>\<open>storage.ErrNotEmpty\<close>\<close>
  | ErrDestExists               \<comment> \<open>\<^verbatim>\<open>objects.ErrDestExists\<close>\<close>
  | ErrConflict                 \<comment> \<open>\<^verbatim>\<open>bucket.ErrConflict\<close>\<close>
  | ErrUnavailable              \<comment> \<open>\<^verbatim>\<open>queue.ErrUnavailable\<close>\<close>
  | ErrInvalidKey               \<comment> \<open>\<^verbatim>\<open>objects.errInvalidKey\<close>\<close>
  | ErrTrashPath                \<comment> \<open>\<^verbatim>\<open>objects.errTrashPath\<close>\<close>
  | ErrNew string
  | ErrWrap string go_error
  | ErrExt ext_error

fun error_text :: "go_error \<Rightarrow> string" where
  "error_text ErrNotFound = ''not found''"
| "error_text ErrNotEmpty = ''not empty''"
| "error_text ErrDestExists = ''Destination already exists''"
| "error_text ErrConflict = ''bucket exists''"
| "error_text ErrUnavailable = ''task queue unavailable''"
| "error_text ErrInvalidKey = ''Invalid object key''"
| "error_text ErrTrashPath = ''Pass original keys, not trash paths''"
| "error_text (ErrNew msg) = msg"
| "error_text (ErrWrap pre e) = pre @ '': '' @ error_text e"
| "error_text (ErrExt e) = ext_text e"

text \<open>\<^verbatim>\<open>errors.Is\<close> for a sentinel target, and the innermost error, which \<^verbatim>\<open>errors.As\<close> inspects.\<close>

fun errors_Is :: "go_error \<Rightarrow> go_error \<Rightarrow> bool" where
  "errors_Is (ErrWrap pre e) target = (ErrWrap pre e = target \<or> errors_Is e target)"
| "errors_Is e target = (e = target)"

fun unwrap_all :: "go_error \<Rightarrow> go_error" where
  "unwrap_all (ErrWrap pre e) = unwrap_all e"
| "unwrap_all e = e"

lemma errors_Is_sentinel:
  "(\<And>pre e. target \<noteq> ErrWrap pre e) \<Longrightarrow> errors_Is err target \<longleftrightarrow> unwrap_all err = target"
  by (induction err) auto

end
