(* ===== verification/TenantDB.thy ===== *)
theory TenantDB
  imports Prelude
begin

text \<open>
  The tenant database: one list of rows per table that the SQL texts of the program name,
  with the columns they name. A column the code scans into a pointer is an option. Row order
  stands for the physical order in which a scan without \<^verbatim>\<open>ORDER BY\<close> returns rows, and no
  property rests on it. Rows are kept as they are sent; the rounding of timestamps to
  microseconds by the server is not modelled.
\<close>

section \<open>Rows\<close>

text \<open>\<^verbatim>\<open>bucket.Bucket\<close>; the table has one more column that only \<^verbatim>\<open>MarkInventoried\<close> writes.\<close>

record Bucket =
  ID :: int
  BucketName :: string
  DisplayName :: "string option"
  DisplayAliasOnly :: bool
  QuotaBytes :: "int option"
  ObjectLimit :: "int option"
  VersioningEnabled :: bool
  AccessLoggingEnabled :: bool
  AccessLogTargetBucket :: "string option"
  AccessLogPrefix :: "string option"
  Status :: string
  CreatedBy :: "int option"
  CreatedAt :: time
  UpdatedAt :: time

record bucket_row = Bucket +
  inventoried_at :: "time option"

record grant_row =
  g_user_id :: int
  g_bucket_id :: int
  g_local :: bool

record object_row =
  o_bucket_id :: int
  o_bucket_name :: string
  o_object_key :: string
  o_size :: "int option"
  o_etag :: "string option"
  o_content_type :: "string option"
  o_storage_class :: "string option"
  o_created_by :: "int option"
  o_updated_by :: "int option"
  o_last_seen_at :: "time option"
  o_created_at :: time
  o_updated_at :: time

record version_row =
  v_id :: int
  v_bucket_name :: string
  v_object_key :: string
  v_version_no :: int
  v_storage_key :: string
  v_size :: int
  v_etag :: "string option"
  v_created_by :: int
  v_created_at :: time
  v_source :: string
  v_remark :: "string option"

record upload_row =
  u_id :: int
  u_user_id :: int
  u_bucket_name :: string
  u_object_key :: string
  u_upload_type :: string
  u_upload_id :: "string option"
  u_size :: "int option"
  u_content_type :: "string option"
  u_status :: string
  u_expired_at :: time
  u_created_at :: time
  u_completed_at :: "time option"

record user_row =
  usr_id :: int
  usr_username :: string
  usr_account_id :: "int option"

record setting_row =
  s_key :: string
  s_value :: string
  s_updated_at :: time

record audit_row =
  a_tenant_user_id :: "int option"
  a_account_id :: "int option"
  a_bucket_name :: "string option"
  a_object_key :: "string option"
  a_action :: string
  a_source_ip :: "string option"
  a_user_agent :: "string option"
  a_status :: string
  a_error_message :: "string option"
  a_created_at :: time

text \<open>The request statistics: counts that all but the last two tables have, and the tables.\<close>

record stat_row =
  st_request_count :: int
  st_upload_bytes :: int
  st_download_bytes :: int
  st_get_count :: int
  st_put_count :: int
  st_delete_count :: int
  st_collected_at :: time

record platform_stat = stat_row +
  ps_period :: string
  ps_error_count :: int
  ps_active_users :: int

record daily_stat = stat_row +
  ds_stat_date :: time
  ds_error_count :: int

record account_stat = stat_row +
  as_account_id :: int
  as_period :: string
  as_error_count :: int
  as_active_users :: int

record bucket_stat = stat_row +
  bs_bucket_id :: int
  bs_period :: string
  bs_account_id :: "int option"
  bs_bucket_name :: string

record user_stat =
  us_user_id :: int
  us_account_id :: int
  us_period :: string
  us_username :: "string option"
  us_upload_count :: int
  us_download_count :: int
  us_delete_count :: int
  us_access_count :: int
  us_upload_bytes :: int
  us_download_bytes :: int
  us_collected_at :: time

record prefix_stat =
  xs_bucket_id :: int
  xs_prefix :: string
  xs_period :: string
  xs_account_id :: "int option"
  xs_access_count :: int
  xs_collected_at :: time

section \<open>The database\<close>

record tenant_db =
  buckets :: "bucket_row list"
  account_bucket_grants :: "grant_row list"
  object_records :: "object_row list"
  file_versions :: "version_row list"
  upload_tasks :: "upload_row list"
  tenant_users :: "user_row list"
  platform_settings :: "setting_row list"
  audit_logs :: "audit_row list"
  platform_request_stats :: "platform_stat list"
  daily_platform_request_stats :: "daily_stat list"
  account_request_stats :: "account_stat list"
  bucket_request_stats :: "bucket_stat list"
  user_request_stats :: "user_stat list"
  prefix_request_stats :: "prefix_stat list"

definition empty_db :: tenant_db where
  "empty_db = \<lparr>buckets = [], account_bucket_grants = [], object_records = [], file_versions = [],
     upload_tasks = [], tenant_users = [], platform_settings = [], audit_logs = [],
     platform_request_stats = [], daily_platform_request_stats = [], account_request_stats = [],
     bucket_request_stats = [], user_request_stats = [], prefix_request_stats = []\<rparr>"

text \<open>The unique keys that the \<^verbatim>\<open>ON CONFLICT\<close> clauses of the program rely on.\<close>

definition object_key :: "object_row \<Rightarrow> int \<times> string" where
  "object_key r = (o_bucket_id r, o_object_key r)"

definition grant_key :: "grant_row \<Rightarrow> int \<times> int" where
  "grant_key g = (g_user_id g, g_bucket_id g)"

definition db_wf :: "tenant_db \<Rightarrow> bool" where
  "db_wf d \<longleftrightarrow> tab_wf object_key (object_records d) \<and> tab_wf s_key (platform_settings d)
     \<and> tab_wf v_id (file_versions d) \<and> tab_wf u_id (upload_tasks d)
     \<and> tab_wf BucketName (buckets d) \<and> tab_wf ID (buckets d) \<and> tab_wf grant_key (account_bucket_grants d)"

definition find_object :: "tenant_db \<Rightarrow> int \<Rightarrow> string \<Rightarrow> object_row option" where
  "find_object d bid key = tab_find object_key (object_records d) (bid, key)"

section \<open>LIKE\<close>

text \<open>
  The SQL pattern match with escape character \<open>\\\<close> (the default, and what \<^verbatim>\<open>ESCAPE '\'\<close> says):
  \<open>%\<close> matches any sequence, \<open>_\<close> one character, an escaped character itself. A pattern that
  ends in the escape character is an error in PostgreSQL; no pattern of the program does.
\<close>

fun sql_like :: "string \<Rightarrow> string \<Rightarrow> bool" where
  "sql_like [] s = (s = [])"
| "sql_like (p # ps) s =
     (if p = CHR 0x5C
      then (case ps of
              [] \<Rightarrow> False
            | q # ps' \<Rightarrow> (case s of [] \<Rightarrow> False | c # s' \<Rightarrow> c = q \<and> sql_like ps' s'))
      else if p = CHR ''%''
      then sql_like ps s \<or> (case s of [] \<Rightarrow> False | c # s' \<Rightarrow> sql_like (p # ps) s')
      else if p = CHR ''_''
      then (case s of [] \<Rightarrow> False | c # s' \<Rightarrow> sql_like ps s')
      else (case s of [] \<Rightarrow> False | c # s' \<Rightarrow> c = p \<and> sql_like ps s'))"

declare sql_like.simps(2) [simp del]

lemma sql_like_percent: "sql_like ''%'' s"
  by (induction s) (simp_all add: sql_like.simps(2))

definition plain_char :: "char \<Rightarrow> bool" where
  "plain_char c \<longleftrightarrow> c \<noteq> CHR 0x5C \<and> c \<noteq> CHR ''%'' \<and> c \<noteq> CHR ''_''"

lemma sql_like_plain_Cons:
  "plain_char p \<Longrightarrow> sql_like (p # ps) s = (case s of [] \<Rightarrow> False | c # s' \<Rightarrow> c = p \<and> sql_like ps s')"
  by (simp add: sql_like.simps(2) plain_char_def)

lemma sql_like_literal:
  "list_all plain_char p \<Longrightarrow> sql_like (p @ ''%'') s \<longleftrightarrow> prefix p s"
proof (induction p arbitrary: s)
  case (Cons c p)
  then show ?case
    by (cases s) (auto simp: sql_like_plain_Cons)
qed (simp add: sql_like_percent)

end
