(* ===== verification/World.thy ===== *)
theory World
  imports GoError TenantDB
begin

text \<open>
  What the program runs in, and the effects it has. The state of a process is the tenant
  database and an environment of unknown type \<open>'e\<close>: the storage service, Redis, the task
  queue, the clock. Every call of a library is an operation of the record \<open>'e ext\<close>, a
  parameter of the model: given the environment, it returns what the call returns and the
  environment after it. Computations are functions from a state to \<open>None\<close> (the computation
  does not end) or a result, an error or a value, with the state after it.
\<close>

section \<open>Library calls\<close>

text \<open>What the SDK client was built from: endpoint, region and static credentials.\<close>

record sdk_config =
  sdk_endpoint :: string
  sdk_region :: string
  sdk_access_key :: string
  sdk_secret_key :: string

record head_output =
  ho_content_length :: "int option"
  ho_etag :: "string option"
  ho_content_type :: "string option"

record s3_object =
  so_key :: "string option"
  so_size :: "int option"
  so_etag :: "string option"
  so_storage_class :: string

record list_output =
  lo_contents :: "s3_object list"
  lo_is_truncated :: "bool option"
  lo_next_token :: "string option"

text \<open>
  The reply to one SQL statement. \<open>SqlOk t\<close>: executed, with \<^verbatim>\<open>now()\<close> equal to \<open>t\<close>.
  \<open>SqlFail\<close>: refused, nothing was done. \<open>SqlLost\<close>: executed, but the reply was lost and
  the driver reports an error.
\<close>

datatype sql_reply = SqlOk time | SqlFail ext_error | SqlLost time ext_error

text \<open>
  \<open>s3_CopyObject x c e bucket key source\<close> has the \<^verbatim>\<open>CopySource\<close> header as one string, as the
  SDK does; its result is the ETag of \<^verbatim>\<open>CopyObjectResult\<close>, \<open>None\<close> without one. \<open>collate\<close> is
  the database's order on text, \<open>collate a b\<close> meaning \<open>a <= b\<close>; \<open>audit_defaults now\<close> is what the
  schema, which is not part of the repository, fills into a new row of \<^verbatim>\<open>audit_logs\<close>.
\<close>

record 'e ext =
  clock :: "'e \<Rightarrow> time \<times> 'e"
  sql :: "'e \<Rightarrow> sql_reply \<times> 'e"
  collate :: "string \<Rightarrow> string \<Rightarrow> bool"
  audit_defaults :: "time \<Rightarrow> audit_row"
  s3_HeadObject :: "sdk_config \<Rightarrow> 'e \<Rightarrow> string \<Rightarrow> string \<Rightarrow> (ext_error + head_output) \<times> 'e"
  s3_CopyObject :: "sdk_config \<Rightarrow> 'e \<Rightarrow> string \<Rightarrow> string \<Rightarrow> string \<Rightarrow>
    (ext_error + string option option) \<times> 'e"
  s3_DeleteObject :: "sdk_config \<Rightarrow> 'e \<Rightarrow> string \<Rightarrow> string \<Rightarrow> (ext_error + unit) \<times> 'e"
  s3_ListObjectsV2 :: "sdk_config \<Rightarrow> 'e \<Rightarrow> string \<Rightarrow> string option \<Rightarrow> string option \<Rightarrow> int \<Rightarrow>
    (ext_error + list_output) \<times> 'e"
  s3_AbortMultipartUpload :: "sdk_config \<Rightarrow> 'e \<Rightarrow> string \<Rightarrow> string \<Rightarrow> string \<Rightarrow>
    (ext_error + unit) \<times> 'e"

section \<open>Computations\<close>

record 'e sys =
  db :: tenant_db
  env :: 'e

type_synonym ('e, 'a) io = "'e sys \<Rightarrow> ((go_error + 'a) \<times> 'e sys) option"

definition ret :: "'a \<Rightarrow> ('e, 'a) io" where
  "ret a s = Some (Inr a, s)"

definition throw :: "go_error \<Rightarrow> ('e, 'a) io" where
  "throw err s = Some (Inl err, s)"

text \<open>\<open>attempt m k\<close> is \<^verbatim>\<open>v, err := m()\<close> followed by code that looks at both.\<close>

definition attempt :: "('e, 'a) io \<Rightarrow> (go_error + 'a \<Rightarrow> ('e, 'b) io) \<Rightarrow> ('e, 'b) io" where
  "attempt m k s = (case m s of None \<Rightarrow> None | Some (r, s') \<Rightarrow> k r s')"

text \<open>\<open>bind m k\<close> is \<^verbatim>\<open>v, err := m(); if err != nil { return err }\<close> and then \<open>k v\<close>.\<close>

definition bind :: "('e, 'a) io \<Rightarrow> ('a \<Rightarrow> ('e, 'b) io) \<Rightarrow> ('e, 'b) io" where
  "bind m k = attempt m (\<lambda>r. case r of Inl err \<Rightarrow> throw err | Inr a \<Rightarrow> k a)"

text \<open>\<open>wrap_err pre m\<close> is \<^verbatim>\<open>if err != nil { return fmt.Errorf("pre: %w", err) }\<close>.\<close>

definition wrap_err :: "string \<Rightarrow> ('e, 'a) io \<Rightarrow> ('e, 'a) io" where
  "wrap_err pre m = attempt m (\<lambda>r. case r of Inl err \<Rightarrow> throw (ErrWrap pre err) | Inr a \<Rightarrow> ret a)"

text \<open>\<open>for_each f xs\<close> is \<^verbatim>\<open>for _, x := range xs\<close> with a body that may return an error.\<close>

fun for_each :: "('x \<Rightarrow> ('e, unit) io) \<Rightarrow> 'x list \<Rightarrow> ('e, unit) io" where
  "for_each f [] = ret ()"
| "for_each f (x # xs) = bind (f x) (\<lambda>_. for_each f xs)"

text \<open>A call into the environment, its error lifted.\<close>

definition ext_call :: "('e \<Rightarrow> (ext_error + 'a) \<times> 'e) \<Rightarrow> ('e, 'a) io" where
  "ext_call f s = (case f (env s) of
     (Inl err, e) \<Rightarrow> Some (Inl (ErrExt err), s\<lparr>env := e\<rparr>)
   | (Inr a, e) \<Rightarrow> Some (Inr a, s\<lparr>env := e\<rparr>))"

definition time_Now :: "'e ext \<Rightarrow> ('e, time) io" where
  "time_Now x s = (case clock x (env s) of (t, e) \<Rightarrow> Some (Inr t, s\<lparr>env := e\<rparr>))"

subsection \<open>SQL statements\<close>

text \<open>
  A statement is a function of \<^verbatim>\<open>now()\<close> and the database to what it returns and the database
  after it. \<open>sql_exec\<close> and \<open>sql_query\<close> are the statements that return nothing and those
  that change nothing.
\<close>

definition sql_stmt :: "'e ext \<Rightarrow> (time \<Rightarrow> tenant_db \<Rightarrow> 'a \<times> tenant_db) \<Rightarrow> ('e, 'a) io" where
  "sql_stmt x f s = (case sql x (env s) of
     (SqlOk t, e) \<Rightarrow> (case f t (db s) of (a, d) \<Rightarrow> Some (Inr a, \<lparr>db = d, env = e\<rparr>))
   | (SqlFail err, e) \<Rightarrow> Some (Inl (ErrExt err), s\<lparr>env := e\<rparr>)
   | (SqlLost t err, e) \<Rightarrow> Some (Inl (ErrExt err), \<lparr>db = snd (f t (db s)), env = e\<rparr>))"

definition sql_exec :: "'e ext \<Rightarrow> (time \<Rightarrow> tenant_db \<Rightarrow> tenant_db) \<Rightarrow> ('e, unit) io" where
  "sql_exec x f = sql_stmt x (\<lambda>t d. ((), f t d))"

definition sql_query :: "'e ext \<Rightarrow> (time \<Rightarrow> tenant_db \<Rightarrow> 'a) \<Rightarrow> ('e, 'a) io" where
  "sql_query x f = sql_stmt x (\<lambda>t d. (f t d, d))"

text \<open>
  \<open>sql_transaction x pre1 pre2 body\<close> is \<^verbatim>\<open>Begin\<close>, the statements of \<open>body\<close> and \<^verbatim>\<open>Commit\<close>, with
  \<^verbatim>\<open>defer tx.Rollback\<close>: an error before the commit leaves the database as it was. A commit
  whose reply is lost has been executed. \<open>pre1\<close> and \<open>pre2\<close> treat the errors of the two.
\<close>

definition sql_transaction :: "'e ext \<Rightarrow> (('e, unit) io \<Rightarrow> ('e, unit) io) \<Rightarrow>
    (('e, unit) io \<Rightarrow> ('e, unit) io) \<Rightarrow> ('e, 'a) io \<Rightarrow> ('e, 'a) io" where
  "sql_transaction x pre1 pre2 body s =
     bind (pre1 (sql_exec x (\<lambda>_ d. d)))
       (\<lambda>_. attempt body (\<lambda>r. case r of
          Inl err \<Rightarrow> (\<lambda>s'. Some (Inl err, s'\<lparr>db := db s\<rparr>))
        | Inr a \<Rightarrow> (\<lambda>s'. case pre2 (sql_exec x (\<lambda>_ _. db s')) (s'\<lparr>db := db s\<rparr>) of
            None \<Rightarrow> None
          | Some (Inl err, s'') \<Rightarrow> Some (Inl err, s'')
          | Some (Inr _, s'') \<Rightarrow> Some (Inr a, s'')))) s"

section \<open>Evaluation\<close>

lemma ret_apply: "ret a s = Some (Inr a, s)"
  by (simp add: ret_def)

lemma throw_apply: "throw err s = Some (Inl err, s)"
  by (simp add: throw_def)

lemma bind_apply:
  "bind m k s = (case m s of None \<Rightarrow> None | Some (Inl err, s') \<Rightarrow> Some (Inl err, s') | Some (Inr a, s') \<Rightarrow> k a s')"
  by (auto simp: bind_def attempt_def throw_apply split: option.split sum.split)

lemma wrap_err_apply:
  "wrap_err pre m s = (case m s of None \<Rightarrow> None | Some (Inl err, s') \<Rightarrow> Some (Inl (ErrWrap pre err), s')
     | Some (Inr a, s') \<Rightarrow> Some (Inr a, s'))"
  by (auto simp: wrap_err_def attempt_def ret_apply throw_apply split: option.split sum.split)

lemma bind_ret [simp]: "bind (ret a) k = k a"
  by (simp add: fun_eq_iff bind_apply ret_apply throw_apply)

lemma bind_throw [simp]: "bind (throw err) k = throw err"
  by (simp add: fun_eq_iff bind_apply ret_apply throw_apply)

lemma bind_assoc: "bind (bind m k) l = bind m (\<lambda>a. bind (k a) l)"
  by (auto simp: fun_eq_iff bind_apply split: option.split sum.split)

lemma for_each_append: "for_each f (xs @ ys) = bind (for_each f xs) (\<lambda>_. for_each f ys)"
  by (induction xs) (simp_all add: bind_assoc)

lemmas io_evals = ret_apply throw_apply bind_apply attempt_def wrap_err_apply ext_call_def time_Now_def sql_stmt_def
  sql_exec_def sql_query_def sql_transaction_def

text \<open>A successful run of \<open>bind\<close> is a successful run of both parts.\<close>

lemma bind_Inr_E:
  assumes "bind m k s = Some (Inr b, s')"
  obtains a t where "m s = Some (Inr a, t)" and "k a t = Some (Inr b, s')"
  using assms by (auto simp: bind_apply split: option.splits sum.splits prod.splits)

lemma bind_Inl_E:
  assumes "bind m k s = Some (Inl err, s')"
  obtains "m s = Some (Inl err, s')"
  | a t where "m s = Some (Inr a, t)" and "k a t = Some (Inl err, s')"
  using assms by (auto simp: bind_apply split: option.splits sum.splits prod.splits)

lemma bind_E:
  assumes "bind m k s = Some (r, s')"
  obtains (stop) err where "m s = Some (Inl err, s')" and "r = Inl err"
  | (go) a t where "m s = Some (Inr a, t)" and "k a t = Some (r, s')"
  using assms by (auto simp: bind_apply split: option.splits sum.splits prod.splits)

lemma attempt_E:
  assumes "attempt m k s = Some (r, s')"
  obtains q t where "m s = Some (q, t)" and "k q t = Some (r, s')"
  using assms by (auto simp: attempt_def split: option.splits prod.splits)

text \<open>The three ways a transaction ends.\<close>

lemma sql_transaction_E:
  assumes "sql_transaction x (wrap_err p) (wrap_err q) body s = Some (r, s')"
  obtains (committed) a t t' where "r = Inr a" "body t = Some (Inr a, t')" "db t = db s" "db s' = db t'"
  | (failed) err where "r = Inl err" "db s' = db s"
  | (lost) err a t t' where "r = Inl err" "body t = Some (Inr a, t')" "db t = db s" "db s' = db t'"
  using assms
  by (auto simp: io_evals split: option.splits sum.splits prod.splits sql_reply.splits)

lemma sql_transaction_plain_E:
  assumes "sql_transaction x (\<lambda>m. m) (\<lambda>m. m) body s = Some (r, s')"
  obtains (committed) a t t' where "r = Inr a" "body t = Some (Inr a, t')" "db t = db s" "db s' = db t'"
  | (failed) err where "r = Inl err" "db s' = db s"
  | (lost) err a t t' where "r = Inl err" "body t = Some (Inr a, t')" "db t = db s" "db s' = db t'"
  using assms
  by (auto simp: io_evals split: option.splits sum.splits prod.splits sql_reply.splits)

section \<open>Relations that computations respect\<close>

text \<open>
  \<open>io_rel R m\<close>: wherever \<open>m\<close> ends, with a value or an error, the state before and the
  state after are related. For a reflexive and transitive \<open>R\<close> (nothing of a table has
  changed, no row of another bucket has changed, an invariant that held still holds) the
  combinators respect \<open>R\<close> when their parts do, which is the interface below. A component
  interprets it with the relation it needs.
\<close>

definition io_rel :: "('e sys \<Rightarrow> 'e sys \<Rightarrow> bool) \<Rightarrow> ('e, 'a) io \<Rightarrow> bool" where
  "io_rel R m \<longleftrightarrow> (\<forall>s r s'. m s = Some (r, s') \<longrightarrow> R s s')"

lemma io_relI: "(\<And>s r s'. m s = Some (r, s') \<Longrightarrow> R s s') \<Longrightarrow> io_rel R m"
  by (simp add: io_rel_def)

lemma io_relD: "io_rel R m \<Longrightarrow> m s = Some (r, s') \<Longrightarrow> R s s'"
  by (auto simp: io_rel_def)

lemma io_rel_mono: "io_rel R m \<Longrightarrow> (\<And>s t. R s t \<Longrightarrow> R' s t) \<Longrightarrow> io_rel R' m"
  by (auto simp: io_rel_def)

text \<open>Totality: the computation ends from every state.\<close>

definition total :: "('e, 'a) io \<Rightarrow> bool" where
  "total m \<longleftrightarrow> (\<forall>s. m s \<noteq> None)"

lemma total_ret [io_rules]: "total (ret a)" and total_throw [io_rules]: "total (throw err)"
  by (simp_all add: total_def ret_apply throw_apply)

lemma total_attempt [io_rules]: "total m \<Longrightarrow> (\<And>r. total (k r)) \<Longrightarrow> total (attempt m k)"
  by (auto simp: total_def attempt_def split: option.split)

lemma total_bind [io_rules]: "total m \<Longrightarrow> (\<And>a. total (k a)) \<Longrightarrow> total (bind m k)"
  unfolding bind_def by (rule total_attempt) (auto simp: total_def ret_apply throw_apply split: sum.split)

lemma total_wrap_err [io_rules]: "total m \<Longrightarrow> total (wrap_err pre m)"
  unfolding wrap_err_def by (rule total_attempt) (auto simp: total_def ret_apply throw_apply split: sum.split)

lemma total_for_each [io_rules]: "(\<And>y. total (f y)) \<Longrightarrow> total (for_each f xs)"
  by (induction xs) (auto intro: total_ret total_bind)

lemma total_ext_call [io_rules]: "total (ext_call f)"
  by (auto simp: total_def ext_call_def split: prod.split sum.split)

lemma total_time_Now [io_rules]: "total (time_Now x)"
  by (auto simp: total_def time_Now_def split: prod.split)

lemma total_sql_stmt [io_rules]: "total (sql_stmt x f)"
  by (auto simp: total_def sql_stmt_def split: prod.split sql_reply.split)

lemma total_sql_exec [io_rules]: "total (sql_exec x f)"
  by (simp add: sql_exec_def total_sql_stmt)

lemma total_sql_query [io_rules]: "total (sql_query x f)"
  by (simp add: sql_query_def total_sql_stmt)

locale io_preorder =
  fixes R :: "'e sys \<Rightarrow> 'e sys \<Rightarrow> bool"
  assumes R_refl: "R s s"
    and R_trans: "R s t \<Longrightarrow> R t u \<Longrightarrow> R s u"
begin

lemma respects_ret: "io_rel R (ret a)"
  by (auto simp: io_rel_def ret_apply throw_apply R_refl)

lemma respects_throw: "io_rel R (throw err)"
  by (auto simp: io_rel_def ret_apply throw_apply R_refl)

lemma respects_attempt:
  "io_rel R m \<Longrightarrow> (\<And>r. io_rel R (k r)) \<Longrightarrow> io_rel R (attempt m k)"
  unfolding io_rel_def attempt_def by (fastforce split: option.splits prod.splits intro: R_trans)

lemma respects_bind:
  "io_rel R m \<Longrightarrow> (\<And>a. io_rel R (k a)) \<Longrightarrow> io_rel R (bind m k)"
  unfolding bind_def
  by (rule respects_attempt) (auto simp: respects_throw split: sum.split)

lemma respects_wrap_err: "io_rel R m \<Longrightarrow> io_rel R (wrap_err pre m)"
  unfolding wrap_err_def
  by (rule respects_attempt) (auto simp: respects_throw respects_ret split: sum.split)

lemma respects_for_each: "(\<And>y. y \<in> set xs \<Longrightarrow> io_rel R (f y)) \<Longrightarrow> io_rel R (for_each f xs)"
  by (induction xs) (auto intro!: respects_ret respects_bind)

lemma respects_if: "(b \<Longrightarrow> io_rel R m) \<Longrightarrow> (\<not> b \<Longrightarrow> io_rel R n) \<Longrightarrow> io_rel R (if b then m else n)"
  by simp

lemmas respects_rules = respects_ret respects_throw respects_bind respects_attempt
  respects_wrap_err respects_for_each

end

end
