(* ===== verification/Storage.thy ===== *)
theory Storage
  imports World
begin

text \<open>
  \<^verbatim>\<open>internal/storage\<close>: the S3 client. The SDK's operations are parameters (\<open>'e ext\<close>); what the
  program adds to them is modelled: the configuration and its defaults, the mapping of error
  values to \<open>ErrNotFound\<close>, the optional fields of the replies, and the listing page.
\<close>

section \<open>Configuration\<close>

record Config =
  Endpoint :: string
  AccessKey :: string
  SecretKey :: string
  Region :: string
  UploadTTL :: duration
  DownloadTTL :: duration
  DownloadCDNURL :: string
  PreviewCDNURL :: string

definition Ready :: "Config \<Rightarrow> bool" where
  "Ready c \<longleftrightarrow> Endpoint c \<noteq> [] \<and> AccessKey c \<noteq> [] \<and> SecretKey c \<noteq> []"

record Client =
  c_s3 :: sdk_config
  uploadTTL :: duration
  downloadTTL :: duration
  downloadCDNURL :: string
  previewCDNURL :: string

definition storage_New :: "Config \<Rightarrow> Client" where
  "storage_New cfg =
     (let region = (if Region cfg = [] then ''us-east-1'' else Region cfg);
          up = (if UploadTTL cfg \<le> 0 then 30 * Minute else UploadTTL cfg);
          down = (if DownloadTTL cfg \<le> 0 then 10 * Minute else DownloadTTL cfg)
      in \<lparr>c_s3 = \<lparr>sdk_endpoint = TrimRightChar (Endpoint cfg) (CHR ''/''), sdk_region = region,
                   sdk_access_key = AccessKey cfg, sdk_secret_key = SecretKey cfg\<rparr>,
          uploadTTL = up, downloadTTL = down,
          downloadCDNURL = DownloadCDNURL cfg, previewCDNURL = PreviewCDNURL cfg\<rparr>)"

section \<open>Errors\<close>

definition apiCode :: "go_error \<Rightarrow> string" where
  "apiCode err = (case unwrap_all err of ErrExt (AwsError ty code msg) \<Rightarrow> code | _ \<Rightarrow> [])"

definition isNotFound :: "go_error \<Rightarrow> bool" where
  "isNotFound err =
     (if (case unwrap_all err of
            ErrExt (AwsError ty code msg) \<Rightarrow> ty = NoSuchKey \<or> ty = NoSuchBucket \<or> ty = NotFound
          | _ \<Rightarrow> False)
      then True
      else let code = apiCode err in
        code = ''NotFound'' \<or> code = ''NoSuchKey'' \<or> code = ''NoSuchBucket'' \<or> code = ''404'')"

definition stripETag :: "string option \<Rightarrow> string option" where
  "stripETag etag = (case etag of None \<Rightarrow> None | Some s \<Rightarrow> Some (TrimChar s (CHR 0x22)))"

section \<open>Object operations\<close>

record ObjectMeta =
  m_Size :: int
  m_ETag :: "string option"
  m_ContentType :: "string option"

definition HeadObject :: "'e ext \<Rightarrow> Client \<Rightarrow> string \<Rightarrow> string \<Rightarrow> ('e, ObjectMeta) io" where
  "HeadObject x c bucket key =
     attempt (ext_call (\<lambda>e. s3_HeadObject x (c_s3 c) e bucket key)) (\<lambda>r. case r of
       Inl err \<Rightarrow> (if isNotFound err then throw ErrNotFound else throw err)
     | Inr out \<Rightarrow> ret \<lparr>m_Size = (case ho_content_length out of None \<Rightarrow> 0 | Some n \<Rightarrow> n),
         m_ETag = stripETag (ho_etag out), m_ContentType = ho_content_type out\<rparr>)"

definition CopyObject :: "'e ext \<Rightarrow> Client \<Rightarrow> string \<Rightarrow> string \<Rightarrow> string \<Rightarrow> string \<Rightarrow>
    ('e, string option) io" where
  "CopyObject x c destBucket destKey srcBucket srcKey =
     bind (ext_call (\<lambda>e. s3_CopyObject x (c_s3 c) e destBucket destKey (srcBucket @ ''/'' @ srcKey)))
       (\<lambda>out. case out of None \<Rightarrow> ret None | Some etag \<Rightarrow> ret (stripETag etag))"

definition DeleteObject :: "'e ext \<Rightarrow> Client \<Rightarrow> string \<Rightarrow> string \<Rightarrow> ('e, unit) io" where
  "DeleteObject x c bucket key = ext_call (\<lambda>e. s3_DeleteObject x (c_s3 c) e bucket key)"

definition AbortMultipart :: "'e ext \<Rightarrow> Client \<Rightarrow> string \<Rightarrow> string \<Rightarrow> string \<Rightarrow> ('e, unit) io" where
  "AbortMultipart x c bucket key uploadID =
     ext_call (\<lambda>e. s3_AbortMultipartUpload x (c_s3 c) e bucket key uploadID)"

section \<open>Listing\<close>

record ListedObject =
  l_Key :: string
  l_Size :: int
  l_ETag :: "string option"
  l_StorageClass :: "string option"

record ListPage =
  Objects :: "ListedObject list"
  Truncated :: bool
  Token :: string

definition listed :: "s3_object \<Rightarrow> ListedObject" where
  "listed obj = \<lparr>l_Key = (case so_key obj of None \<Rightarrow> [] | Some k \<Rightarrow> k),
     l_Size = (case so_size obj of None \<Rightarrow> 0 | Some n \<Rightarrow> n),
     l_ETag = stripETag (so_etag obj),
     l_StorageClass = (if so_storage_class obj \<noteq> [] then Some (so_storage_class obj) else None)\<rparr>"

definition page_of :: "list_output \<Rightarrow> ListPage" where
  "page_of out = \<lparr>Objects = map listed (lo_contents out),
     Truncated = (lo_is_truncated out = Some True),
     Token = (case lo_next_token out of None \<Rightarrow> [] | Some t \<Rightarrow> t)\<rparr>"

definition list_page :: "'e ext \<Rightarrow> Client \<Rightarrow> string \<Rightarrow> string \<Rightarrow> string \<Rightarrow> int \<Rightarrow> ('e, ListPage) io" where
  "list_page x c bucket pfx token maxKeys =
     (let maxKeys = (if maxKeys < 1 then 1000 else maxKeys) in
      bind (ext_call (\<lambda>e. s3_ListObjectsV2 x (c_s3 c) e bucket
               (if pfx \<noteq> [] then Some pfx else None)
               (if token \<noteq> [] then Some token else None) maxKeys))
        (\<lambda>out. ret (page_of out)))"

definition ListPrefixFlat :: "'e ext \<Rightarrow> Client \<Rightarrow> string \<Rightarrow> string \<Rightarrow> string \<Rightarrow> int \<Rightarrow> ('e, ListPage) io" where
  "ListPrefixFlat x c bucket pfx token maxKeys = list_page x c bucket pfx token maxKeys"

definition ListObjects :: "'e ext \<Rightarrow> Client \<Rightarrow> string \<Rightarrow> string \<Rightarrow> int \<Rightarrow> ('e, ListPage) io" where
  "ListObjects x c bucket token maxKeys = list_page x c bucket [] token maxKeys"

section \<open>Facts\<close>

lemma isNotFound_wrap [simp]: "isNotFound (ErrWrap pre err) = isNotFound err"
  by (simp add: isNotFound_def apiCode_def)

lemma apiCode_wrap [simp]: "apiCode (ErrWrap pre err) = apiCode err"
  by (simp add: apiCode_def)

lemma storage_total [io_rules]:
  "total (HeadObject x c b k)" "total (CopyObject x c b k b' k')" "total (DeleteObject x c b k)"
  "total (AbortMultipart x c b k u)" "total (list_page x c b p t n)"
  "total (ListPrefixFlat x c b p t n)" "total (ListObjects x c b t n)"
  unfolding HeadObject_def CopyObject_def DeleteObject_def AbortMultipart_def ListPrefixFlat_def
    ListObjects_def list_page_def Let_def
  by (auto intro!: io_rules split: sum.split option.split)

text \<open>No storage call touches the database.\<close>

definition same_db :: "'e sys \<Rightarrow> 'e sys \<Rightarrow> bool" where
  "same_db s t \<longleftrightarrow> db t = db s"

interpretation samedb: io_preorder same_db
  by unfold_locales (simp_all add: same_db_def)

lemma ext_call_same_db: "io_rel same_db (ext_call f)"
  by (auto simp: io_rel_def ext_call_def same_db_def split: prod.splits sum.splits)

lemma time_Now_same_db: "io_rel same_db (time_Now x)"
  by (auto simp: io_rel_def time_Now_def same_db_def split: prod.splits)

lemma sql_query_same_db: "io_rel same_db (sql_query x f)"
  by (auto simp: io_rel_def sql_query_def sql_stmt_def same_db_def split: prod.splits sql_reply.splits)

lemma storage_same_db:
  "io_rel same_db (HeadObject x c b k)" "io_rel same_db (CopyObject x c b k b' k')"
  "io_rel same_db (DeleteObject x c b k)" "io_rel same_db (AbortMultipart x c b k u)"
  "io_rel same_db (ListPrefixFlat x c b p t n)" "io_rel same_db (ListObjects x c b t n)"
  unfolding HeadObject_def CopyObject_def DeleteObject_def AbortMultipart_def ListPrefixFlat_def
    ListObjects_def list_page_def Let_def
  by (auto intro!: samedb.respects_rules ext_call_same_db split: sum.split option.split)

end
