(* ===== verification/ObjectKey.thy ===== *)
theory ObjectKey
  imports GoError
begin

text \<open>
  \<^verbatim>\<open>internal/objects/key.go\<close>: which object keys a user may name, the key an object has in the
  trash, and directory keys.
\<close>

definition TrashPrefix :: string where "TrashPrefix = ''.trash/''"
definition VersionPrefix :: string where "VersionPrefix = ''.versions/''"

definition ValidUserKey :: "string \<Rightarrow> bool" where
  "ValidUserKey key =
     (if key = [] \<or> key = ''.trash'' \<or> key = ''.versions'' then False
      else \<not> HasPrefix key TrashPrefix \<and> \<not> HasPrefix key VersionPrefix)"

definition ToTrashKey :: "string \<Rightarrow> string" where
  "ToTrashKey key = TrashPrefix @ key"

text \<open>\<open>None\<close> is the result \<^verbatim>\<open>"", false\<close>.\<close>

definition FromTrashKey :: "string \<Rightarrow> string option" where
  "FromTrashKey key =
     (if \<not> HasPrefix key TrashPrefix then None
      else let orig = drop (length TrashPrefix) key
           in if orig = [] then None else Some orig)"

definition IsDirectoryKey :: "string \<Rightarrow> bool" where
  "IsDirectoryKey key \<longleftrightarrow> HasSuffix key ''/'' \<and> TrimChar key (CHR ''/'') \<noteq> []"

fun uniqueOriginalKeys_loop :: "string set \<Rightarrow> string list \<Rightarrow> string list \<Rightarrow> go_error + string list" where
  "uniqueOriginalKeys_loop seen out [] = Inr out"
| "uniqueOriginalKeys_loop seen out (key # keys) =
     (if key = [] then Inl ErrInvalidKey
      else if HasPrefix key TrashPrefix then Inl ErrTrashPath
      else if key \<in> seen then uniqueOriginalKeys_loop seen out keys
      else uniqueOriginalKeys_loop (insert key seen) (out @ [key]) keys)"

definition uniqueOriginalKeys :: "string list \<Rightarrow> go_error + string list" where
  "uniqueOriginalKeys keys = uniqueOriginalKeys_loop {} [] keys"

section \<open>Facts\<close>

lemmas key_defs [go_defs] = TrashPrefix_def VersionPrefix_def HasPrefix_def HasSuffix_def

lemma FromTrashKey_ToTrashKey: "FromTrashKey (ToTrashKey key) = (if key = [] then None else Some key)"
  by (simp add: FromTrashKey_def ToTrashKey_def HasPrefix_def)

lemma ToTrashKey_FromTrashKey: "FromTrashKey key = Some orig \<Longrightarrow> ToTrashKey orig = key \<and> orig \<noteq> []"
  by (auto simp: FromTrashKey_def ToTrashKey_def HasPrefix_def prefix_def Let_def split: if_splits)

lemma ToTrashKey_inject [simp]: "ToTrashKey a = ToTrashKey b \<longleftrightarrow> a = b"
  by (simp add: ToTrashKey_def)

lemma ToTrashKey_neq [simp]: "ToTrashKey a \<noteq> a" "a \<noteq> ToTrashKey a"
  by (simp_all add: ToTrashKey_def TrashPrefix_def)

lemma ToTrashKey_invalid: "\<not> ValidUserKey (ToTrashKey key)"
  by (simp add: ValidUserKey_def ToTrashKey_def HasPrefix_def)

text \<open>A key below a valid directory key is itself valid: listing a user directory never
  reaches the trash or the versions.\<close>

lemma child_of_directory:
  assumes "ValidUserKey dir" and "HasSuffix dir ''/''" and "prefix dir key"
  shows "ValidUserKey key"
proof -
  obtain d where d: "dir = d @ ''/''"
    using assms(2) by (auto simp: HasSuffix_def suffix_def)
  obtain r where r: "key = d @ CHR ''/'' # r"
    using assms(3) d by (auto simp: prefix_def)
  have nt: "\<not> prefix TrashPrefix dir" and nv: "\<not> prefix VersionPrefix dir"
    using assms(1) by (auto simp: ValidUserKey_def HasPrefix_def split: if_splits)
  have slash: "prefix (p @ ''/'') (d @ CHR ''/'' # r) \<Longrightarrow> CHR ''/'' \<notin> set p \<Longrightarrow> prefix (p @ ''/'') (d @ ''/'')" for p
  proof -
    assume a: "prefix (p @ ''/'') (d @ CHR ''/'' # r)" "CHR ''/'' \<notin> set p"
    show "prefix (p @ ''/'') (d @ ''/'')"
    proof (cases "length p \<le> length d")
      case True
      have "length (p @ ''/'') \<le> length (d @ ''/'')" using True by simp
      moreover have "prefix (d @ ''/'') (d @ CHR ''/'' # r)" by (simp add: prefix_def)
      ultimately show ?thesis using a(1) prefix_length_prefix by blast
    next
      case False
      then have "CHR ''/'' = p ! length d"
        using a(1) by (auto simp: prefix_def nth_append dest!: arg_cong [where f = "\<lambda>xs. xs ! length d"])
      then show ?thesis using a(2) False by (metis not_le nth_mem)
    qed
  qed
  have "\<not> prefix TrashPrefix key" "\<not> prefix VersionPrefix key"
    using nt nv d r slash [of "''.trash''"] slash [of "''.versions''"]
    by (auto simp: TrashPrefix_def VersionPrefix_def)
  moreover have "CHR ''/'' \<in> set key" using r by simp
  then have "key \<noteq> ''.trash''" "key \<noteq> ''.versions''" "key \<noteq> []" by auto
  ultimately show ?thesis by (simp add: ValidUserKey_def HasPrefix_def)
qed

lemma uniqueOriginalKeys_loop_eq:
  "uniqueOriginalKeys_loop seen out keys =
     (case find (\<lambda>k. k = [] \<or> HasPrefix k TrashPrefix) keys of
        None \<Rightarrow> Inr (out @ dedup seen keys)
      | Some k \<Rightarrow> Inl (if k = [] then ErrInvalidKey else ErrTrashPath))"
  by (induction seen out keys rule: uniqueOriginalKeys_loop.induct) (auto split: option.split)

text \<open>Either the first bad key decides the error, or the keys come back without duplicates.\<close>

lemma uniqueOriginalKeys_eq:
  "uniqueOriginalKeys keys =
     (case find (\<lambda>k. k = [] \<or> HasPrefix k TrashPrefix) keys of
        None \<Rightarrow> Inr (dedup {} keys)
      | Some k \<Rightarrow> Inl (if k = [] then ErrInvalidKey else ErrTrashPath))"
  by (simp add: uniqueOriginalKeys_def uniqueOriginalKeys_loop_eq split: option.split)

text \<open>
  The trash name of a key can always be taken back, no other key is taken for a trash
  name, and a trash name is never a key that a user may pass.
\<close>

theorem trash_key_roundtrip:
  "(FromTrashKey key = Some orig \<longleftrightarrow> key = ToTrashKey orig \<and> orig \<noteq> []) \<and> \<not> ValidUserKey (ToTrashKey orig)"
  using ToTrashKey_FromTrashKey FromTrashKey_ToTrashKey ToTrashKey_invalid by metis

end
