(* ===== verification/ObjectList.thy ===== *)
theory ObjectList
  imports ObjectKey TenantDB
begin

text \<open>
  \<^verbatim>\<open>internal/objects/list.go\<close>: folding the database rows below a prefix into the items and
  common prefixes of one listing page, and the escaping of a prefix for \<^verbatim>\<open>LIKE\<close>.
\<close>

definition defaultMaxKeys :: int where "defaultMaxKeys = 100"
definition maxListKeys :: int where "maxListKeys = 1000"
definition maxOpKeys :: int where "maxOpKeys = 1000"
definition scanCap :: int where "scanCap = 2000"

record object_record =
  r_Key :: string
  r_Size :: int
  r_ContentType :: "string option"
  r_ETag :: "string option"
  r_StorageClass :: "string option"
  r_UploadedBy :: "int option"
  r_LastModified :: "string option"
  r_CreatedAt :: "string option"
  r_UpdatedAt :: "string option"
  r_Username :: "string option"

text \<open>The variables of the loop of \<^verbatim>\<open>foldList\<close>.\<close>

record fold_state =
  f_items :: "object_record list"
  f_prefixes :: "string list"
  f_lastPrefix :: string
  f_tokenKey :: string
  f_n :: int
  f_truncated :: bool

fun foldList_loop :: "string \<Rightarrow> int \<Rightarrow> object_record list \<Rightarrow> fold_state \<Rightarrow> fold_state" where
  "foldList_loop pfx maxKeys [] st = st"
| "foldList_loop pfx maxKeys (r # recs) st =
     (if HasPrefix (r_Key r) TrashPrefix \<or> HasPrefix (r_Key r) VersionPrefix
      then foldList_loop pfx maxKeys recs (st\<lparr>f_tokenKey := r_Key r\<rparr>)
      else if pfx \<noteq> [] \<and> \<not> HasPrefix (r_Key r) pfx
      then foldList_loop pfx maxKeys recs (st\<lparr>f_tokenKey := r_Key r\<rparr>)
      else let rest = drop (length pfx) (r_Key r); i = IndexByte rest (CHR ''/'') in
        if rest = []
        then foldList_loop pfx maxKeys recs (st\<lparr>f_tokenKey := r_Key r\<rparr>)
        else if i \<ge> 0
        then (let p = pfx @ take (nat i + 1) rest in
          if p = f_lastPrefix st
          then foldList_loop pfx maxKeys recs (st\<lparr>f_tokenKey := r_Key r\<rparr>)
          else if f_n st \<ge> maxKeys then st\<lparr>f_truncated := True\<rparr>
          else foldList_loop pfx maxKeys recs
            (st\<lparr>f_prefixes := f_prefixes st @ [p], f_lastPrefix := p, f_n := f_n st + 1,
                f_tokenKey := r_Key r\<rparr>))
        else (let st = st\<lparr>f_lastPrefix := []\<rparr> in
          if f_n st \<ge> maxKeys then st\<lparr>f_truncated := True\<rparr>
          else foldList_loop pfx maxKeys recs
            (st\<lparr>f_items := f_items st @ [r], f_n := f_n st + 1, f_tokenKey := r_Key r\<rparr>)))"

definition foldList :: "string \<Rightarrow> int \<Rightarrow> object_record list \<Rightarrow> bool \<Rightarrow>
    object_record list \<times> string list \<times> string option \<times> bool" where
  "foldList pfx maxKeys recs moreInDB =
     (let maxKeys = (if maxKeys < 1 then 1 else maxKeys);
          st = foldList_loop pfx maxKeys recs
            \<lparr>f_items = [], f_prefixes = [], f_lastPrefix = [], f_tokenKey = [], f_n = 0, f_truncated = False\<rparr>;
          truncated = (if \<not> f_truncated st \<and> moreInDB then True else f_truncated st);
          token = (if truncated \<and> f_tokenKey st \<noteq> [] then Some (f_tokenKey st) else None)
      in (f_items st, f_prefixes st, token, truncated))"

definition like_escape :: "char \<Rightarrow> string" where
  "like_escape c =
     (if c = CHR 0x5C then [CHR 0x5C, CHR 0x5C]
      else if c = CHR ''%'' then [CHR 0x5C, CHR ''%'']
      else if c = CHR ''_'' then [CHR 0x5C, CHR ''_'']
      else [c])"

definition likePrefix :: "string \<Rightarrow> string" where
  "likePrefix pfx = concat (map like_escape pfx) @ ''%''"

section \<open>The escaped prefix matches exactly the keys with the prefix\<close>

lemma sql_like_escape:
  "sql_like (like_escape c @ ps) s = (case s of [] \<Rightarrow> False | d # s' \<Rightarrow> d = c \<and> sql_like ps s')"
  by (simp add: like_escape_def sql_like.simps(2) split: list.split)

lemma sql_like_likePrefix: "sql_like (likePrefix pfx) key \<longleftrightarrow> prefix pfx key"
proof (induction pfx arbitrary: key)
  case Nil
  then show ?case by (simp add: likePrefix_def sql_like_percent)
next
  case (Cons c pfx)
  have "likePrefix (c # pfx) = like_escape c @ likePrefix pfx"
    by (simp add: likePrefix_def)
  then show ?case using Cons by (cases key) (auto simp: sql_like_escape)
qed

section \<open>What a record contributes to a listing\<close>

text \<open>
  The reference reading of a record below a prefix: nothing (it is hidden, outside the
  prefix, or the prefix itself), an item, or a common prefix.
\<close>

datatype contribution = Hidden | Item object_record | Common string

definition contribution :: "string \<Rightarrow> object_record \<Rightarrow> contribution" where
  "contribution pfx r =
     (if prefix TrashPrefix (r_Key r) \<or> prefix VersionPrefix (r_Key r) \<or> \<not> prefix pfx (r_Key r) \<or> r_Key r = pfx
      then Hidden
      else let rest = drop (length pfx) (r_Key r) in
        if CHR ''/'' \<in> set rest
        then Common (pfx @ takeWhile (\<lambda>c. c \<noteq> CHR ''/'') rest @ ''/'')
        else Item r)"

fun items_of :: "contribution list \<Rightarrow> object_record list" where
  "items_of [] = []"
| "items_of (Item r # cs) = r # items_of cs"
| "items_of (c # cs) = items_of cs"

fun commons_of :: "string \<Rightarrow> contribution list \<Rightarrow> string list" where
  "commons_of lp [] = []"
| "commons_of lp (Hidden # cs) = commons_of lp cs"
| "commons_of lp (Item r # cs) = commons_of [] cs"
| "commons_of lp (Common p # cs) = (if p = lp then commons_of lp cs else p # commons_of p cs)"

text \<open>One step of the loop, read through \<open>contribution\<close>.\<close>

lemma foldList_loop_step:
  "foldList_loop pfx maxKeys (r # recs) st =
     (case contribution pfx r of
        Hidden \<Rightarrow> foldList_loop pfx maxKeys recs (st\<lparr>f_tokenKey := r_Key r\<rparr>)
      | Common p \<Rightarrow>
          if p = f_lastPrefix st then foldList_loop pfx maxKeys recs (st\<lparr>f_tokenKey := r_Key r\<rparr>)
          else if f_n st \<ge> maxKeys then st\<lparr>f_truncated := True\<rparr>
          else foldList_loop pfx maxKeys recs
            (st\<lparr>f_prefixes := f_prefixes st @ [p], f_lastPrefix := p, f_n := f_n st + 1,
                f_tokenKey := r_Key r\<rparr>)
      | Item r' \<Rightarrow>
          if f_n st \<ge> maxKeys then st\<lparr>f_lastPrefix := [], f_truncated := True\<rparr>
          else foldList_loop pfx maxKeys recs
            (st\<lparr>f_lastPrefix := [], f_items := f_items st @ [r], f_n := f_n st + 1, f_tokenKey := r_Key r\<rparr>))"
proof -
  let ?k = "r_Key r" and ?rest = "drop (length pfx) (r_Key r)"
  consider (hidden) "prefix TrashPrefix ?k \<or> prefix VersionPrefix ?k"
    | (outside) "\<not> (prefix TrashPrefix ?k \<or> prefix VersionPrefix ?k)" "\<not> prefix pfx ?k"
    | (self) "\<not> (prefix TrashPrefix ?k \<or> prefix VersionPrefix ?k)" "prefix pfx ?k" "?rest = []"
    | (common) "\<not> (prefix TrashPrefix ?k \<or> prefix VersionPrefix ?k)" "prefix pfx ?k" "?rest \<noteq> []"
        "CHR ''/'' \<in> set ?rest"
    | (item) "\<not> (prefix TrashPrefix ?k \<or> prefix VersionPrefix ?k)" "prefix pfx ?k" "?rest \<noteq> []"
        "CHR ''/'' \<notin> set ?rest"
    by blast
  then show ?thesis
  proof cases
    case hidden
    then have "contribution pfx r = Hidden" by (auto simp: contribution_def)
    with hidden show ?thesis by (simp only: foldList_loop.simps HasPrefix_def if_True contribution.case)
  next
    case outside
    then have "contribution pfx r = Hidden" "pfx \<noteq> []" by (auto simp: contribution_def)
    with outside show ?thesis by (simp add: HasPrefix_def)
  next
    case self
    then have "?k = pfx" by (auto simp: prefix_def)
    then have "contribution pfx r = Hidden" by (simp add: contribution_def)
    with self show ?thesis by (simp add: HasPrefix_def)
  next
    case common
    then have "?k \<noteq> pfx" by auto
    with common have c: "contribution pfx r = Common (pfx @ takeWhile (\<lambda>c. c \<noteq> CHR ''/'') ?rest @ ''/'')"
      by (simp add: contribution_def Let_def)
    have "pfx @ take (nat (IndexByte ?rest (CHR ''/'')) + 1) ?rest = pfx @ takeWhile (\<lambda>c. c \<noteq> CHR ''/'') ?rest @ ''/''"
      using take_IndexByte [OF common(4)] by simp
    with common show ?thesis by (simp add: c HasPrefix_def Let_def)
  next
    case item
    then have "?k \<noteq> pfx" by auto
    with item have "contribution pfx r = Item r" by (simp add: contribution_def Let_def)
    with item show ?thesis by (simp add: HasPrefix_def Let_def)
  qed
qed

declare foldList_loop.simps(2) [simp del]

lemma contribution_Item: "contribution pfx r = Item r' \<Longrightarrow> r' = r \<and> prefix pfx (r_Key r) \<and> r_Key r \<noteq> pfx
    \<and> CHR ''/'' \<notin> set (drop (length pfx) (r_Key r)) \<and> \<not> prefix TrashPrefix (r_Key r) \<and> \<not> prefix VersionPrefix (r_Key r)"
  by (auto simp: contribution_def Let_def split: if_splits)

lemma contribution_Common:
  assumes "contribution pfx r = Common p"
  shows "p \<noteq> [] \<and> prefix p (r_Key r) \<and> (\<exists>d. p = pfx @ d @ ''/'' \<and> CHR ''/'' \<notin> set d)"
proof -
  let ?rest = "drop (length pfx) (r_Key r)"
  have s: "CHR ''/'' \<in> set ?rest" and p: "p = pfx @ takeWhile (\<lambda>c. c \<noteq> CHR ''/'') ?rest @ ''/''"
    and pre: "prefix pfx (r_Key r)"
    using assms by (auto simp: contribution_def Let_def split: if_splits)
  have "prefix (takeWhile (\<lambda>c. c \<noteq> CHR ''/'') ?rest @ ''/'') ?rest"
    using take_IndexByte [OF s] by (metis take_is_prefix)
  then have "prefix p (pfx @ ?rest)" using p by simp
  moreover have "pfx @ ?rest = r_Key r" using pre by (auto simp: prefix_def)
  ultimately show ?thesis using p by (auto dest: set_takeWhileD)
qed

section \<open>The loop against the reference reading\<close>

text \<open>The common prefix in force after some contributions.\<close>

fun last_common :: "string \<Rightarrow> contribution list \<Rightarrow> string" where
  "last_common lp [] = lp"
| "last_common lp (Hidden # cs) = last_common lp cs"
| "last_common lp (Item r # cs) = last_common [] cs"
| "last_common lp (Common p # cs) = last_common p cs"

lemma items_of_append: "items_of (cs @ ds) = items_of cs @ items_of ds"
  by (induction cs rule: items_of.induct) auto

lemma commons_of_append: "commons_of lp (cs @ ds) = commons_of lp cs @ commons_of (last_common lp cs) ds"
  by (induction lp cs rule: commons_of.induct) auto

definition page_size :: "fold_state \<Rightarrow> int" where
  "page_size st = int (length (f_items st)) + int (length (f_prefixes st))"

text \<open>
  \<open>page_split lp pfx maxKeys st recs d rest st'\<close>: from \<open>st\<close> the loop consumes \<open>d\<close> and stops in
  \<open>st'\<close>, at a record that would start a new result on a full page when \<open>rest\<close> is not empty.
\<close>

definition page_split :: "string \<Rightarrow> int \<Rightarrow> fold_state \<Rightarrow> object_record list \<Rightarrow> object_record list \<Rightarrow> fold_state \<Rightarrow> bool" where
  "page_split pfx maxKeys st d rest st' \<longleftrightarrow>
     (let cs = map (contribution pfx) d; lp = f_lastPrefix st in
      f_items st' = f_items st @ items_of cs \<and>
      f_prefixes st' = f_prefixes st @ commons_of lp cs \<and>
      f_tokenKey st' = (if d = [] then f_tokenKey st else r_Key (last d)) \<and>
      (f_truncated st' \<longleftrightarrow> rest \<noteq> []) \<and> page_size st' \<le> maxKeys \<and>
      (rest \<noteq> [] \<longrightarrow> page_size st' = maxKeys \<and>
        commons_of (last_common lp cs) (map (contribution pfx) rest) = commons_of [] (map (contribution pfx) rest)))"

text \<open>One turn of the loop: the row is taken up, or the page is full.\<close>

definition takes_up :: "string \<Rightarrow> int \<Rightarrow> fold_state \<Rightarrow> object_record \<Rightarrow> fold_state \<Rightarrow> bool" where
  "takes_up pfx maxKeys st r st1 \<longleftrightarrow> \<not> f_truncated st1 \<and> f_n st1 = page_size st1 \<and> page_size st1 \<le> maxKeys \<and>
     f_tokenKey st1 = r_Key r \<and> f_items st1 = f_items st @ items_of [contribution pfx r] \<and>
     f_prefixes st1 = f_prefixes st @ commons_of (f_lastPrefix st) [contribution pfx r] \<and>
     f_lastPrefix st1 = last_common (f_lastPrefix st) [contribution pfx r]"

definition full_at :: "string \<Rightarrow> int \<Rightarrow> fold_state \<Rightarrow> object_record list \<Rightarrow> fold_state \<Rightarrow> bool" where
  "full_at pfx maxKeys st recs st1 \<longleftrightarrow> f_truncated st1 \<and> page_size st1 = maxKeys \<and>
     f_items st1 = f_items st \<and> f_prefixes st1 = f_prefixes st \<and> f_tokenKey st1 = f_tokenKey st \<and>
     commons_of (f_lastPrefix st) (map (contribution pfx) recs) = commons_of [] (map (contribution pfx) recs)"

lemma foldList_turn:
  assumes "\<not> f_truncated st" and "f_n st = page_size st" and "page_size st \<le> maxKeys"
  obtains (up) st1 where "foldList_loop pfx maxKeys (r # recs) st = foldList_loop pfx maxKeys recs st1" "takes_up pfx maxKeys st r st1"
  | (full) st1 where "foldList_loop pfx maxKeys (r # recs) st = st1" "full_at pfx maxKeys st (r # recs) st1"
proof (cases "contribution pfx r")
  case Hidden
  show ?thesis
    by (rule up [of "st\<lparr>f_tokenKey := r_Key r\<rparr>"]) (use Hidden assms in \<open>auto simp: foldList_loop_step page_size_def takes_up_def\<close>)
next
  case (Item r')
  then have "r' = r" by (simp add: contribution_Item)
  show ?thesis
  proof (cases "f_n st \<ge> maxKeys")
    case True
    show ?thesis
      by (rule full [of "st\<lparr>f_lastPrefix := [], f_truncated := True\<rparr>"])
        (use Item True assms in \<open>auto simp: foldList_loop_step page_size_def full_at_def\<close>)
  next
    case False
    show ?thesis
      by (rule up [of "st\<lparr>f_lastPrefix := [], f_items := f_items st @ [r], f_n := f_n st + 1, f_tokenKey := r_Key r\<rparr>"])
        (use Item \<open>r' = r\<close> False assms in \<open>auto simp: foldList_loop_step page_size_def takes_up_def\<close>)
  qed
next
  case (Common p)
  consider (same) "p = f_lastPrefix st" | (stop) "p \<noteq> f_lastPrefix st" "f_n st \<ge> maxKeys" | (new) "p \<noteq> f_lastPrefix st" "f_n st < maxKeys"
    by linarith
  then show ?thesis
  proof cases
    case same
    show ?thesis
      by (rule up [of "st\<lparr>f_tokenKey := r_Key r\<rparr>"]) (use Common same assms in \<open>auto simp: foldList_loop_step page_size_def takes_up_def\<close>)
  next
    case stop
    have "p \<noteq> []" using contribution_Common [OF Common] by simp
    show ?thesis
      by (rule full [of "st\<lparr>f_truncated := True\<rparr>"])
        (use Common stop \<open>p \<noteq> []\<close> assms in \<open>auto simp: foldList_loop_step page_size_def full_at_def\<close>)
  next
    case new
    show ?thesis
      by (rule up [of "st\<lparr>f_prefixes := f_prefixes st @ [p], f_lastPrefix := p, f_n := f_n st + 1, f_tokenKey := r_Key r\<rparr>"])
        (use Common new assms in \<open>auto simp: foldList_loop_step page_size_def takes_up_def\<close>)
  qed
qed

lemma foldList_loop_split:
  assumes "\<not> f_truncated st" and "f_n st = page_size st" and "page_size st \<le> maxKeys"
  shows "\<exists>d rest. recs = d @ rest \<and> page_split pfx maxKeys st d rest (foldList_loop pfx maxKeys recs st)"
  using assms
proof (induction recs arbitrary: st)
  case Nil
  then have "page_split pfx maxKeys st [] [] st" by (simp add: page_split_def)
  then show ?case by simp
next
  case (Cons r recs)
  from Cons.prems show ?case
  proof (cases rule: foldList_turn [where pfx = pfx and r = r and recs = recs])
    case (up st1)
    then have inv: "\<not> f_truncated st1" "f_n st1 = page_size st1" "page_size st1 \<le> maxKeys" by (simp_all add: takes_up_def)
    obtain d rest where dr: "recs = d @ rest" "page_split pfx maxKeys st1 d rest (foldList_loop pfx maxKeys recs st1)"
      using Cons.IH [OF inv] by blast
    have "page_split pfx maxKeys st (r # d) rest (foldList_loop pfx maxKeys recs st1)"
      using dr(2) up(2) by (cases "contribution pfx r") (auto simp: page_split_def takes_up_def Let_def)
    with dr(1) up(1) show ?thesis by (metis append_Cons)
  next
    case (full st1)
    then show ?thesis by (intro exI [of _ "[]"] exI [of _ "r # recs"]) (simp add: page_split_def full_at_def)
  qed
qed

text \<open>The listing a client expects: all items and all common prefixes below the prefix.\<close>

definition listing_items :: "string \<Rightarrow> object_record list \<Rightarrow> object_record list" where
  "listing_items pfx recs = items_of (map (contribution pfx) recs)"

definition listing_prefixes :: "string \<Rightarrow> object_record list \<Rightarrow> string list" where
  "listing_prefixes pfx recs = commons_of [] (map (contribution pfx) recs)"

lemma foldList_split:
  assumes "foldList pfx maxKeys recs moreDB = (items, commons, token, truncated)"
  obtains d rest where "recs = d @ rest" and "items = listing_items pfx d" and "commons = listing_prefixes pfx d"
    and "truncated \<longleftrightarrow> rest \<noteq> [] \<or> moreDB"
    and "token = (if truncated \<and> d \<noteq> [] \<and> r_Key (last d) \<noteq> [] then Some (r_Key (last d)) else None)"
    and "int (length items + length commons) \<le> max 1 maxKeys"
    and "rest \<noteq> [] \<Longrightarrow> int (length items + length commons) = max 1 maxKeys
      \<and> listing_prefixes pfx recs = commons @ listing_prefixes pfx rest"
proof -
  let ?st = "\<lparr>f_items = [], f_prefixes = [], f_lastPrefix = [], f_tokenKey = [], f_n = 0, f_truncated = False\<rparr>"
  let ?m = "if maxKeys < 1 then 1 else maxKeys"
  have "\<exists>d rest. recs = d @ rest \<and> page_split pfx ?m ?st d rest (foldList_loop pfx ?m recs ?st)"
    by (rule foldList_loop_split) (auto simp: page_size_def)
  then obtain d rest where dr: "recs = d @ rest" "page_split pfx ?m ?st d rest (foldList_loop pfx ?m recs ?st)"
    by blast
  show thesis
    by (rule that [of d rest])
      (use dr assms in \<open>auto simp: foldList_def Let_def page_split_def page_size_def listing_items_def
          listing_prefixes_def commons_of_append split: if_splits\<close>)
qed

section \<open>Common prefixes of sorted records are listed once\<close>

lemma prefix_interval:
  fixes a b c :: string
  assumes "prefix p a" and "prefix p c" and "a \<le> b" and "b \<le> c"
  shows "prefix p b"
  using assms
proof (induction p arbitrary: a b c)
  case (Cons x p)
  then obtain a' c' where ac: "a = x # a'" "c = x # c'" by (auto simp: prefix_def)
  obtain y b' where b: "b = y # b'" using Cons.prems(3) ac by (cases b) auto
  have "x < y \<or> x = y \<and> a' \<le> b'" "y < x \<or> y = x \<and> b' \<le> c'"
    using Cons.prems(3,4) by (simp_all add: ac b)
  then have "y = x" "a' \<le> b'" "b' \<le> c'" by auto
  moreover have "prefix p a'" "prefix p c'" using Cons.prems(1,2) by (simp_all add: ac)
  ultimately show ?case using Cons.IH [of a' c' b'] b by simp
qed simp

lemma set_commons_of: "p \<in> set (commons_of lp cs) \<Longrightarrow> Common p \<in> set cs"
  by (induction lp cs rule: commons_of.induct) (auto split: if_splits)

lemma set_commons_of_map:
  assumes "p \<in> set (commons_of lp (map (contribution pfx) recs))"
  shows "\<exists>r \<in> set recs. contribution pfx r = Common p"
proof -
  have "Common p \<in> contribution pfx ` set recs" using set_commons_of [OF assms] by simp
  then show ?thesis by (metis imageE)
qed

lemma takeWhile_slash: "CHR ''/'' \<notin> set d \<Longrightarrow> takeWhile (\<lambda>c. c \<noteq> CHR ''/'') (d @ CHR ''/'' # u) = d"
  by (induction d) auto

lemma common_prefix_unique:
  assumes "prefix (pfx @ d @ ''/'') k" "prefix (pfx @ d' @ ''/'') k" "CHR ''/'' \<notin> set d" "CHR ''/'' \<notin> set d'"
  shows "d = d'"
proof -
  obtain u v where "d @ CHR ''/'' # u = d' @ CHR ''/'' # v"
    using assms(1,2) by (auto simp: prefix_def)
  then show ?thesis using takeWhile_slash [OF assms(3)] takeWhile_slash [OF assms(4)] by metis
qed

definition open_prefix :: "string \<Rightarrow> string \<Rightarrow> object_record list \<Rightarrow> bool" where
  "open_prefix pfx lp recs \<longleftrightarrow> (\<exists>d k. lp = pfx @ d @ ''/'' \<and> CHR ''/'' \<notin> set d \<and> prefix lp k \<and> (\<forall>r \<in> set recs. k \<le> r_Key r))"

lemma closed_prefix_not_listed:
  assumes "open_prefix pfx lp (r # recs)" and "\<not> prefix lp (r_Key r)" and "sorted (map r_Key (r # recs))"
  shows "lp \<notin> set (commons_of q (map (contribution pfx) recs))"
proof
  assume "lp \<in> set (commons_of q (map (contribution pfx) recs))"
  then obtain r' where r': "r' \<in> set recs" "contribution pfx r' = Common lp"
    using set_commons_of_map by blast
  then have "prefix lp (r_Key r')" using contribution_Common by blast
  then have "prefix lp (r_Key r)"
    using assms r' prefix_interval [of lp _ "r_Key r'" "r_Key r"] by (auto simp: open_prefix_def)
  with assms(2) show False by simp
qed

lemma distinct_commons_of:
  assumes "sorted (map r_Key recs)" and "lp = [] \<or> open_prefix pfx lp recs"
  shows "distinct (commons_of lp (map (contribution pfx) recs)) \<and> lp \<notin> set (commons_of lp (map (contribution pfx) recs))"
  using assms
proof (induction recs arbitrary: lp)
  case (Cons r recs)
  have sorted: "sorted (map r_Key recs)" using Cons.prems by simp
  have weaken: "lp = [] \<or> open_prefix pfx lp recs"
    using Cons.prems(2) by (auto simp: open_prefix_def)
  have nonempty: "[] \<notin> set (commons_of q (map (contribution pfx) rs))" for q rs
    using set_commons_of_map contribution_Common by blast
  show ?case
  proof (cases "contribution pfx r")
    case Hidden
    then show ?thesis using Cons.IH [OF sorted weaken] by simp
  next
    case (Item r')
    have "lp \<notin> set (commons_of [] (map (contribution pfx) recs))"
    proof (cases "lp = []")
      case False
      then obtain d k where lp: "lp = pfx @ d @ ''/''" using Cons.prems(2) by (auto simp: open_prefix_def)
      then have "\<not> prefix lp (r_Key r)" using contribution_Item [OF Item] by (auto simp: prefix_def)
      then show ?thesis using closed_prefix_not_listed Cons.prems False by blast
    qed (simp add: nonempty)
    then show ?thesis using Item Cons.IH [OF sorted, of "[]"] by simp
  next
    case (Common p)
    then obtain d where d: "p = pfx @ d @ ''/''" "CHR ''/'' \<notin> set d" "prefix p (r_Key r)"
      using contribution_Common by blast
    then have "open_prefix pfx p recs" using Cons.prems(1) by (auto simp: open_prefix_def)
    note IH = Cons.IH [OF sorted, of p, OF disjI2, OF this]
    show ?thesis
    proof (cases "p = lp")
      case True
      then show ?thesis using IH Common by simp
    next
      case False
      have "lp \<notin> set (commons_of p (map (contribution pfx) recs))"
      proof (cases "lp = []")
        case open_lp: False
        then have "\<not> prefix lp (r_Key r)"
          using Cons.prems(2) d False common_prefix_unique by (auto simp: open_prefix_def)
        then show ?thesis using closed_prefix_not_listed Cons.prems open_lp by blast
      qed (simp add: nonempty)
      then show ?thesis using IH Common False by simp
    qed
  qed
qed simp

lemma distinct_listing_prefixes: "sorted (map r_Key recs) \<Longrightarrow> distinct (listing_prefixes pfx recs)"
  using distinct_commons_of by (simp add: listing_prefixes_def)

text \<open>
  C34: The \<^verbatim>\<open>LIKE\<close> pattern made from a prefix matches exactly the keys with that prefix,
  whatever wildcards and escape characters the prefix has.
\<close>

theorem likePrefix_exact: "sql_like (likePrefix pfx) key \<longleftrightarrow> HasPrefix key pfx"
  by (simp add: sql_like_likePrefix HasPrefix_def)

lemma listing_items_append: "listing_items pfx (d @ rest) = listing_items pfx d @ listing_items pfx rest"
  by (simp add: listing_items_def items_of_append)

lemma set_items_of: "r \<in> set (items_of cs) \<Longrightarrow> Item r \<in> set cs"
  by (induction cs rule: items_of.induct) auto

lemma listing_items_visible:
  assumes "r \<in> set (listing_items pfx recs)"
  shows "prefix pfx (r_Key r) \<and> \<not> prefix TrashPrefix (r_Key r) \<and> \<not> prefix VersionPrefix (r_Key r)"
proof -
  have "Item r \<in> contribution pfx ` set recs"
    using set_items_of [OF assms [unfolded listing_items_def]] by simp
  then obtain r' where "contribution pfx r' = Item r" by (metis imageE)
  from contribution_Item [OF this] show ?thesis by simp
qed

text \<open>
  C33: A listing page holds a prefix of the listing, at most \<^verbatim>\<open>maxKeys\<close> results of it, never a
  hidden key, and of sorted records every common prefix once. A page that stops early is
  full, its token is the last key it has consumed, and page and remainder together are the
  whole listing: nothing is skipped and no prefix is repeated at the boundary.
\<close>

theorem foldList_page:
  assumes "foldList pfx maxKeys recs moreInDB = (items, commons, token, truncated)"
  shows "\<exists>d rest. recs = d @ rest \<and> items = listing_items pfx d \<and> commons = listing_prefixes pfx d \<and>
    int (length items + length commons) \<le> max 1 maxKeys \<and>
    (truncated \<longleftrightarrow> rest \<noteq> [] \<or> moreInDB) \<and>
    token = (if truncated \<and> d \<noteq> [] \<and> r_Key (last d) \<noteq> [] then Some (r_Key (last d)) else None) \<and>
    (rest \<noteq> [] \<longrightarrow> int (length items + length commons) = max 1 maxKeys \<and>
      listing_items pfx recs = items @ listing_items pfx rest \<and>
      listing_prefixes pfx recs = commons @ listing_prefixes pfx rest) \<and>
    (\<forall>r \<in> set items. HasPrefix (r_Key r) pfx \<and> \<not> HasPrefix (r_Key r) TrashPrefix \<and> \<not> HasPrefix (r_Key r) VersionPrefix) \<and>
    (sorted (map r_Key recs) \<longrightarrow> distinct commons)"
proof (rule foldList_split [OF assms])
  fix d rest
  assume s: "recs = d @ rest" "items = listing_items pfx d" "commons = listing_prefixes pfx d"
    "truncated \<longleftrightarrow> rest \<noteq> [] \<or> moreInDB"
    "token = (if truncated \<and> d \<noteq> [] \<and> r_Key (last d) \<noteq> [] then Some (r_Key (last d)) else None)"
    "int (length items + length commons) \<le> max 1 maxKeys"
    "rest \<noteq> [] \<Longrightarrow> int (length items + length commons) = max 1 maxKeys
      \<and> listing_prefixes pfx recs = commons @ listing_prefixes pfx rest"
  have "\<forall>r \<in> set items. HasPrefix (r_Key r) pfx \<and> \<not> HasPrefix (r_Key r) TrashPrefix \<and> \<not> HasPrefix (r_Key r) VersionPrefix"
    using listing_items_visible s(2) by (auto simp: HasPrefix_def)
  moreover have "sorted (map r_Key recs) \<longrightarrow> distinct commons"
    using s(1,3) distinct_listing_prefixes by (simp add: sorted_append)
  moreover have "rest \<noteq> [] \<longrightarrow> int (length items + length commons) = max 1 maxKeys \<and>
      listing_items pfx recs = items @ listing_items pfx rest \<and> listing_prefixes pfx recs = commons @ listing_prefixes pfx rest"
    using s(1,2,7) listing_items_append by blast
  ultimately show ?thesis
    using s(1-6) by (intro exI [of _ d] exI [of _ rest]) blast
qed

definition demo_records :: "object_record list" where
  "demo_records = map (\<lambda>k. \<lparr>r_Key = k, r_Size = 1, r_ContentType = None, r_ETag = None, r_StorageClass = None,
     r_UploadedBy = None, r_LastModified = None, r_CreatedAt = None, r_UpdatedAt = None, r_Username = None\<rparr>)
     [''.trash/x'', ''a'', ''b/1'', ''b/2'', ''c'', ''d/1'']"

theorem foldList_page_witness:
  "\<exists>items token. foldList [] 2 demo_records False = (items, [''b/''], token, True) \<and> length items = 1 \<and> token = Some ''b/2''"
proof -
  obtain items token where page: "foldList [] 2 demo_records False = (items, [''b/''], token, True)"
    and key: "token = Some ''b/2''" "map r_Key items = [''a'']"
  proof -
    have "(case foldList [] 2 demo_records False of (items, cs, token, tr) \<Rightarrow>
        (map r_Key items, cs, token, tr)) = ([''a''], [''b/''], Some ''b/2'', True)" by code_simp
    then show ?thesis using that by (auto split: prod.splits)
  qed
  have "length items + 1 \<le> 2"
    using foldList_page [OF page] by auto
  then show ?thesis using page key by (auto dest: arg_cong [where f = length])
qed

end
