(* ===== verification/Service.thy ===== *)
theory Service
  imports Storage ObjectList
begin

text \<open>
  The contract of the storage service, which the claims about content rest on, what each call
  of the client does under it, and an in-memory service that fulfils it, on which the
  witnesses run.
\<close>

section \<open>What the storage service promises\<close>

text \<open>
  The documented behaviour of the service that the program relies on, in the absence of other
  writers, with \<open>view e b k\<close> the content of object \<open>k\<close> of bucket \<open>b\<close> in environment \<open>e\<close>. A call
  that reports an error may still have been executed.

  \<open>decode\<close> is what the service does to the \<^verbatim>\<open>CopySource\<close> header before it splits it at the
  first slash; S3 documents URL decoding, so it leaves a source alone only when it has no
  character that the encoding reserves.
\<close>

type_synonym 'o view = "string \<Rightarrow> string \<Rightarrow> 'o option"

definition view_set :: "'o view \<Rightarrow> string \<Rightarrow> string \<Rightarrow> 'o option \<Rightarrow> 'o view" where
  "view_set v b k o' = (\<lambda>b' k'. if b' = b \<and> k' = k then o' else v b' k')"

definition copy_source_of :: "(string \<Rightarrow> string) \<Rightarrow> string \<Rightarrow> string \<times> string" where
  "copy_source_of decode src =
     (takeWhile (\<lambda>ch. ch \<noteq> CHR ''/'') (decode src), drop 1 (dropWhile (\<lambda>ch. ch \<noteq> CHR ''/'') (decode src)))"

definition head_contract :: "'e ext \<Rightarrow> sdk_config \<Rightarrow> ('e \<Rightarrow> 'o view) \<Rightarrow> bool" where
  "head_contract x cfg view \<longleftrightarrow> (\<forall>e b k r e'. s3_HeadObject x cfg e b k = (r, e') \<longrightarrow>
     view e' = view e \<and>
     (case r of Inr _ \<Rightarrow> view e b k \<noteq> None | Inl err \<Rightarrow> isNotFound (ErrExt err) \<longrightarrow> view e b k = None))"

definition delete_contract :: "'e ext \<Rightarrow> sdk_config \<Rightarrow> ('e \<Rightarrow> 'o view) \<Rightarrow> bool" where
  "delete_contract x cfg view \<longleftrightarrow> (\<forall>e b k r e'. s3_DeleteObject x cfg e b k = (r, e') \<longrightarrow>
     (view e' = view_set (view e) b k None \<or> (\<exists>err. r = Inl err) \<and> view e' = view e))"

definition copy_contract :: "'e ext \<Rightarrow> sdk_config \<Rightarrow> (string \<Rightarrow> string) \<Rightarrow> ('e \<Rightarrow> 'o view) \<Rightarrow> bool" where
  "copy_contract x cfg decode view \<longleftrightarrow> (\<forall>e b k src r e'. s3_CopyObject x cfg e b k src = (r, e') \<longrightarrow>
     (case copy_source_of decode src of (sb, sk) \<Rightarrow>
       (\<exists>v. view e sb sk = Some v \<and> view e' = view_set (view e) b k (Some v))
       \<or> (\<exists>err. r = Inl err) \<and> view e' = view e))"

definition quiet_contract :: "'e ext \<Rightarrow> sdk_config \<Rightarrow> ('e \<Rightarrow> 'o view) \<Rightarrow> bool" where
  "quiet_contract x cfg view \<longleftrightarrow>
     (\<forall>e. view (snd (clock x e)) = view e) \<and> (\<forall>e. view (snd (sql x e)) = view e) \<and>
     (\<forall>e b p t n. view (snd (s3_ListObjectsV2 x cfg e b p t n)) = view e) \<and>
     (\<forall>e b k u. view (snd (s3_AbortMultipartUpload x cfg e b k u)) = view e)"

definition s3_contract :: "'e ext \<Rightarrow> sdk_config \<Rightarrow> (string \<Rightarrow> string) \<Rightarrow> ('e \<Rightarrow> 'o view) \<Rightarrow> bool" where
  "s3_contract x cfg decode view \<longleftrightarrow> head_contract x cfg view \<and> delete_contract x cfg view
     \<and> copy_contract x cfg decode view \<and> quiet_contract x cfg view"

text \<open>
  A time without failures: every statement is executed and answered, and every call that can be
  served is. No property needs this but those that say what is done when nothing goes wrong.
\<close>

definition never_fails :: "'e ext \<Rightarrow> (string \<Rightarrow> string) \<Rightarrow> ('e \<Rightarrow> 'o view) \<Rightarrow> bool" where
  "never_fails x decode view \<longleftrightarrow>
     (\<forall>e. \<exists>now e'. sql x e = (SqlOk now, e')) \<and>
     (\<forall>cfg e b k. view e b k \<noteq> None \<longrightarrow> (\<exists>out e'. s3_HeadObject x cfg e b k = (Inr out, e'))) \<and>
     (\<forall>cfg e b k src. (case copy_source_of decode src of (sb, sk) \<Rightarrow> view e sb sk \<noteq> None) \<longrightarrow>
        (\<exists>out e'. s3_CopyObject x cfg e b k src = (Inr out, e'))) \<and>
     (\<forall>cfg e b k. \<exists>e'. s3_DeleteObject x cfg e b k = (Inr (), e')) \<and>
     (\<forall>cfg e b p tok n. \<exists>out e'. s3_ListObjectsV2 x cfg e b p tok n = (Inr out, e'))"

text \<open>A listing returns keys that have the requested prefix.\<close>

definition list_contract :: "'e ext \<Rightarrow> sdk_config \<Rightarrow> bool" where
  "list_contract x cfg \<longleftrightarrow> (\<forall>e b p t n out e'. s3_ListObjectsV2 x cfg e b (Some p) t n = (Inr out, e') \<longrightarrow>
     (\<forall>obj \<in> set (lo_contents out). \<forall>k. so_key obj = Some k \<longrightarrow> prefix p k))"

text \<open>
  A listing in pages, while nobody writes: \<open>all e b p\<close> are the objects of the bucket with the
  prefix, and \<open>pos e b p t\<close> says how many of them precede the page that token \<open>t\<close> asks for. A
  page that is not the last is not empty and comes with a token for the next.
\<close>

definition listing_of :: "('e \<Rightarrow> 'o view) \<Rightarrow> ('e \<Rightarrow> string \<Rightarrow> string option \<Rightarrow> s3_object list) \<Rightarrow> bool" where
  "listing_of view all \<longleftrightarrow> (\<forall>e b p k. (\<exists>obj \<in> set (all e b p). so_key obj = Some k) \<longleftrightarrow>
     view e b k \<noteq> None \<and> (case p of None \<Rightarrow> True | Some p \<Rightarrow> prefix p k))"

definition page_reply :: "('e \<Rightarrow> string \<Rightarrow> string option \<Rightarrow> s3_object list) \<Rightarrow>
    ('e \<Rightarrow> string \<Rightarrow> string option \<Rightarrow> string option \<Rightarrow> nat) \<Rightarrow> 'e \<Rightarrow> string \<Rightarrow> string option \<Rightarrow> string option \<Rightarrow>
    ext_error + list_output \<Rightarrow> 'e \<Rightarrow> bool" where
  "page_reply all pos e b p t r e' \<longleftrightarrow> all e' = all e \<and> pos e' = pos e \<and> pos e b p None = 0 \<and>
     (case r of Inl _ \<Rightarrow> True | Inr out \<Rightarrow>
        lo_contents out = take (length (lo_contents out)) (drop (pos e b p t) (all e b p)) \<and>
        (if lo_is_truncated out = Some True
         then lo_contents out \<noteq> [] \<and> (case lo_next_token out of None \<Rightarrow> False
            | Some t' \<Rightarrow> t' \<noteq> [] \<and> pos e b p (Some t') = pos e b p t + length (lo_contents out))
         else length (all e b p) \<le> pos e b p t + length (lo_contents out)))"

definition listing_contract :: "'e ext \<Rightarrow> sdk_config \<Rightarrow> ('e \<Rightarrow> string \<Rightarrow> string option \<Rightarrow> s3_object list) \<Rightarrow>
    ('e \<Rightarrow> string \<Rightarrow> string option \<Rightarrow> string option \<Rightarrow> nat) \<Rightarrow> bool" where
  "listing_contract x cfg all pos \<longleftrightarrow> (\<forall>e b p t n r e'.
     s3_ListObjectsV2 x cfg e b p t n = (r, e') \<longrightarrow> 0 < n \<longrightarrow> page_reply all pos e b p t r e')"

text \<open>The source \<open>b/k\<close> reaches the service as it is.\<close>

definition plain_source :: "(string \<Rightarrow> string) \<Rightarrow> string \<Rightarrow> string \<Rightarrow> bool" where
  "plain_source decode b k \<longleftrightarrow> decode (b @ ''/'' @ k) = b @ ''/'' @ k \<and> CHR ''/'' \<notin> set b"

lemma copy_source_plain: "plain_source decode b k \<Longrightarrow> copy_source_of decode (b @ ''/'' @ k) = (b, k)"
  by (auto simp: plain_source_def copy_source_of_def takeWhile_append dropWhile_append takeWhile_slash)

section \<open>One storage call under the contract\<close>

definition same_view :: "('e \<Rightarrow> 'o view) \<Rightarrow> 'e sys \<Rightarrow> 'e sys \<Rightarrow> bool" where
  "same_view view s t \<longleftrightarrow> view (env t) = view (env s)"

interpretation sameview: io_preorder "same_view view" for view :: "'e \<Rightarrow> 'o view"
  by unfold_locales (simp_all add: same_view_def)

lemma sql_stmt_view: "s3_contract x cfg decode view \<Longrightarrow> io_rel (same_view view) (sql_stmt x f)"
  by (auto simp: io_rel_def sql_stmt_def same_view_def s3_contract_def quiet_contract_def
      split: prod.splits sql_reply.splits) (metis snd_conv)+

lemma sql_exec_view: "s3_contract x cfg decode view \<Longrightarrow> io_rel (same_view view) (sql_exec x f)"
  unfolding sql_exec_def by (rule sql_stmt_view)

lemma sql_query_view: "s3_contract x cfg decode view \<Longrightarrow> io_rel (same_view view) (sql_query x f)"
  unfolding sql_query_def by (rule sql_stmt_view)

lemma sql_transaction_view:
  assumes "s3_contract x cfg decode view" and "io_rel (same_view view) body"
  shows "io_rel (same_view view) (sql_transaction x (wrap_err p) (wrap_err q) body)"
  using assms(2) sql_stmt_view [OF assms(1)]
  by (fastforce simp: io_rel_def sql_transaction_def bind_apply attempt_def wrap_err_apply same_view_def sql_exec_def
      split: option.splits prod.splits sum.splits)

lemma HeadObject_view:
  assumes "s3_contract x (c_s3 c) decode view" and "HeadObject x c b k s = Some (r, s')"
  shows "view (env s') = view (env s) \<and> db s' = db s \<and>
    (case r of Inr _ \<Rightarrow> view (env s) b k \<noteq> None | Inl err \<Rightarrow> errors_Is err ErrNotFound \<longrightarrow> view (env s) b k = None)"
proof -
  obtain q e where q: "s3_HeadObject x (c_s3 c) (env s) b k = (q, e)" by fastforce
  have "view e = view (env s)"
    "case q of Inr _ \<Rightarrow> view (env s) b k \<noteq> None | Inl err \<Rightarrow> isNotFound (ErrExt err) \<longrightarrow> view (env s) b k = None"
    using assms(1) q by (auto simp: s3_contract_def head_contract_def)
  then show ?thesis
    using assms(2) q
    by (auto simp: HeadObject_def attempt_def ext_call_def ret_apply throw_apply split: sum.splits if_splits)
qed

text \<open>The calls when nothing fails.\<close>

lemma never_fails_sql: "never_fails x decode view \<Longrightarrow> \<exists>now e'. sql x e = (SqlOk now, e')"
  by (simp add: never_fails_def)

lemma calls_succeed:
  assumes "never_fails x decode view"
  shows "view (env s) b k \<noteq> None \<Longrightarrow> \<exists>meta s'. HeadObject x c b k s = Some (Inr meta, s')"
    and "plain_source decode sb sk \<Longrightarrow> view (env s) sb sk \<noteq> None \<Longrightarrow> \<exists>etag s'. CopyObject x c b k sb sk s = Some (Inr etag, s')"
    and "\<exists>s'. DeleteObject x c b k s = Some (Inr (), s')"
    and "\<exists>pg s'. list_page x c b p tok n s = Some (Inr pg, s')"
    and "\<exists>s'. sql_exec x f s = Some (Inr (), s')"
proof -
  note nf = assms [unfolded never_fails_def]
  show "\<exists>meta s'. HeadObject x c b k s = Some (Inr meta, s')" if there: "view (env s) b k \<noteq> None"
  proof -
    obtain out e where "s3_HeadObject x (c_s3 c) (env s) b k = (Inr out, e)"
      using nf [THEN conjunct2, THEN conjunct1, rule_format, OF there, of "c_s3 c"] by (elim exE)
    then show ?thesis by (simp add: HeadObject_def attempt_def ext_call_def ret_apply)
  qed
  show "\<exists>etag s'. CopyObject x c b k sb sk s = Some (Inr etag, s')" if "plain_source decode sb sk" "view (env s) sb sk \<noteq> None"
  proof -
    have "case copy_source_of decode (sb @ ''/'' @ sk) of (sb', sk') \<Rightarrow> view (env s) sb' sk' \<noteq> None"
      using copy_source_plain [OF that(1)] that(2) by simp
    from nf [THEN conjunct2, THEN conjunct2, THEN conjunct1, rule_format, OF this, of "c_s3 c" b k]
    obtain out e where "s3_CopyObject x (c_s3 c) (env s) b k (sb @ ''/'' @ sk) = (Inr out, e)" by blast
    then show ?thesis by (simp add: CopyObject_def bind_apply ext_call_def ret_apply split: option.split)
  qed
  show "\<exists>s'. DeleteObject x c b k s = Some (Inr (), s')"
  proof -
    obtain e where "s3_DeleteObject x (c_s3 c) (env s) b k = (Inr (), e)" using nf by metis
    then show ?thesis by (simp add: DeleteObject_def ext_call_def)
  qed
  show "\<exists>pg s'. list_page x c b p tok n s = Some (Inr pg, s')"
  proof -
    obtain out e where "s3_ListObjectsV2 x (c_s3 c) (env s) b (if p \<noteq> [] then Some p else None)
        (if tok \<noteq> [] then Some tok else None) (if n < 1 then 1000 else n) = (Inr out, e)" using nf by metis
    then show ?thesis by (simp add: list_page_def Let_def bind_apply ext_call_def ret_apply)
  qed
  show "\<exists>s'. sql_exec x f s = Some (Inr (), s')"
  proof -
    obtain now e where "sql x (env s) = (SqlOk now, e)" using nf by metis
    then show ?thesis by (simp add: sql_exec_def sql_stmt_def)
  qed
qed

lemma DeleteObject_view:
  assumes "s3_contract x (c_s3 c) decode view" and "DeleteObject x c b k s = Some (r, s')"
  shows "db s' = db s \<and> (view (env s') = view_set (view (env s)) b k None \<or> (\<exists>err. r = Inl err) \<and> view (env s') = view (env s))"
  using assms unfolding s3_contract_def delete_contract_def
  by (fastforce simp: DeleteObject_def ext_call_def split: prod.splits sum.splits)

lemma CopyObject_view:
  assumes "s3_contract x (c_s3 c) decode view" and "plain_source decode sb sk"
    and "CopyObject x c b k sb sk s = Some (r, s')"
  shows "db s' = db s \<and> ((\<exists>v. view (env s) sb sk = Some v \<and> view (env s') = view_set (view (env s)) b k (Some v))
    \<or> (\<exists>err. r = Inl err) \<and> view (env s') = view (env s))"
proof -
  obtain q e where q: "s3_CopyObject x (c_s3 c) (env s) b k (sb @ ''/'' @ sk) = (q, e)" by fastforce
  have "(\<exists>v. view (env s) sb sk = Some v \<and> view e = view_set (view (env s)) b k (Some v))
       \<or> (\<exists>err. q = Inl err) \<and> view e = view (env s)"
    using assms(1) q copy_source_plain [OF assms(2)] by (fastforce simp: s3_contract_def copy_contract_def)
  then show ?thesis
    using assms(3) q
    by (auto simp: CopyObject_def bind_apply ext_call_def ret_apply split: sum.splits option.splits)
qed

section \<open>Other writers\<close>

text \<open>
  The service in use by others: during and between the calls of a run they may write any object but
  those of \<open>K\<close>. What a call says about an object of \<open>K\<close> still holds; nothing is known of the rest.
  \<open>own K view\<close> is the part of the content that the run can rely on.
\<close>

definition own :: "(string \<times> string) set \<Rightarrow> ('e \<Rightarrow> 'o view) \<Rightarrow> 'e \<Rightarrow> 'o view" where
  "own K view e b k = (if (b, k) \<in> K then view e b k else None)"

definition shared_head :: "(string \<times> string) set \<Rightarrow> 'e ext \<Rightarrow> sdk_config \<Rightarrow> ('e \<Rightarrow> 'o view) \<Rightarrow> bool" where
  "shared_head K x cfg view \<longleftrightarrow> (\<forall>e b k r e'. s3_HeadObject x cfg e b k = (r, e') \<longrightarrow> (b, k) \<in> K \<longrightarrow>
     own K view e' = own K view e \<and>
     (case r of Inr _ \<Rightarrow> view e b k \<noteq> None | Inl err \<Rightarrow> isNotFound (ErrExt err) \<longrightarrow> view e b k = None))"

definition shared_delete :: "(string \<times> string) set \<Rightarrow> 'e ext \<Rightarrow> sdk_config \<Rightarrow> ('e \<Rightarrow> 'o view) \<Rightarrow> bool" where
  "shared_delete K x cfg view \<longleftrightarrow> (\<forall>e b k r e'. s3_DeleteObject x cfg e b k = (r, e') \<longrightarrow> (b, k) \<in> K \<longrightarrow>
     own K view e' = view_set (own K view e) b k None \<or> (\<exists>err. r = Inl err) \<and> own K view e' = own K view e)"

definition shared_copy :: "(string \<times> string) set \<Rightarrow> 'e ext \<Rightarrow> sdk_config \<Rightarrow> (string \<Rightarrow> string) \<Rightarrow> ('e \<Rightarrow> 'o view) \<Rightarrow> bool" where
  "shared_copy K x cfg decode view \<longleftrightarrow> (\<forall>e b k src r e'. s3_CopyObject x cfg e b k src = (r, e') \<longrightarrow>
     (b, k) \<in> K \<longrightarrow> copy_source_of decode src \<in> K \<longrightarrow> (case copy_source_of decode src of (sb, sk) \<Rightarrow>
       (\<exists>v. view e sb sk = Some v \<and> own K view e' = view_set (own K view e) b k (Some v))
       \<or> (\<exists>err. r = Inl err) \<and> own K view e' = own K view e))"

definition shared_contract :: "(string \<times> string) set \<Rightarrow> 'e ext \<Rightarrow> sdk_config \<Rightarrow> (string \<Rightarrow> string) \<Rightarrow> ('e \<Rightarrow> 'o view) \<Rightarrow> bool" where
  "shared_contract K x cfg decode view \<longleftrightarrow> shared_head K x cfg view \<and> shared_delete K x cfg view
     \<and> shared_copy K x cfg decode view \<and> quiet_contract x cfg (own K view)"

text \<open>
  A run that calls the service for objects of \<open>K\<close> only does not see the difference to a service that
  refuses all other calls; and of that service the contract holds, with the objects of \<open>K\<close> as its content.
\<close>

definition only_for :: "(string \<times> string) set \<Rightarrow> (string \<Rightarrow> string) \<Rightarrow> 'e ext \<Rightarrow> 'e ext" where
  "only_for K decode x = x\<lparr>
     s3_HeadObject := (\<lambda>cfg e b k. if (b, k) \<in> K then s3_HeadObject x cfg e b k else (Inl (NetError []), e)),
     s3_DeleteObject := (\<lambda>cfg e b k. if (b, k) \<in> K then s3_DeleteObject x cfg e b k else (Inl (NetError []), e)),
     s3_CopyObject := (\<lambda>cfg e b k src. if (b, k) \<in> K \<and> copy_source_of decode src \<in> K
       then s3_CopyObject x cfg e b k src else (Inl (NetError []), e))\<rparr>"

lemma only_for_contract:
  assumes "shared_contract K x cfg decode view"
  shows "s3_contract (only_for K decode x) cfg decode (own K view)"
  unfolding s3_contract_def
proof (intro conjI)
  let ?x = "only_for K decode x"
  show "head_contract ?x cfg (own K view)"
    unfolding head_contract_def
  proof (intro allI impI)
    fix e b k r e'
    assume "s3_HeadObject ?x cfg e b k = (r, e')"
    then show "own K view e' = own K view e \<and> (case r of Inr _ \<Rightarrow> own K view e b k \<noteq> None
        | Inl err \<Rightarrow> isNotFound (ErrExt err) \<longrightarrow> own K view e b k = None)"
    proof (cases "(b, k) \<in> K")
      case True
      moreover from this have "own K view e b k = view e b k" by (simp add: own_def)
      moreover have "shared_head K x cfg view" using assms by (simp add: shared_contract_def)
      ultimately show ?thesis using \<open>s3_HeadObject ?x cfg e b k = (r, e')\<close> by (cases r) (fastforce simp: shared_head_def only_for_def)+
    qed (auto simp: only_for_def isNotFound_def apiCode_def)
  qed
  show "delete_contract ?x cfg (own K view)"
    using assms by (auto simp: delete_contract_def shared_contract_def shared_delete_def only_for_def split: if_splits)
  show "copy_contract ?x cfg decode (own K view)"
    unfolding copy_contract_def
  proof (intro allI impI)
    fix e b k src r e'
    assume run: "s3_CopyObject ?x cfg e b k src = (r, e')"
    obtain sb sk where src: "copy_source_of decode src = (sb, sk)" by fastforce
    show "case copy_source_of decode src of (sb, sk) \<Rightarrow>
        (\<exists>v. own K view e sb sk = Some v \<and> own K view e' = view_set (own K view e) b k (Some v))
        \<or> (\<exists>err. r = Inl err) \<and> own K view e' = own K view e"
    proof (cases "(b, k) \<in> K \<and> (sb, sk) \<in> K")
      case True
      then have "s3_CopyObject x cfg e b k src = (r, e')" using run src by (simp add: only_for_def)
      moreover have "own K view e sb sk = view e sb sk" using True by (simp add: own_def)
      ultimately show ?thesis using assms True src unfolding shared_contract_def shared_copy_def by fastforce
    next
      case False
      then have "r = Inl (NetError [])" "e' = e" using run src by (auto simp: only_for_def split: if_splits)
      then show ?thesis using src by simp
    qed
  qed
  show "quiet_contract ?x cfg (own K view)"
    using assms by (simp add: quiet_contract_def shared_contract_def only_for_def)
qed

lemma only_for_calls:
  "(b, k) \<in> K \<Longrightarrow> HeadObject (only_for K decode x) c b k = HeadObject x c b k"
  "(b, k) \<in> K \<Longrightarrow> DeleteObject (only_for K decode x) c b k = DeleteObject x c b k"
  "(b, k) \<in> K \<Longrightarrow> (sb, sk) \<in> K \<Longrightarrow> plain_source decode sb sk \<Longrightarrow>
     CopyObject (only_for K decode x) c b k sb sk = CopyObject x c b k sb sk"
proof -
  show "CopyObject (only_for K decode x) c b k sb sk = CopyObject x c b k sb sk"
    if "(b, k) \<in> K" "(sb, sk) \<in> K" "plain_source decode sb sk"
  proof -
    have "copy_source_of decode (sb @ ''/'' @ sk) \<in> K" using copy_source_plain that(2,3) by simp
    moreover have "s3_CopyObject (only_for K decode x) cfg e b k src = s3_CopyObject x cfg e b k src"
      if "copy_source_of decode src \<in> K" for cfg e src using that \<open>(b, k) \<in> K\<close> by (simp add: only_for_def)
    ultimately show ?thesis by (simp only: CopyObject_def)
  qed
qed (simp_all add: HeadObject_def DeleteObject_def only_for_def)

lemma only_for_sql:
  "sql_exec (only_for K decode x) = sql_exec x" "sql_query (only_for K decode x) = sql_query x"
  "sql_stmt (only_for K decode x) = sql_stmt x" "time_Now (only_for K decode x) = time_Now x"
  by (simp_all add: fun_eq_iff sql_exec_def sql_query_def sql_stmt_def time_Now_def only_for_def)

lemma only_for_transaction: "sql_transaction (only_for K decode x) = sql_transaction x"
  by (rule ext)+ (unfold sql_transaction_def only_for_sql, rule refl)

lemma own_in: "(b, k) \<in> K \<Longrightarrow> own K view e b k = view e b k"
  by (simp add: own_def)

lemma own_UNIV [simp]: "own UNIV view = view"
  by (simp add: fun_eq_iff own_def)

lemma own_same: "view e' = view e \<Longrightarrow> own K view e' = own K view e"
  by (simp add: own_def fun_eq_iff)

lemma own_set: "view e' = view_set (view e) b k v \<Longrightarrow> (b, k) \<in> K \<Longrightarrow> own K view e' = view_set (own K view e) b k v"
  by (auto simp: own_def view_set_def fun_eq_iff)

text \<open>Nobody else writing is a special case.\<close>

lemma alone_shared:
  assumes "s3_contract x cfg decode view"
  shows "shared_contract K x cfg decode view"
  unfolding shared_contract_def
proof (intro conjI)
  from assms have parts: "head_contract x cfg view" "delete_contract x cfg view" "copy_contract x cfg decode view" "quiet_contract x cfg view"
    by (simp_all add: s3_contract_def)
  show "shared_head K x cfg view"
    unfolding shared_head_def using parts(1) [unfolded head_contract_def] own_same [of view] by blast
  show "shared_delete K x cfg view"
    unfolding shared_delete_def using parts(2) [unfolded delete_contract_def] own_same [of view] own_set [of view] by blast
  show "shared_copy K x cfg decode view"
    unfolding shared_copy_def
  proof (intro allI impI)
    fix e b k src r e'
    assume run: "s3_CopyObject x cfg e b k src = (r, e')" and K: "(b, k) \<in> K"
    obtain sb sk where src: "copy_source_of decode src = (sb, sk)" by fastforce
    have "(\<exists>v. view e sb sk = Some v \<and> view e' = view_set (view e) b k (Some v)) \<or> (\<exists>err. r = Inl err) \<and> view e' = view e"
      using parts(3) run src by (fastforce simp: copy_contract_def)
    then show "case copy_source_of decode src of (sb, sk) \<Rightarrow>
        (\<exists>v. view e sb sk = Some v \<and> own K view e' = view_set (own K view e) b k (Some v))
        \<or> (\<exists>err. r = Inl err) \<and> own K view e' = own K view e"
      unfolding src prod.case using own_same [of view e' e K] own_set [of view e' e b k _ K, OF _ K] by blast
  qed
  show "quiet_contract x cfg (own K view)"
    using parts(4) unfolding quiet_contract_def by (intro conjI allI own_same) simp_all
qed

section \<open>Listing pages\<close>

text \<open>One page of the client. An empty prefix or token is not sent.\<close>

definition opt_str :: "string \<Rightarrow> string option" where
  "opt_str t = (if t = [] then None else Some t)"

definition calm :: "('e \<Rightarrow> string \<Rightarrow> string option \<Rightarrow> s3_object list) \<Rightarrow>
    ('e \<Rightarrow> string \<Rightarrow> string option \<Rightarrow> string option \<Rightarrow> nat) \<Rightarrow> 'e sys \<Rightarrow> 'e sys \<Rightarrow> bool" where
  "calm all pos s s' \<longleftrightarrow> db s' = db s \<and> all (env s') = all (env s) \<and> pos (env s') = pos (env s)"

definition page_ok :: "s3_object list \<Rightarrow> (string \<Rightarrow> nat) \<Rightarrow> string \<Rightarrow> ListPage \<Rightarrow> bool" where
  "page_ok objs at t page \<longleftrightarrow>
     Objects page = map listed (take (length (Objects page)) (drop (at t) objs)) \<and>
     (if Truncated page \<and> Token page \<noteq> []
      then Objects page \<noteq> [] \<and> at (Token page) = at t + length (Objects page)
      else length objs \<le> at t + length (Objects page))"

lemma list_page_ok:
  assumes "listing_contract x (c_s3 c) all pos" and "list_page x c b p t n s = Some (r, s')"
  shows "calm all pos s s' \<and> pos (env s) b (opt_str p) None = 0 \<and> (case r of Inl _ \<Rightarrow> True | Inr page \<Rightarrow>
     page_ok (all (env s) b (opt_str p)) (\<lambda>t. pos (env s) b (opt_str p) (opt_str t)) t page)"
proof -
  let ?n = "if n < 1 then 1000 else n"
  obtain q e where q: "s3_ListObjectsV2 x (c_s3 c) (env s) b (opt_str p) (opt_str t) ?n = (q, e)" by fastforce
  have "0 < ?n" by simp
  then have fact: "page_reply all pos (env s) b (opt_str p) (opt_str t) q e"
    using assms(1) q by (simp add: listing_contract_def)
  show ?thesis
  proof (cases q)
    case (Inl err)
    then show ?thesis using assms(2) q fact
      by (auto simp: page_reply_def list_page_def Let_def opt_str_def bind_apply ext_call_def calm_def split: if_splits)
  next
    case (Inr out)
    then have "r = Inr (page_of out)" "s' = s\<lparr>env := e\<rparr>"
      using assms(2) q by (auto simp: list_page_def Let_def opt_str_def bind_apply ext_call_def ret_apply split: if_splits)
    then show ?thesis
      using fact Inr by (auto simp: page_reply_def calm_def page_ok_def page_of_def opt_str_def split: if_splits option.splits)
  qed
qed

section \<open>An in-memory service\<close>

text \<open>
  A service that keeps the objects in a list, always answers, and decodes copy sources with
  the given function; statements always succeed and the clock stands still.
\<close>

record content =
  ct_size :: int
  ct_etag :: string
  ct_type :: string

record mem =
  mem_now :: time
  mem_objects :: "((string \<times> string) \<times> content) list"
  mem_aborted :: "(string \<times> string \<times> string) list"

definition mem_view :: "mem \<Rightarrow> content view" where
  "mem_view e b k = map_of (mem_objects e) (b, k)"

definition mem_missing :: ext_error where
  "mem_missing = AwsError NotFound ''NotFound'' ''not found''"

definition mem_remove :: "string \<Rightarrow> string \<Rightarrow> ((string \<times> string) \<times> content) list \<Rightarrow> ((string \<times> string) \<times> content) list" where
  "mem_remove b k = filter (\<lambda>obj. fst obj \<noteq> (b, k))"

definition mem_head :: "mem \<Rightarrow> string \<Rightarrow> string \<Rightarrow> (ext_error + head_output) \<times> mem" where
  "mem_head e b k = (case mem_view e b k of
     None \<Rightarrow> (Inl mem_missing, e)
   | Some v \<Rightarrow> (Inr \<lparr>ho_content_length = Some (ct_size v), ho_etag = Some (ct_etag v), ho_content_type = Some (ct_type v)\<rparr>, e))"

definition mem_delete :: "mem \<Rightarrow> string \<Rightarrow> string \<Rightarrow> (ext_error + unit) \<times> mem" where
  "mem_delete e b k = (Inr (), e\<lparr>mem_objects := mem_remove b k (mem_objects e)\<rparr>)"

definition mem_copy :: "(string \<Rightarrow> string) \<Rightarrow> mem \<Rightarrow> string \<Rightarrow> string \<Rightarrow> string \<Rightarrow>
    (ext_error + string option option) \<times> mem" where
  "mem_copy decode e b k src = (case mem_view e (fst (copy_source_of decode src)) (snd (copy_source_of decode src)) of
     None \<Rightarrow> (Inl mem_missing, e)
   | Some v \<Rightarrow> (Inr (Some (Some (ct_etag v))),
       e\<lparr>mem_objects := ((b, k), v) # mem_remove b k (mem_objects e)\<rparr>))"

definition mem_entry :: "string \<times> content \<Rightarrow> s3_object" where
  "mem_entry obj = \<lparr>so_key = Some (fst obj), so_size = Some (ct_size (snd obj)),
     so_etag = Some (ct_etag (snd obj)), so_storage_class = ''STANDARD''\<rparr>"

text \<open>A continuation token is the number of objects already listed.\<close>

definition mem_offset :: "string option \<Rightarrow> nat" where
  "mem_offset t = (case t of None \<Rightarrow> 0 | Some k \<Rightarrow> (case digits_val 0 k of None \<Rightarrow> 0 | Some n \<Rightarrow> n))"

definition mem_all :: "mem \<Rightarrow> string \<Rightarrow> string option \<Rightarrow> s3_object list" where
  "mem_all e b p = map (\<lambda>obj. mem_entry (snd (fst obj), snd obj)) (filter (\<lambda>obj. fst (fst obj) = b
     \<and> (case p of None \<Rightarrow> True | Some p \<Rightarrow> prefix p (snd (fst obj)))) (mem_objects e))"

definition mem_list :: "mem \<Rightarrow> string \<Rightarrow> string option \<Rightarrow> string option \<Rightarrow> int \<Rightarrow> (ext_error + list_output) \<times> mem" where
  "mem_list e b p t n =
     (let start = mem_offset t;
          rest = drop start (mem_all e b p);
          more = (nat n < length rest)
      in (Inr \<lparr>lo_contents = take (nat n) rest, lo_is_truncated = Some more,
           lo_next_token = (if more then Some (nat_str (start + nat n)) else None)\<rparr>, e))"

definition mem_ext :: "(string \<Rightarrow> string) \<Rightarrow> mem ext" where
  "mem_ext decode = \<lparr>clock = (\<lambda>e. (mem_now e, e)), sql = (\<lambda>e. (SqlOk (mem_now e), e)), collate = (\<lambda>a b. a \<le> b),
     audit_defaults = (\<lambda>t. \<lparr>a_tenant_user_id = None, a_account_id = None, a_bucket_name = None, a_object_key = None,
       a_action = [], a_source_ip = None, a_user_agent = None, a_status = [], a_error_message = None, a_created_at = t\<rparr>),
     s3_HeadObject = (\<lambda>_. mem_head), s3_CopyObject = (\<lambda>_. mem_copy decode), s3_DeleteObject = (\<lambda>_. mem_delete),
     s3_ListObjectsV2 = (\<lambda>_. mem_list),
     s3_AbortMultipartUpload = (\<lambda>_ e b k u. (Inr (), e\<lparr>mem_aborted := (b, k, u) # mem_aborted e\<rparr>))\<rparr>"

lemma map_of_mem_remove: "map_of (mem_remove b k objs) = (map_of objs)((b, k) := None)"
  by (induction objs) (auto simp: mem_remove_def)

lemma mem_s3_contract: "s3_contract (mem_ext decode) cfg decode mem_view"
  unfolding s3_contract_def
proof (intro conjI)
  show "head_contract (mem_ext decode) cfg mem_view"
    by (auto simp: head_contract_def mem_ext_def mem_head_def split: option.splits)
  show "delete_contract (mem_ext decode) cfg mem_view"
    by (auto simp: delete_contract_def mem_ext_def mem_delete_def mem_view_def view_set_def map_of_mem_remove fun_eq_iff)
  show "copy_contract (mem_ext decode) cfg decode mem_view"
    by (auto simp: copy_contract_def mem_ext_def mem_copy_def mem_view_def view_set_def map_of_mem_remove fun_eq_iff
        split: option.splits prod.splits)
  show "quiet_contract (mem_ext decode) cfg mem_view"
    by (auto simp: quiet_contract_def mem_ext_def mem_list_def mem_view_def Let_def fun_eq_iff)
qed

lemma mem_never_fails: "never_fails (mem_ext decode) decode mem_view"
  by (auto simp: never_fails_def mem_ext_def mem_head_def mem_copy_def mem_delete_def mem_list_def mem_view_def Let_def
      split: option.splits prod.splits)

lemma mem_list_contract: "list_contract (mem_ext decode) cfg"
  unfolding list_contract_def
  by (auto simp: mem_ext_def mem_list_def mem_all_def Let_def mem_entry_def dest!: in_set_takeD in_set_dropD)

lemma mem_listing_contract: "listing_contract (mem_ext decode) cfg mem_all (\<lambda>_ _ _. mem_offset)"
  by (auto simp: listing_contract_def page_reply_def mem_ext_def mem_list_def Let_def mem_offset_def digits_val_nat_str split: option.split)

lemma mem_listing_of: "listing_of mem_view mem_all"
  unfolding listing_of_def mem_view_def
  by (auto simp: mem_all_def mem_entry_def map_of_eq_None_iff image_iff split: option.splits) force+

text \<open>A client for it.\<close>

definition mem_client :: Client where
  "mem_client = storage_New \<lparr>Endpoint = ''http://rgw/'', AccessKey = ''ak'', SecretKey = ''sk'', Region = [],
     UploadTTL = 0, DownloadTTL = 0, DownloadCDNURL = [], PreviewCDNURL = []\<rparr>"

text \<open>What S3 documents: \<^verbatim>\<open>%XX\<close> in a copy source stands for the byte \<^verbatim>\<open>XX\<close>.\<close>

definition hex_val :: "char \<Rightarrow> nat option" where
  "hex_val c = (if c \<in> set ''0123456789'' then Some (of_char c - 48)
     else if c \<in> set ''ABCDEF'' then Some (of_char c - 55)
     else if c \<in> set ''abcdef'' then Some (of_char c - 87) else None)"

fun url_decode :: "string \<Rightarrow> string" where
  "url_decode (c # h # l # s) =
     (if c = CHR ''%'' then (case (hex_val h, hex_val l) of
          (Some a, Some b) \<Rightarrow> char_of (16 * a + b) # url_decode s
        | _ \<Rightarrow> c # url_decode (h # l # s))
      else c # url_decode (h # l # s))"
| "url_decode s = s"

lemma url_decode_plain: "CHR ''%'' \<notin> set s \<Longrightarrow> url_decode s = s"
  by (induction s rule: url_decode.induct) auto

text \<open>A bucket with three objects, one of them in the trash, and their rows.\<close>

definition demo_content :: "nat \<Rightarrow> content" where
  "demo_content n = \<lparr>ct_size = int n, ct_etag = ''etag'' @ nat_str n, ct_type = ''text/plain''\<rparr>"

definition demo_bucket :: Bucket where
  "demo_bucket = \<lparr>ID = 1, BucketName = ''media'', DisplayName = None, DisplayAliasOnly = False, QuotaBytes = None,
     ObjectLimit = None, VersioningEnabled = False, AccessLoggingEnabled = False, AccessLogTargetBucket = None,
     AccessLogPrefix = None, Status = ''active'', CreatedBy = None, CreatedAt = 0, UpdatedAt = 0\<rparr>"

definition demo_object :: "string \<Rightarrow> time \<Rightarrow> object_row" where
  "demo_object key at = \<lparr>o_bucket_id = 1, o_bucket_name = ''media'', o_object_key = key, o_size = Some 1,
     o_etag = None, o_content_type = None, o_storage_class = None, o_created_by = Some 5, o_updated_by = Some 5,
     o_last_seen_at = Some at, o_created_at = at, o_updated_at = at\<rparr>"

definition demo_db :: tenant_db where
  "demo_db = empty_db\<lparr>
     buckets := [Bucket.extend demo_bucket \<lparr>inventoried_at = None\<rparr>],
     account_bucket_grants := [\<lparr>g_user_id = 9, g_bucket_id = 1, g_local = True\<rparr>],
     object_records := [demo_object ''docs/a'' 0, demo_object ''docs/b'' 0, demo_object ''.trash/old'' 0]\<rparr>"

definition demo_sys :: "mem sys" where
  "demo_sys = \<lparr>db = demo_db, env = \<lparr>mem_now = 40 * Day,
     mem_objects = [((''media'', ''docs/a''), demo_content 1), ((''media'', ''docs/b''), demo_content 2),
       ((''media'', ''.trash/old''), demo_content 3)], mem_aborted = []\<rparr>\<rparr>"

abbreviation demo_ext :: "mem ext" where "demo_ext \<equiv> mem_ext (\<lambda>s. s)"

lemma demo_db_wf: "db_wf demo_db"
  by (simp add: db_wf_def tab_wf_def demo_db_def demo_object_def object_key_def empty_db_def Bucket.defs)

lemma run_obtain:
  assumes "map_option fst m = Some r"
  obtains s' where "m = Some (r, s')"
  using assms by (cases m) auto

lemma run_value:
  assumes "map_option (map_sum (\<lambda>_. ()) f \<circ> fst) m = Some (Inr v)"
  obtains a s' where "m = Some (Inr a, s')" and "f a = v"
proof (cases m)
  case (Some q)
  then show ?thesis using assms that by (cases "fst q"; cases q) auto
qed (use assms in simp)

end
