(* ===== verification/Calendar.thy ===== *)
theory Calendar
  imports GoStrings
begin

text \<open>
  The parts of Go's \<^verbatim>\<open>time\<close> package that the program uses on UTC instants: truncation to a
  multiple of a duration, the calendar date, truncation to the day, and the RFC 3339 text.
  The text identifies the second it names.
\<close>

section \<open>Truncation\<close>

definition Truncate :: "time \<Rightarrow> duration \<Rightarrow> time" where
  "Truncate t d = (if d \<le> 0 then t else t - t mod d)"

lemma Truncate_bounds: "0 < d \<Longrightarrow> Truncate t d \<le> t \<and> t < Truncate t d + d"
  by (simp add: Truncate_def)

lemma Truncate_eq_iff: "0 < d \<Longrightarrow> Truncate t d = Truncate t' d \<longleftrightarrow> t div d = t' div d"
  by (simp add: Truncate_def minus_mod_eq_div_mult)

section \<open>Dates\<close>

definition is_leap :: "int \<Rightarrow> bool" where
  "is_leap y \<longleftrightarrow> y mod 4 = 0 \<and> (y mod 100 \<noteq> 0 \<or> y mod 400 = 0)"

definition year_len :: "int \<Rightarrow> nat" where
  "year_len y = (if is_leap y then 366 else 365)"

definition month_len :: "int \<Rightarrow> nat \<Rightarrow> nat" where
  "month_len y m =
     (if m = 2 then (if is_leap y then 29 else 28)
      else if m = 4 \<or> m = 6 \<or> m = 9 \<or> m = 11 then 30 else 31)"

function year_loop :: "int \<Rightarrow> nat \<Rightarrow> int \<times> nat" where
  "year_loop y n = (if n < year_len y then (y, n) else year_loop (y + 1) (n - year_len y))"
  by pat_completeness auto
termination
  by (relation "measure snd") (auto simp: year_len_def)

function month_loop :: "int \<Rightarrow> nat \<Rightarrow> nat \<Rightarrow> nat \<times> nat" where
  "month_loop y m n =
     (if 12 \<le> m \<or> n < month_len y m then (m, n) else month_loop y (m + 1) (n - month_len y m))"
  by pat_completeness auto
termination
  by (relation "measure (\<lambda>(y, m, n). 12 - m)") auto

declare year_loop.simps [simp del] month_loop.simps [simp del]

text \<open>Year, month and day of a day number (0001-01-01 is day 0); 400 years have 146097 days.\<close>

definition civil :: "int \<Rightarrow> int \<times> nat \<times> nat" where
  "civil d =
     (case year_loop (400 * (d div 146097) + 1) (nat (d mod 146097)) of (y, n) \<Rightarrow>
       (case month_loop y 1 n of (m, k) \<Rightarrow> (y, m, k + 1)))"

definition days_before_year :: "int \<Rightarrow> int" where
  "days_before_year y = 365 * (y - 1) + (y - 1) div 4 - (y - 1) div 100 + (y - 1) div 400"

lemma div_pred:
  assumes "0 < k"
  shows "(y::int) div k - (y - 1) div k = (if y mod k = 0 then 1 else 0)"
proof (cases "y mod k = 0")
  case True
  have "y - 1 = k * (y div k - 1) + (k - 1)"
    using True mult_div_mod_eq [of k y] by (simp add: right_diff_distrib)
  then have "(y - 1) div k = y div k - 1"
    by (rule int_div_pos_eq) (use assms in auto)
  then show ?thesis using True by simp
next
  case False
  have m: "0 \<le> y mod k" "y mod k < k" using assms by simp_all
  have "y - 1 = k * (y div k) + (y mod k - 1)" using mult_div_mod_eq [of k y] by simp
  then have "(y - 1) div k = y div k"
    by (rule int_div_pos_eq) (use m False in auto)
  then show ?thesis using False by simp
qed

lemma days_before_year_Suc: "days_before_year (y + 1) = days_before_year y + int (year_len y)"
proof -
  have "(100::int) dvd 400" "(4::int) dvd 100" by simp_all
  then have "y mod 400 = 0 \<Longrightarrow> y mod 100 = 0" "y mod 100 = 0 \<Longrightarrow> y mod 4 = 0"
    by (metis dvd_eq_mod_eq_0 dvd_trans)+
  then have "int (year_len y) = 365 + (if y mod 4 = 0 then 1 else 0) - (if y mod 100 = 0 then 1 else 0)
      + (if y mod 400 = 0 then 1 else 0)"
    by (cases "y mod 400 = 0"; cases "y mod 100 = 0"; cases "y mod 4 = 0")
      (simp_all add: year_len_def is_leap_def)
  also have "\<dots> = 365 + (y div 4 - (y - 1) div 4) - (y div 100 - (y - 1) div 100) + (y div 400 - (y - 1) div 400)"
    by (simp only: div_pred [OF zero_less_numeral])
  finally show ?thesis by (simp add: days_before_year_def)
qed

lemma year_loop_inv:
  "year_loop y n = (y', n') \<Longrightarrow> days_before_year y' + int n' = days_before_year y + int n \<and> n' < year_len y'"
proof (induction y n arbitrary: y' n' rule: year_loop.induct)
  case (1 y n)
  show ?case
  proof (cases "n < year_len y")
    case True
    with "1.prems" show ?thesis by (simp add: year_loop.simps [of y n])
  next
    case False
    with "1.prems" have "year_loop (y + 1) (n - year_len y) = (y', n')" by (simp add: year_loop.simps [of y n])
    from "1.IH" [OF False this] False show ?thesis by (simp add: days_before_year_Suc)
  qed
qed

fun days_before_month :: "int \<Rightarrow> nat \<Rightarrow> nat" where
  "days_before_month y 0 = 0"
| "days_before_month y (Suc m) = days_before_month y m + (if m = 0 then 0 else month_len y m)"

lemma month_loop_inv:
  "month_loop y m n = (m', n') \<Longrightarrow> 1 \<le> m \<Longrightarrow> m \<le> 12 \<Longrightarrow>
     days_before_month y m' + n' = days_before_month y m + n \<and> 1 \<le> m' \<and> m' \<le> 12 \<and> (m' = 12 \<or> n' < month_len y m')"
proof (induction y m n arbitrary: m' n' rule: month_loop.induct)
  case (1 y m n)
  show ?case
  proof (cases "12 \<le> m \<or> n < month_len y m")
    case True
    with "1.prems" show ?thesis by (auto simp: month_loop.simps [of y m n])
  next
    case False
    with "1.prems" have "month_loop y (m + 1) (n - month_len y m) = (m', n')"
      by (simp add: month_loop.simps [of y m n])
    from "1.IH" [OF False this] False "1.prems" show ?thesis by auto
  qed
qed

lemma days_before_december: "days_before_month y 12 + 31 = year_len y"
  by (simp add: eval_nat_numeral month_len_def year_len_def)

lemma civil_spec:
  assumes "civil d = (y, m, k)"
  shows "d = days_before_year y + int (days_before_month y m) + int k - 1 \<and> 1 \<le> m \<and> m \<le> 12 \<and> 1 \<le> k \<and> k \<le> 31"
proof -
  obtain y0 n where y0: "year_loop (400 * (d div 146097) + 1) (nat (d mod 146097)) = (y0, n)" by fastforce
  obtain m0 j where m0: "month_loop y0 1 n = (m0, j)" by fastforce
  have eq: "y = y0" "m = m0" "k = j + 1" using assms y0 m0 by (simp_all add: civil_def)
  have "days_before_year (400 * e + 1) = 146097 * e" for e
    by (simp add: days_before_year_def)
  then have Y: "days_before_year y0 + int n = d" "n < year_len y0"
    using year_loop_inv [OF y0] by simp_all
  have M: "days_before_month y0 m0 + j = n" "1 \<le> m0" "m0 \<le> 12" "m0 = 12 \<or> j < month_len y0 m0"
    using month_loop_inv [OF m0] by simp_all
  have "j < 31"
  proof (cases "m0 = 12")
    case True
    then show ?thesis using M(1) Y(2) days_before_december [of y0] by simp
  next
    case False
    then show ?thesis using M(4) by (auto simp: month_len_def split: if_splits)
  qed
  then show ?thesis using Y M eq by auto
qed

lemma civil_inject: "civil d = civil d' \<longleftrightarrow> d = d'"
  using civil_spec by (metis prod_cases3)

section \<open>RFC 3339\<close>

definition pad :: "nat \<Rightarrow> nat \<Rightarrow> string" where
  "pad w n = replicate (w - length (nat_str n)) (CHR ''0'') @ nat_str n"

definition year_str :: "int \<Rightarrow> string" where
  "year_str y = (if y < 0 then CHR ''-'' # pad 4 (nat (- y)) else pad 4 (nat y))"

definition Format_RFC3339 :: "time \<Rightarrow> string" where
  "Format_RFC3339 t =
     (let secs = t div Second; sod = nat (secs mod 86400) in
      case civil (secs div 86400) of (y, m, k) \<Rightarrow>
        year_str y @ ''-'' @ pad 2 m @ ''-'' @ pad 2 k @ ''T'' @ pad 2 (sod div 3600) @ '':'' @
        pad 2 (sod div 60 mod 60) @ '':'' @ pad 2 (sod mod 60) @ ''Z'')"

lemma digits_val_pad: "digits_val 0 (pad w n) = Some n"
proof -
  have "digits_val 0 (replicate i (CHR ''0'') @ s) = digits_val 0 s" for i s
    by (induction i) (simp_all add: digit_val_def)
  then show ?thesis by (simp add: pad_def digits_val_nat_str)
qed

lemma pad_inject [simp]: "pad w m = pad w n \<longleftrightarrow> m = n"
  using digits_val_pad by (metis option.inject)

lemma pad_no_minus: "pad w n \<noteq> CHR ''-'' # s"
proof
  assume "pad w n = CHR ''-'' # s"
  then have "digits_val 0 (CHR ''-'' # s) = Some n" using digits_val_pad by metis
  then show False by (simp add: digit_val_def)
qed

lemma year_str_inject [simp]: "year_str y = year_str y' \<longleftrightarrow> y = y'"
  using pad_no_minus by (auto simp: year_str_def dest: sym)

lemma length_nat_str: "n < 100 \<Longrightarrow> length (nat_str n) \<le> 2"
  by (subst nat_str.simps, subst nat_str.simps) auto

lemma length_pad2: "n < 100 \<Longrightarrow> length (pad 2 n) = 2"
  using length_nat_str [of n] by (simp add: pad_def)

lemma rfc_fields:
  assumes "y @ ''-'' @ a1 @ ''-'' @ a2 @ ''T'' @ a3 @ '':'' @ a4 @ '':'' @ a5 @ ''Z''
      = y' @ ''-'' @ b1 @ ''-'' @ b2 @ ''T'' @ b3 @ '':'' @ b4 @ '':'' @ b5 @ ''Z''"
    and "length a1 = 2" "length a2 = 2" "length a3 = 2" "length a4 = 2" "length a5 = 2"
    and "length b1 = 2" "length b2 = 2" "length b3 = 2" "length b4 = 2" "length b5 = 2"
  shows "y = y' \<and> a1 = b1 \<and> a2 = b2 \<and> a3 = b3 \<and> a4 = b4 \<and> a5 = b5"
  using assms by simp

theorem Format_RFC3339_inject:
  "Format_RFC3339 t = Format_RFC3339 t' \<longleftrightarrow> t div Second = t' div Second"
proof
  assume same: "Format_RFC3339 t = Format_RFC3339 t'"
  define D S where "D t = t div Second div 86400" and "S t = nat (t div Second mod 86400)" for t
  have S: "S t < 86400" for t by (simp add: S_def)
  have fmt: "\<exists>y m k. civil (D t) = (y, m, k) \<and> Format_RFC3339 t =
      year_str y @ ''-'' @ pad 2 m @ ''-'' @ pad 2 k @ ''T'' @ pad 2 (S t div 3600) @ '':'' @
      pad 2 (S t div 60 mod 60) @ '':'' @ pad 2 (S t mod 60) @ ''Z''
      \<and> length (pad 2 m) = 2 \<and> length (pad 2 k) = 2 \<and> length (pad 2 (S t div 3600)) = 2
      \<and> length (pad 2 (S t div 60 mod 60)) = 2 \<and> length (pad 2 (S t mod 60)) = 2" for t
  proof -
    obtain y m k where c: "civil (D t) = (y, m, k)" by (metis prod_cases3)
    have "m < 100" "k < 100" using civil_spec [OF c] by auto
    moreover have "S t div 3600 < 100" using S [of t] by (simp add: less_mult_imp_div_less)
    ultimately show ?thesis
      using c by (simp add: Format_RFC3339_def D_def S_def Let_def length_pad2)
  qed
  obtain y m k where A: "civil (D t) = (y, m, k)" "Format_RFC3339 t =
      year_str y @ ''-'' @ pad 2 m @ ''-'' @ pad 2 k @ ''T'' @ pad 2 (S t div 3600) @ '':'' @
      pad 2 (S t div 60 mod 60) @ '':'' @ pad 2 (S t mod 60) @ ''Z''" and
    LA: "length (pad 2 m) = 2" "length (pad 2 k) = 2" "length (pad 2 (S t div 3600)) = 2"
      "length (pad 2 (S t div 60 mod 60)) = 2" "length (pad 2 (S t mod 60)) = 2"
    using fmt [of t] by blast
  obtain y' m' k' where B: "civil (D t') = (y', m', k')" "Format_RFC3339 t' =
      year_str y' @ ''-'' @ pad 2 m' @ ''-'' @ pad 2 k' @ ''T'' @ pad 2 (S t' div 3600) @ '':'' @
      pad 2 (S t' div 60 mod 60) @ '':'' @ pad 2 (S t' mod 60) @ ''Z''" and
    LB: "length (pad 2 m') = 2" "length (pad 2 k') = 2" "length (pad 2 (S t' div 3600)) = 2"
      "length (pad 2 (S t' div 60 mod 60)) = 2" "length (pad 2 (S t' mod 60)) = 2"
    using fmt [of t'] by blast
  have f: "y = y' \<and> m = m' \<and> k = k' \<and> S t div 3600 = S t' div 3600
      \<and> S t div 60 mod 60 = S t' div 60 mod 60 \<and> S t mod 60 = S t' mod 60"
    using rfc_fields [OF trans [OF trans [OF A(2) [symmetric] same] B(2)] LA LB] by simp
  then have "civil (D t) = civil (D t')" using A(1) B(1) by simp
  then have "D t = D t'" by (simp only: civil_inject)
  moreover have "n = n div 3600 * 3600 + n div 60 mod 60 * 60 + n mod 60" for n :: nat
  proof -
    have "n div 3600 = n div 60 div 60" by (simp add: div_mult2_eq [of n 60 60, symmetric])
    then show ?thesis
      using div_mult_mod_eq [of n 60] div_mult_mod_eq [of "n div 60" 60] by linarith
  qed
  then have "S t = S t'" using f by metis
  ultimately have "D t * 86400 + int (S t) = D t' * 86400 + int (S t')" by simp
  then show "t div Second = t' div Second" by (simp add: D_def S_def)
qed (simp add: Format_RFC3339_def)

end
