(* ===== verification/ObjectStore.thy ===== *)
theory ObjectStore
  imports Service Calendar
begin

text \<open>
  \<^verbatim>\<open>internal/objects/store.go\<close>: the statements on \<^verbatim>\<open>object_records\<close>. For each method there is
  the effect of its SQL text on the database (\<open>sql_...\<close>) and the method itself, which runs it
  and wraps the error.
\<close>

section \<open>The SQL texts\<close>

definition sql_upsert :: "int \<Rightarrow> string \<Rightarrow> string \<Rightarrow> int \<Rightarrow> string option \<Rightarrow> string option \<Rightarrow> int \<Rightarrow> time \<Rightarrow>
    tenant_db \<Rightarrow> tenant_db" where
  "sql_upsert bucketID bucketName key sz etag contentType userID at d =
     d\<lparr>object_records := tab_upsert object_key
       \<lparr>o_bucket_id = bucketID, o_bucket_name = bucketName, o_object_key = key, o_size = Some sz,
        o_etag = etag, o_content_type = contentType, o_storage_class = None,
        o_created_by = Some userID, o_updated_by = Some userID, o_last_seen_at = Some at,
        o_created_at = at, o_updated_at = at\<rparr>
       (\<lambda>r. r\<lparr>o_size := Some sz, o_etag := etag, o_content_type := contentType,
          o_updated_by := Some userID, o_last_seen_at := Some at, o_updated_at := at\<rparr>)
       (object_records d)\<rparr>"

definition sql_upsert_seen :: "int \<Rightarrow> string \<Rightarrow> string \<Rightarrow> int \<Rightarrow> string option \<Rightarrow> string option \<Rightarrow> time \<Rightarrow>
    tenant_db \<Rightarrow> tenant_db" where
  "sql_upsert_seen bucketID bucketName key sz etag storageClass seenAt d =
     d\<lparr>object_records := tab_upsert object_key
       \<lparr>o_bucket_id = bucketID, o_bucket_name = bucketName, o_object_key = key, o_size = Some sz,
        o_etag = etag, o_content_type = None, o_storage_class = storageClass,
        o_created_by = None, o_updated_by = None, o_last_seen_at = Some seenAt,
        o_created_at = seenAt, o_updated_at = seenAt\<rparr>
       (\<lambda>r. r\<lparr>o_size := Some sz, o_etag := etag, o_storage_class := storageClass,
          o_last_seen_at := Some seenAt, o_updated_at := seenAt\<rparr>)
       (object_records d)\<rparr>"

definition sql_purge_unseen :: "int \<Rightarrow> time \<Rightarrow> tenant_db \<Rightarrow> tenant_db" where
  "sql_purge_unseen bucketID seenAt d =
     d\<lparr>object_records := tab_delete
       (\<lambda>r. o_bucket_id r = bucketID \<and> (case o_last_seen_at r of None \<Rightarrow> True | Some t \<Rightarrow> t < seenAt))
       (object_records d)\<rparr>"

definition sql_delete_object :: "int \<Rightarrow> string \<Rightarrow> tenant_db \<Rightarrow> tenant_db" where
  "sql_delete_object bucketID key d =
     d\<lparr>object_records := tab_delete (\<lambda>r. o_bucket_id r = bucketID \<and> o_object_key r = key) (object_records d)\<rparr>"

text \<open>The update of \<^verbatim>\<open>MoveKey\<close>, with the number of rows affected.\<close>

definition sql_rename_object :: "int \<Rightarrow> string \<Rightarrow> string \<Rightarrow> int \<Rightarrow> string option \<Rightarrow> string option \<Rightarrow> int \<Rightarrow> time \<Rightarrow>
    tenant_db \<Rightarrow> nat \<times> tenant_db" where
  "sql_rename_object bucketID src dst sz etag contentType userID at d =
     (length (filter (\<lambda>r. o_bucket_id r = bucketID \<and> o_object_key r = src) (object_records d)),
      d\<lparr>object_records := tab_update (\<lambda>r. o_bucket_id r = bucketID \<and> o_object_key r = src)
        (\<lambda>r. r\<lparr>o_object_key := dst, o_size := Some sz, o_etag := etag, o_content_type := contentType,
           o_updated_by := Some userID, o_last_seen_at := Some at, o_updated_at := at\<rparr>)
        (object_records d)\<rparr>)"

definition sql_insert_object :: "int \<Rightarrow> string \<Rightarrow> string \<Rightarrow> int \<Rightarrow> string option \<Rightarrow> string option \<Rightarrow> int \<Rightarrow> time \<Rightarrow>
    tenant_db \<Rightarrow> tenant_db" where
  "sql_insert_object bucketID bucketName key sz etag contentType userID at d =
     d\<lparr>object_records := object_records d @
       [\<lparr>o_bucket_id = bucketID, o_bucket_name = bucketName, o_object_key = key, o_size = Some sz,
         o_etag = etag, o_content_type = contentType, o_storage_class = None,
         o_created_by = Some userID, o_updated_by = Some userID, o_last_seen_at = Some at,
         o_created_at = at, o_updated_at = at\<rparr>]\<rparr>"

text \<open>Rows whose key is neither below nor equal to one of the two hidden prefixes.\<close>

definition sql_is_live :: "string \<Rightarrow> bool" where
  "sql_is_live key \<longleftrightarrow> \<not> sql_like ''.trash/%'' key \<and> key \<noteq> ''.trash/''
     \<and> \<not> sql_like ''.versions/%'' key \<and> key \<noteq> ''.versions/''"

text \<open>\<^verbatim>\<open>ORDER BY object_key\<close> in the order of the database.\<close>

fun insert_by_key :: "(string \<Rightarrow> string \<Rightarrow> bool) \<Rightarrow> object_row \<Rightarrow> object_row list \<Rightarrow> object_row list" where
  "insert_by_key le r [] = [r]"
| "insert_by_key le r (r' # rows) =
     (if le (o_object_key r) (o_object_key r') then r # r' # rows else r' # insert_by_key le r rows)"

fun order_by_key :: "(string \<Rightarrow> string \<Rightarrow> bool) \<Rightarrow> object_row list \<Rightarrow> object_row list" where
  "order_by_key le [] = []"
| "order_by_key le (r # rows) = insert_by_key le r (order_by_key le rows)"

definition seen_or_updated :: "object_row \<Rightarrow> time" where
  "seen_or_updated r = (case o_last_seen_at r of None \<Rightarrow> o_updated_at r | Some t \<Rightarrow> t)"

definition coalesce0 :: "int option \<Rightarrow> int" where
  "coalesce0 n = (case n of None \<Rightarrow> 0 | Some n \<Rightarrow> n)"

section \<open>The methods\<close>

definition Objects_ListPrefix :: "'e ext \<Rightarrow> int \<Rightarrow> string \<Rightarrow> string \<Rightarrow> int \<Rightarrow> ('e, object_record list) io" where
  "Objects_ListPrefix x bucketID pfx after limit =
     wrap_err ''list objects'' (sql_query x (\<lambda>_ d.
       map (\<lambda>r. \<lparr>r_Key = o_object_key r, r_Size = coalesce0 (o_size r), r_ContentType = o_content_type r,
               r_ETag = o_etag r, r_StorageClass = None, r_UploadedBy = o_created_by r,
               r_LastModified = Some (Format_RFC3339 (seen_or_updated r)), r_CreatedAt = None,
               r_UpdatedAt = None, r_Username = None\<rparr>)
         (take (nat limit) (order_by_key (collate x) (filter (\<lambda>r. o_bucket_id r = bucketID
            \<and> sql_like (likePrefix pfx) (o_object_key r) \<and> \<not> collate x (o_object_key r) after
            \<and> sql_is_live (o_object_key r)) (object_records d))))))"

record ObjectItem =
  i_Key :: string
  i_Size :: int
  i_ContentType :: "string option"
  i_LastModified :: "string option"
  i_ETag :: "string option"

definition Objects_Folded :: "'e ext \<Rightarrow> int \<Rightarrow> string \<Rightarrow> string \<Rightarrow> int \<Rightarrow>
    ('e, ObjectItem list \<times> string list \<times> string option \<times> bool) io" where
  "Objects_Folded x bucketID pfx after maxKeys =
     (let maxKeys = (if maxKeys < 1 then 1 else maxKeys);
          maxKeys = (if maxKeys > maxListKeys then maxListKeys else maxKeys) in
      bind (Objects_ListPrefix x bucketID pfx after scanCap) (\<lambda>recs.
        case foldList pfx maxKeys recs (int (length recs) = scanCap) of (items, commons, token, truncated) \<Rightarrow>
          ret (map (\<lambda>r. \<lparr>i_Key = r_Key r, i_Size = r_Size r, i_ContentType = r_ContentType r,
                       i_LastModified = r_LastModified r, i_ETag = r_ETag r\<rparr>) items,
               commons, token, truncated)))"

definition Objects_Exists :: "'e ext \<Rightarrow> int \<Rightarrow> string \<Rightarrow> ('e, bool) io" where
  "Objects_Exists x bucketID key =
     wrap_err ''object exists'' (sql_query x (\<lambda>_ d.
       \<exists>r \<in> set (object_records d). o_bucket_id r = bucketID \<and> o_object_key r = key))"

definition Objects_Get :: "'e ext \<Rightarrow> int \<Rightarrow> string \<Rightarrow> ('e, object_record option) io" where
  "Objects_Get x bucketID key =
     wrap_err ''get object'' (sql_query x (\<lambda>_ d.
       map_option (\<lambda>r. \<lparr>r_Key = o_object_key r, r_Size = coalesce0 (o_size r),
           r_ContentType = o_content_type r, r_ETag = o_etag r, r_StorageClass = o_storage_class r,
           r_UploadedBy = o_created_by r,
           r_LastModified = Some (Format_RFC3339 (seen_or_updated r)),
           r_CreatedAt = Some (Format_RFC3339 (o_created_at r)),
           r_UpdatedAt = Some (Format_RFC3339 (o_updated_at r)),
           r_Username = (case o_created_by r of None \<Rightarrow> None
              | Some u \<Rightarrow> map_option usr_username (find (\<lambda>w. usr_id w = u) (tenant_users d)))\<rparr>)
         (find (\<lambda>r. o_bucket_id r = bucketID \<and> o_object_key r = key) (object_records d))))"

definition Objects_Upsert :: "'e ext \<Rightarrow> int \<Rightarrow> string \<Rightarrow> string \<Rightarrow> int \<Rightarrow> string option \<Rightarrow> string option \<Rightarrow>
    int \<Rightarrow> time \<Rightarrow> ('e, unit) io" where
  "Objects_Upsert x bucketID bucketName key sz etag contentType userID at =
     wrap_err ''upsert object''
       (sql_exec x (\<lambda>_. sql_upsert bucketID bucketName key sz etag contentType userID at))"

definition Objects_ListTrash :: "'e ext \<Rightarrow> int \<Rightarrow> string \<Rightarrow> string \<Rightarrow> int \<Rightarrow> ('e, object_record list) io" where
  "Objects_ListTrash x bucketID pfx after limit =
     wrap_err ''list trash'' (sql_query x (\<lambda>_ d.
       map (\<lambda>r. \<lparr>r_Key = o_object_key r, r_Size = coalesce0 (o_size r), r_ContentType = o_content_type r,
               r_ETag = None, r_StorageClass = None, r_UploadedBy = None,
               r_LastModified = Some (Format_RFC3339 (seen_or_updated r)), r_CreatedAt = None,
               r_UpdatedAt = None, r_Username = None\<rparr>)
         (take (nat limit) (order_by_key (collate x) (filter (\<lambda>r. o_bucket_id r = bucketID
            \<and> sql_like (likePrefix (TrashPrefix @ pfx)) (o_object_key r)
            \<and> \<not> collate x (o_object_key r) after) (object_records d))))))"

definition Objects_ListLiveKeys :: "'e ext \<Rightarrow> int \<Rightarrow> string \<Rightarrow> ('e, string list) io" where
  "Objects_ListLiveKeys x bucketID pfx =
     wrap_err ''list live keys'' (sql_query x (\<lambda>_ d.
       map o_object_key (order_by_key (collate x) (filter (\<lambda>r. o_bucket_id r = bucketID
         \<and> sql_like (likePrefix pfx) (o_object_key r) \<and> sql_is_live (o_object_key r)) (object_records d)))))"

definition Objects_Delete :: "'e ext \<Rightarrow> int \<Rightarrow> string \<Rightarrow> ('e, unit) io" where
  "Objects_Delete x bucketID key =
     wrap_err ''delete object'' (sql_exec x (\<lambda>_. sql_delete_object bucketID key))"

definition Objects_MoveKey :: "'e ext \<Rightarrow> int \<Rightarrow> string \<Rightarrow> string \<Rightarrow> string \<Rightarrow> int \<Rightarrow> string option \<Rightarrow>
    string option \<Rightarrow> int \<Rightarrow> time \<Rightarrow> ('e, unit) io" where
  "Objects_MoveKey x bucketID bucketName src dst sz etag contentType userID at =
     sql_transaction x (wrap_err ''move object begin'') (wrap_err ''move object commit'')
       (bind (wrap_err ''move object drop dest'' (sql_exec x (\<lambda>_. sql_delete_object bucketID dst))) (\<lambda>_.
        bind (wrap_err ''move object''
            (sql_stmt x (\<lambda>_. sql_rename_object bucketID src dst sz etag contentType userID at))) (\<lambda>rowsAffected.
        if rowsAffected = 0
        then wrap_err ''move object insert''
          (sql_exec x (\<lambda>_. sql_insert_object bucketID bucketName dst sz etag contentType userID at))
        else ret ())))"

definition Objects_UpsertSeen :: "'e ext \<Rightarrow> int \<Rightarrow> string \<Rightarrow> string \<Rightarrow> int \<Rightarrow> string option \<Rightarrow> string option \<Rightarrow>
    time \<Rightarrow> ('e, unit) io" where
  "Objects_UpsertSeen x bucketID bucketName key sz etag storageClass seenAt =
     wrap_err ''upsert seen''
       (sql_exec x (\<lambda>_. sql_upsert_seen bucketID bucketName key sz etag storageClass seenAt))"

definition Objects_PurgeUnseen :: "'e ext \<Rightarrow> int \<Rightarrow> time \<Rightarrow> ('e, unit) io" where
  "Objects_PurgeUnseen x bucketID seenAt =
     wrap_err ''purge unseen'' (sql_exec x (\<lambda>_. sql_purge_unseen bucketID seenAt))"

record TrashObject =
  t_BucketID :: int
  t_BucketName :: string
  t_Key :: string

definition expired_trash_row :: "int \<Rightarrow> int \<Rightarrow> time \<Rightarrow> object_row \<Rightarrow> bool" where
  "expired_trash_row days bucketID t r \<longleftrightarrow>
     sql_like ''.trash/%'' (o_object_key r) \<and> o_object_key r \<noteq> ''.trash/''
     \<and> seen_or_updated r < t - days * Day \<and> (bucketID > 0 \<longrightarrow> o_bucket_id r = bucketID)"

definition Objects_expiredTrash :: "'e ext \<Rightarrow> int \<Rightarrow> int \<Rightarrow> ('e, TrashObject list) io" where
  "Objects_expiredTrash x days bucketID =
     wrap_err ''expired trash'' (sql_query x (\<lambda>t d.
       map (\<lambda>r. \<lparr>t_BucketID = o_bucket_id r, t_BucketName = o_bucket_name r, t_Key = o_object_key r\<rparr>)
         (filter (expired_trash_row days bucketID t) (object_records d))))"

definition Objects_ExpiredTrash :: "'e ext \<Rightarrow> int \<Rightarrow> ('e, TrashObject list) io" where
  "Objects_ExpiredTrash x days = Objects_expiredTrash x days 0"

definition Objects_ExpiredTrashInBucket :: "'e ext \<Rightarrow> int \<Rightarrow> int \<Rightarrow> ('e, TrashObject list) io" where
  "Objects_ExpiredTrashInBucket x days bucketID = Objects_expiredTrash x days bucketID"

section \<open>Facts about the SQL texts\<close>

lemma sql_is_live_iff: "sql_is_live key \<longleftrightarrow> \<not> prefix TrashPrefix key \<and> \<not> prefix VersionPrefix key"
proof -
  have "sql_like ''.trash/%'' key = prefix ''.trash/'' key" "sql_like ''.versions/%'' key = prefix ''.versions/'' key"
    using sql_like_literal [of "''.trash/''" key] sql_like_literal [of "''.versions/''" key]
    by (simp_all add: plain_char_def)
  then show ?thesis by (auto simp: sql_is_live_def TrashPrefix_def VersionPrefix_def)
qed

lemma sql_like_trash: "sql_like ''.trash/%'' key \<longleftrightarrow> prefix TrashPrefix key"
  using sql_like_literal [of "''.trash/''" key] by (simp add: plain_char_def TrashPrefix_def)

lemma object_key_eq: "(\<lambda>r. o_bucket_id r = bid \<and> o_object_key r = key) = (\<lambda>r. object_key r = (bid, key))"
  by (simp add: fun_eq_iff object_key_def)

lemma object_key_simps [tab_simps]:
  "object_key (r\<lparr>o_size := a\<rparr>) = object_key r" "object_key (r\<lparr>o_etag := b\<rparr>) = object_key r"
  "object_key (r\<lparr>o_content_type := b\<rparr>) = object_key r" "object_key (r\<lparr>o_storage_class := b\<rparr>) = object_key r"
  "object_key (r\<lparr>o_updated_by := a\<rparr>) = object_key r" "object_key (r\<lparr>o_last_seen_at := a\<rparr>) = object_key r"
  "object_key (r\<lparr>o_updated_at := n\<rparr>) = object_key r"
  by (simp_all add: object_key_def)

lemma db_wf_objects: "db_wf d \<Longrightarrow> tab_wf object_key (object_records d)"
  by (simp add: db_wf_def)

lemma db_wf_update_objects:
  "db_wf d \<Longrightarrow> tab_wf object_key rows \<Longrightarrow> db_wf (d\<lparr>object_records := rows\<rparr>)"
  by (simp add: db_wf_def)

text \<open>\<^verbatim>\<open>object_records\<close> as a keyed table: what a key finds after each statement.\<close>

record upsert_vals =
  uv_bucketName :: string
  uv_size :: int
  uv_etag :: "string option"
  uv_contentType :: "string option"
  uv_userID :: int
  uv_at :: time

record seen_vals =
  sv_bucketName :: string
  sv_size :: int
  sv_etag :: "string option"
  sv_storageClass :: "string option"
  sv_seenAt :: time

definition put_upsert :: "int \<times> string \<Rightarrow> upsert_vals \<Rightarrow> tenant_db \<Rightarrow> tenant_db" where
  "put_upsert k v = sql_upsert (fst k) (uv_bucketName v) (snd k) (uv_size v) (uv_etag v) (uv_contentType v)
     (uv_userID v) (uv_at v)"

definition put_seen :: "int \<times> string \<Rightarrow> seen_vals \<Rightarrow> tenant_db \<Rightarrow> tenant_db" where
  "put_seen k v = sql_upsert_seen (fst k) (sv_bucketName v) (snd k) (sv_size v) (sv_etag v) (sv_storageClass v) (sv_seenAt v)"

definition lookup_object :: "tenant_db \<Rightarrow> int \<times> string \<Rightarrow> object_row option" where
  "lookup_object d k = find_object d (fst k) (snd k)"

definition delete_key :: "int \<times> string \<Rightarrow> tenant_db \<Rightarrow> tenant_db" where
  "delete_key k = sql_delete_object (fst k) (snd k)"

definition row_after_upsert :: "int \<times> string \<Rightarrow> upsert_vals \<Rightarrow> object_row option \<Rightarrow> object_row" where
  "row_after_upsert k v old = (case old of
     None \<Rightarrow> \<lparr>o_bucket_id = fst k, o_bucket_name = uv_bucketName v, o_object_key = snd k, o_size = Some (uv_size v),
        o_etag = uv_etag v, o_content_type = uv_contentType v, o_storage_class = None,
        o_created_by = Some (uv_userID v), o_updated_by = Some (uv_userID v), o_last_seen_at = Some (uv_at v),
        o_created_at = uv_at v, o_updated_at = uv_at v\<rparr>
   | Some r \<Rightarrow> r\<lparr>o_size := Some (uv_size v), o_etag := uv_etag v, o_content_type := uv_contentType v,
        o_updated_by := Some (uv_userID v), o_last_seen_at := Some (uv_at v), o_updated_at := uv_at v\<rparr>)"

definition row_after_seen :: "int \<times> string \<Rightarrow> seen_vals \<Rightarrow> object_row option \<Rightarrow> object_row" where
  "row_after_seen k v old = (case old of
     None \<Rightarrow> \<lparr>o_bucket_id = fst k, o_bucket_name = sv_bucketName v, o_object_key = snd k, o_size = Some (sv_size v),
        o_etag = sv_etag v, o_content_type = None, o_storage_class = sv_storageClass v,
        o_created_by = None, o_updated_by = None, o_last_seen_at = Some (sv_seenAt v),
        o_created_at = sv_seenAt v, o_updated_at = sv_seenAt v\<rparr>
   | Some r \<Rightarrow> r\<lparr>o_size := Some (sv_size v), o_etag := sv_etag v, o_storage_class := sv_storageClass v,
        o_last_seen_at := Some (sv_seenAt v), o_updated_at := sv_seenAt v\<rparr>)"

lemma db_wf_delete_key: "db_wf d \<Longrightarrow> db_wf (delete_key k d)"
  unfolding delete_key_def sql_delete_object_def
  by (intro db_wf_update_objects tab_wf_delete db_wf_objects)

lemma lookup_delete_key: "lookup_object (delete_key k d) k' = (if k' = k then None else lookup_object d k')"
  by (simp add: delete_key_def sql_delete_object_def lookup_object_def find_object_def object_key_eq tab_simps)

interpretation ups: keyed_store_delete lookup_object put_upsert db_wf row_after_upsert delete_key
proof unfold_locales
  show "db_wf (put_upsert k v d)" if "db_wf d" for k v d
    using that unfolding put_upsert_def sql_upsert_def
    by (intro db_wf_update_objects tab_wf_upsert db_wf_objects) (simp_all add: tab_simps)
  show "lookup_object (put_upsert k v d) k' = (if k' = k then Some (row_after_upsert k v (lookup_object d k)) else lookup_object d k')"
    for k v d k'
    by (cases k) (auto simp: put_upsert_def sql_upsert_def lookup_object_def find_object_def tab_find_upsert
        tab_simps object_key_def row_after_upsert_def split: option.split)
qed (simp_all add: db_wf_delete_key lookup_delete_key)

interpretation seen: keyed_store_delete lookup_object put_seen db_wf row_after_seen delete_key
proof unfold_locales
  show "db_wf (put_seen k v d)" if "db_wf d" for k v d
    using that unfolding put_seen_def sql_upsert_seen_def
    by (intro db_wf_update_objects tab_wf_upsert db_wf_objects) (simp_all add: tab_simps)
  show "lookup_object (put_seen k v d) k' = (if k' = k then Some (row_after_seen k v (lookup_object d k)) else lookup_object d k')"
    for k v d k'
    by (cases k) (auto simp: put_seen_def sql_upsert_seen_def lookup_object_def find_object_def tab_find_upsert
        tab_simps object_key_def row_after_seen_def split: option.split)
qed (simp_all add: db_wf_delete_key lookup_delete_key)

lemma db_wf_purge_unseen: "db_wf d \<Longrightarrow> db_wf (sql_purge_unseen bid t d)"
  unfolding sql_purge_unseen_def by (intro db_wf_update_objects tab_wf_delete db_wf_objects)

lemma lookup_purge_unseen:
  "db_wf d \<Longrightarrow> lookup_object (sql_purge_unseen bid t d) k =
     (case lookup_object d k of None \<Rightarrow> None
      | Some r \<Rightarrow> if fst k = bid \<and> (o_last_seen_at r = None \<or> the (o_last_seen_at r) < t) then None else Some r)"
  using tab_find_SomeD [of object_key "object_records d" k]
  by (cases k) (auto simp: sql_purge_unseen_def lookup_object_def find_object_def db_wf_objects tab_find_delete
      object_key_def split: option.splits)

section \<open>MoveKey\<close>

text \<open>The effect of a committed \<^verbatim>\<open>MoveKey\<close>.\<close>

definition move_effect :: "int \<Rightarrow> string \<Rightarrow> string \<Rightarrow> string \<Rightarrow> int \<Rightarrow> string option \<Rightarrow> string option \<Rightarrow> int \<Rightarrow> time \<Rightarrow>
    tenant_db \<Rightarrow> tenant_db" where
  "move_effect bid bname src dst sz etag ct uid at d =
     (let d1 = sql_delete_object bid dst d;
          (n, d2) = sql_rename_object bid src dst sz etag ct uid at d1
      in if n = 0 then sql_insert_object bid bname dst sz etag ct uid at d2 else d2)"

lemma tab_update_none: "filter P rows = [] \<Longrightarrow> tab_update P f rows = rows"
  by (induction rows) (auto simp: tab_update_def split: if_splits)

text \<open>\<^verbatim>\<open>MoveKey\<close> is atomic: it either takes its whole effect or none, and a success is the effect.\<close>

lemma Objects_MoveKey_result:
  assumes "Objects_MoveKey x bid bname src dst sz etag ct uid at s = Some (r, s')"
  shows "(case r of Inr _ \<Rightarrow> False | Inl _ \<Rightarrow> db s' = db s) \<or> db s' = move_effect bid bname src dst sz etag ct uid at (db s)"
proof -
  let ?body = "bind (wrap_err ''move object drop dest'' (sql_exec x (\<lambda>_. sql_delete_object bid dst))) (\<lambda>_.
        bind (wrap_err ''move object'' (sql_stmt x (\<lambda>_. sql_rename_object bid src dst sz etag ct uid at))) (\<lambda>n.
        if n = 0
        then wrap_err ''move object insert'' (sql_exec x (\<lambda>_. sql_insert_object bid bname dst sz etag ct uid at))
        else ret ()))"
  have body: "db t' = move_effect bid bname src dst sz etag ct uid at (db t)"
    if "?body t = Some (Inr a, t')" for a t t'
    using that
    by (auto simp: io_evals move_effect_def Let_def split: option.splits sum.splits prod.splits sql_reply.splits if_splits)
  from assms show ?thesis
    unfolding Objects_MoveKey_def
  proof (cases rule: sql_transaction_E)
    case (committed a t t')
    then show ?thesis using body by simp
  next
    case (failed err)
    then show ?thesis by simp
  next
    case (lost err a t t')
    then show ?thesis using body by simp
  qed
qed

text \<open>
  What a moved key finds: under the destination the row of the source with the new metadata
  (or a new row when the source had none, or source and destination are the same), nothing
  under the source, and everything else as before.
\<close>

definition moved_row :: "int \<Rightarrow> string \<Rightarrow> string \<Rightarrow> int \<Rightarrow> string option \<Rightarrow> string option \<Rightarrow> int \<Rightarrow> time \<Rightarrow>
    object_row option \<Rightarrow> object_row" where
  "moved_row bid bname dst sz etag ct uid at old = (case old of
     None \<Rightarrow> \<lparr>o_bucket_id = bid, o_bucket_name = bname, o_object_key = dst, o_size = Some sz,
         o_etag = etag, o_content_type = ct, o_storage_class = None,
         o_created_by = Some uid, o_updated_by = Some uid, o_last_seen_at = Some at,
         o_created_at = at, o_updated_at = at\<rparr>
   | Some r \<Rightarrow> r\<lparr>o_object_key := dst, o_size := Some sz, o_etag := etag, o_content_type := ct,
         o_updated_by := Some uid, o_last_seen_at := Some at, o_updated_at := at\<rparr>)"

lemma find_rename:
  assumes "tab_wf object_key rows" and "dst \<notin> {k. (bid, k) \<in> object_key ` set rows}"
    and "\<And>r. object_key (f r) = (o_bucket_id r, dst)"
  shows "tab_find object_key (tab_update (\<lambda>r. object_key r = (bid, src)) f rows) (b, k) =
     (if (b, k) = (bid, dst) then map_option f (tab_find object_key rows (bid, src))
      else if (b, k) = (bid, src) then None else tab_find object_key rows (b, k))"
  using assms
proof (induction rows)
  case (Cons r rows)
  have wf: "tab_wf object_key rows" "object_key r \<notin> object_key ` set rows"
    using Cons.prems(1) by (auto simp: tab_wf_def)
  have nodst: "dst \<notin> {k. (bid, k) \<in> object_key ` set rows}" "object_key r \<noteq> (bid, dst)"
    using Cons.prems(2) by auto
  note IH = Cons.IH [OF wf(1) nodst(1) Cons.prems(3)]
  show ?case
  proof (cases "object_key r = (bid, src)")
    case True
    then have "tab_find object_key rows (bid, src) = None"
      using wf(2) by (simp add: tab_find_None_iff)
    moreover have "object_key (f r) = (bid, dst)" using True Cons.prems(3) by (simp add: object_key_def)
    ultimately show ?thesis using True IH by (auto simp: tab_update_def)
  next
    case False
    then show ?thesis using IH nodst(2) by (auto simp: tab_update_def)
  qed
qed (simp add: tab_update_def)

lemma tab_wf_rename:
  assumes "tab_wf object_key rows" and "dst \<notin> {k. (bid, k) \<in> object_key ` set rows}"
    and "\<And>r. object_key (f r) = (o_bucket_id r, dst)"
  shows "tab_wf object_key (tab_update (\<lambda>r. object_key r = (bid, src)) f rows)"
  using assms
proof (induction rows)
  case (Cons r rows)
  have wf: "tab_wf object_key rows" "object_key r \<notin> object_key ` set rows"
    using Cons.prems(1) by (auto simp: tab_wf_def)
  have nodst: "dst \<notin> {k. (bid, k) \<in> object_key ` set rows}" "object_key r \<noteq> (bid, dst)"
    using Cons.prems(2) by auto
  note IH = Cons.IH [OF wf(1) nodst(1) Cons.prems(3)]
  let ?rows = "tab_update (\<lambda>r. object_key r = (bid, src)) f rows"
  let ?r = "if object_key r = (bid, src) then f r else r"
  have "tab_find object_key ?rows (object_key ?r) = None"
  proof (cases "object_key r = (bid, src)")
    case True
    then have "tab_find object_key rows (bid, src) = None" using wf(2) by (simp add: tab_find_None_iff)
    then show ?thesis
      using True Cons.prems(3) find_rename [OF wf(1) nodst(1) Cons.prems(3)] by (simp add: object_key_def)
  next
    case False
    have "tab_find object_key rows (object_key r) = None" using wf(2) by (simp add: tab_find_None_iff)
    then show ?thesis
      using False nodst(2) find_rename [OF wf(1) nodst(1) Cons.prems(3), of src "fst (object_key r)" "snd (object_key r)"]
      by simp
  qed
  then have "object_key ?r \<notin> object_key ` set ?rows" by (simp only: tab_find_None_iff not_False_eq_True)
  moreover have "tab_update (\<lambda>r. object_key r = (bid, src)) f (r # rows) = ?r # ?rows"
    by (simp add: tab_update_def)
  ultimately show ?case using IH by (simp only: tab_wf_def list.map distinct.simps set_map simp_thms)
qed (simp add: tab_wf_def tab_update_def)

lemma filter_find_None: "filter (\<lambda>r. key r = k) rows = [] \<longleftrightarrow> tab_find key rows k = None"
  by (induction rows) auto

lemma move_effect_records:
  "move_effect bid bname src dst sz etag ct uid at d =
     (let rows = tab_delete (\<lambda>r. object_key r = (bid, dst)) (object_records d) in
      d\<lparr>object_records := (if tab_find object_key rows (bid, src) = None
        then rows @ [moved_row bid bname dst sz etag ct uid at None]
        else tab_update (\<lambda>r. object_key r = (bid, src)) (\<lambda>r. moved_row bid bname dst sz etag ct uid at (Some r)) rows)\<rparr>)"
  by (simp add: move_effect_def sql_delete_object_def sql_rename_object_def sql_insert_object_def Let_def
      object_key_eq moved_row_def tab_update_none filter_find_None)

lemma lookup_move_effect:
  assumes "db_wf d"
  shows "lookup_object (move_effect bid bname src dst sz etag ct uid at d) k =
     (if k = (bid, dst)
      then Some (moved_row bid bname dst sz etag ct uid at (if src = dst then None else lookup_object d (bid, src)))
      else if k = (bid, src) then None else lookup_object d k)"
proof -
  let ?rows = "tab_delete (\<lambda>r. object_key r = (bid, dst)) (object_records d)"
  have find: "tab_find object_key ?rows k = (if k = (bid, dst) then None else tab_find object_key (object_records d) k)" for k
    by (simp add: tab_simps)
  have wf: "tab_wf object_key ?rows" using assms by (simp add: tab_simps db_wf_objects)
  have nodst: "dst \<notin> {k. (bid, k) \<in> object_key ` set ?rows}"
    using find [of "(bid, dst)"] by (simp add: tab_find_None_iff)
  have new: "object_key (moved_row bid bname dst sz etag ct uid at None) = (bid, dst)"
    and moved: "\<And>r. object_key (moved_row bid bname dst sz etag ct uid at (Some r)) = (o_bucket_id r, dst)"
    by (simp_all add: moved_row_def object_key_def)
  obtain b j where k: "k = (b, j)" by (cases k)
  show ?thesis
  proof (cases "tab_find object_key ?rows (bid, src)")
    case None
    then show ?thesis
      using find new
      by (auto simp: k move_effect_records Let_def lookup_object_def find_object_def tab_find_append split: option.split)
  next
    case (Some r)
    then have "src \<noteq> dst" using find [of "(bid, src)"] by auto
    then show ?thesis
      using Some find find_rename [OF wf nodst moved, of src b j]
      by (auto simp: k move_effect_records Let_def lookup_object_def find_object_def)
  qed
qed

lemma db_wf_move_effect:
  assumes "db_wf d"
  shows "db_wf (move_effect bid bname src dst sz etag ct uid at d)"
proof -
  let ?rows = "tab_delete (\<lambda>r. object_key r = (bid, dst)) (object_records d)"
  have wf: "tab_wf object_key ?rows" using assms by (simp add: tab_simps db_wf_objects)
  have nodst: "(bid, dst) \<notin> object_key ` set ?rows"
    by (auto simp: tab_delete_def)
  have "tab_wf object_key (?rows @ [moved_row bid bname dst sz etag ct uid at None])"
  proof -
    have "object_key (moved_row bid bname dst sz etag ct uid at None) = (bid, dst)"
      by (simp add: moved_row_def object_key_def)
    then show ?thesis using wf nodst by (simp add: tab_wf_def)
  qed
  moreover have "tab_wf object_key (tab_update (\<lambda>r. object_key r = (bid, src))
      (\<lambda>r. moved_row bid bname dst sz etag ct uid at (Some r)) ?rows)"
    by (rule tab_wf_rename [OF wf]) (use nodst in \<open>simp_all add: moved_row_def object_key_def\<close>)
  ultimately show ?thesis
    using assms by (simp add: move_effect_records Let_def db_wf_update_objects)
qed

text \<open>
  \<^verbatim>\<open>MoveKey\<close> is all or nothing: with an error and no effect, or with its whole effect, after
  which the destination key finds the row of the source with its history and the new
  metadata, the source key finds nothing, every other key what it found before, and the keys
  of the table are still unique.
\<close>

theorem MoveKey_atomic:
  assumes "Objects_MoveKey x bid bname src dst sz etag ct uid at s = Some (r, s')" and "db_wf (db s)"
  shows "db_wf (db s') \<and> (r \<noteq> Inr () \<and> db s' = db s \<or>
    (\<forall>k. lookup_object (db s') k =
      (if k = (bid, dst)
       then Some (moved_row bid bname dst sz etag ct uid at (if src = dst then None else lookup_object (db s) (bid, src)))
       else if k = (bid, src) then None else lookup_object (db s) k)))"
proof -
  have "r \<noteq> Inr () \<and> db s' = db s \<or> db s' = move_effect bid bname src dst sz etag ct uid at (db s)"
    using Objects_MoveKey_result [OF assms(1)] by (cases r) auto
  then show ?thesis
    using assms(2) by (elim disjE) (simp_all add: db_wf_move_effect lookup_move_effect)
qed

theorem MoveKey_atomic_witness:
  "\<exists>s'. Objects_MoveKey demo_ext 1 ''media'' ''docs/a'' ''docs/b'' 3 None None 5 9 demo_sys = Some (Inr (), s')
     \<and> db_wf (db s') \<and> lookup_object (db s') (1, ''docs/b'') \<noteq> None"
proof -
  have "map_option fst (Objects_MoveKey demo_ext 1 ''media'' ''docs/a'' ''docs/b'' 3 None None 5 9 demo_sys) = Some (Inr ())"
    by code_simp
  then obtain s' where run: "Objects_MoveKey demo_ext 1 ''media'' ''docs/a'' ''docs/b'' 3 None None 5 9 demo_sys = Some (Inr (), s')"
    by (rule run_obtain)
  then show ?thesis
    using MoveKey_atomic [OF run] demo_db_wf by (simp add: demo_sys_def)
qed

end
