(* ===== verification/ObjectApply.thy ===== *)
theory ObjectApply
  imports ObjectStore Service
begin

text \<open>
  \<^verbatim>\<open>internal/objects/apply.go\<close>: deleting, copying and moving one object in the storage and in
  \<^verbatim>\<open>object_records\<close>. (\<open>DeleteKeys\<close> has the rest of the file.)
\<close>

section \<open>One object\<close>

definition ApplyDelete :: "'e ext \<Rightarrow> Client \<Rightarrow> Bucket \<Rightarrow> int \<Rightarrow> string \<Rightarrow> bool \<Rightarrow> time \<Rightarrow> ('e, unit) io" where
  "ApplyDelete x c b userID key permanent now =
     bind (HeadObject x c (BucketName b) key) (\<lambda>meta.
     if permanent
     then bind (DeleteObject x c (BucketName b) key) (\<lambda>_. Objects_Delete x (ID b) key)
     else let trashKey = ToTrashKey key in
       bind (CopyObject x c (BucketName b) trashKey (BucketName b) key) (\<lambda>_.
       bind (DeleteObject x c (BucketName b) key) (\<lambda>_.
       Objects_MoveKey x (ID b) (BucketName b) key trashKey (m_Size meta) (m_ETag meta) (m_ContentType meta)
         userID now)))"

definition rejectIfExists :: "'e ext \<Rightarrow> Client \<Rightarrow> string \<Rightarrow> string \<Rightarrow> ('e, unit) io" where
  "rejectIfExists x c bucket key =
     attempt (HeadObject x c bucket key) (\<lambda>r. case r of
       Inr _ \<Rightarrow> throw ErrDestExists
     | Inl err \<Rightarrow> (if errors_Is err ErrNotFound then ret () else throw err))"

definition ApplyCopy :: "'e ext \<Rightarrow> Client \<Rightarrow> Bucket \<Rightarrow> Bucket \<Rightarrow> int \<Rightarrow> string \<Rightarrow> string \<Rightarrow> time \<Rightarrow> ('e, unit) io" where
  "ApplyCopy x c src dest userID srcKey destKey now =
     bind (rejectIfExists x c (BucketName dest) destKey) (\<lambda>_.
     bind (HeadObject x c (BucketName src) srcKey) (\<lambda>meta.
     bind (CopyObject x c (BucketName dest) destKey (BucketName src) srcKey) (\<lambda>etag.
     Objects_Upsert x (ID dest) (BucketName dest) destKey (m_Size meta) etag (m_ContentType meta) userID now)))"

definition ApplyMove :: "'e ext \<Rightarrow> Client \<Rightarrow> Bucket \<Rightarrow> int \<Rightarrow> string \<Rightarrow> string \<Rightarrow> time \<Rightarrow> ('e, unit) io" where
  "ApplyMove x c b userID src dest now =
     bind (if src \<noteq> dest then rejectIfExists x c (BucketName b) dest else ret ()) (\<lambda>_.
     bind (HeadObject x c (BucketName b) src) (\<lambda>meta.
     bind (CopyObject x c (BucketName b) dest (BucketName b) src) (\<lambda>etag.
     bind (DeleteObject x c (BucketName b) src) (\<lambda>_.
     Objects_MoveKey x (ID b) (BucketName b) src dest (m_Size meta) etag (m_ContentType meta) userID now))))"

text \<open>\<open>None\<close> is \<^verbatim>\<open>nil\<close>.\<close>

definition CopyErr :: "go_error option \<Rightarrow> string" where
  "CopyErr err = (case err of
     None \<Rightarrow> ''unknown error''
   | Some e \<Rightarrow>
       if errors_Is e ErrDestExists then error_text ErrDestExists
       else if errors_Is e ErrNotFound then ''Object not found''
       else error_text e)"

section \<open>The operations under the contract of the storage service\<close>

lemma Objects_MoveKey_view:
  "s3_contract x cfg decode view \<Longrightarrow> io_rel (same_view view) (Objects_MoveKey x bid bname src dst sz etag ct uid at)"
  unfolding Objects_MoveKey_def
  by (rule sql_transaction_view) (auto intro!: sameview.respects_rules sql_stmt_view sql_exec_view)

lemma rejectIfExists_view:
  assumes "s3_contract x (c_s3 c) decode view" and "rejectIfExists x c b k s = Some (r, s')"
  shows "view (env s') = view (env s) \<and> db s' = db s \<and> (r = Inr () \<longrightarrow> view (env s) b k = None)"
  using assms(2) HeadObject_view [OF assms(1), of b k s]
  by (fastforce simp: rejectIfExists_def ret_apply throw_apply split: sum.splits if_splits elim!: attempt_E)

section \<open>The stages of the operations on one object\<close>

text \<open>
  Whatever fails, relocating an object (copy, delete the source, move the row) stops at one of
  three stages: nothing done, the object copied, or the object moved in the storage. Only the
  last can be a success, and the database row is moved only then.
\<close>

definition relocation_outcome :: "int \<Rightarrow> string \<Rightarrow> string \<Rightarrow> string \<Rightarrow> int \<Rightarrow> time \<Rightarrow> 'o view \<Rightarrow> tenant_db \<Rightarrow>
    go_error + unit \<Rightarrow> 'o view \<Rightarrow> tenant_db \<Rightarrow> bool" where
  "relocation_outcome bid B src dst uid now V d r V' d' \<longleftrightarrow>
     (\<exists>err. r = Inl err) \<and> V' = V \<and> d' = d \<or>
     (\<exists>v. V B src = Some v \<and>
       ((\<exists>err. r = Inl err) \<and> V' = view_set V B dst (Some v) \<and> d' = d \<or>
        V' = view_set (view_set V B dst (Some v)) B src None \<and>
        ((\<exists>err. r = Inl err) \<and> d' = d \<or>
         (\<exists>sz etag ct. d' = move_effect bid B src dst sz etag ct uid now d))))"

lemma relocation_stages:
  assumes con: "s3_contract x (c_s3 c) decode view" and plain: "plain_source decode B src"
    and run: "bind (CopyObject x c B dst B src) (\<lambda>etag. bind (DeleteObject x c B src) (\<lambda>_.
       Objects_MoveKey x bid B src dst sz (f etag) ct uid now)) s = Some (r, s')"
  shows "relocation_outcome bid B src dst uid now (view (env s)) (db s) r (view (env s')) (db s')"
  using run
proof (cases rule: bind_E)
  case (stop err)
  from CopyObject_view [OF con plain stop(1)] show ?thesis by (auto simp: relocation_outcome_def stop(2))
next
  case (go etag t2)
  from CopyObject_view [OF con plain go(1)] obtain v where
    v: "view (env s) B src = Some v" "view (env t2) = view_set (view (env s)) B dst (Some v)" "db t2 = db s"
    by auto
  from go(2) show ?thesis
  proof (cases rule: bind_E)
    case (stop err)
    from DeleteObject_view [OF con stop(1)] v show ?thesis by (auto simp: relocation_outcome_def stop(2))
  next
    case (go u t3)
    from DeleteObject_view [OF con go(1)] v have
      t3: "view (env t3) = view_set (view_set (view (env s)) B dst (Some v)) B src None" "db t3 = db s" by auto
    have "view (env s') = view (env t3)"
      using io_relD [OF Objects_MoveKey_view [OF con] go(2)] by (simp add: same_view_def)
    then show ?thesis
      using Objects_MoveKey_result [OF go(2)] t3 v(1) by (cases r) (auto simp: relocation_outcome_def)
  qed
qed

lemma ApplyDelete_soft_stages:
  assumes con: "s3_contract x (c_s3 c) decode view" and plain: "plain_source decode (BucketName b) key"
    and run: "ApplyDelete x c b uid key False now s = Some (r, s')"
  shows "relocation_outcome (ID b) (BucketName b) key (ToTrashKey key) uid now (view (env s)) (db s) r (view (env s')) (db s')"
  using run unfolding ApplyDelete_def
proof (cases rule: bind_E)
  case (stop err)
  then show ?thesis using HeadObject_view [OF con stop(1)] by (simp add: relocation_outcome_def)
next
  case (go meta t)
  then show ?thesis
    using HeadObject_view [OF con go(1)]
      relocation_stages [OF con plain, of "ToTrashKey key" "ID b" "m_Size meta" "\<lambda>_. m_ETag meta" "m_ContentType meta" uid now t]
    by (simp add: Let_def)
qed

lemma ApplyMove_stages:
  assumes con: "s3_contract x (c_s3 c) decode view" and plain: "plain_source decode (BucketName b) src"
    and run: "ApplyMove x c b uid src dest now s = Some (r, s')"
  shows "relocation_outcome (ID b) (BucketName b) src dest uid now (view (env s)) (db s) r (view (env s')) (db s')"
    and "view (env s) (BucketName b) dest \<noteq> None \<Longrightarrow> src \<noteq> dest \<Longrightarrow>
      (\<exists>err. r = Inl err) \<and> view (env s') = view (env s) \<and> db s' = db s"
proof -
  let ?check = "if src \<noteq> dest then rejectIfExists x c (BucketName b) dest else ret ()"
  have check: "view (env t) = view (env s) \<and> db t = db s \<and>
      (q = Inr () \<longrightarrow> src \<noteq> dest \<longrightarrow> view (env s) (BucketName b) dest = None)"
    if "?check s = Some (q, t)" for q t
    using that rejectIfExists_view [OF con, of "BucketName b" dest s] by (auto simp: ret_apply split: if_splits)
  have "relocation_outcome (ID b) (BucketName b) src dest uid now (view (env s)) (db s) r (view (env s')) (db s') \<and>
    (view (env s) (BucketName b) dest \<noteq> None \<longrightarrow> src \<noteq> dest \<longrightarrow>
      (\<exists>err. r = Inl err) \<and> view (env s') = view (env s) \<and> db s' = db s)"
    using run unfolding ApplyMove_def
  proof (cases rule: bind_E)
    case (stop err)
    then show ?thesis using check by (simp add: relocation_outcome_def)
  next
    case (go u t)
    note t = check [OF go(1)]
    from go(2) show ?thesis
    proof (cases rule: bind_E)
      case (stop err)
      then show ?thesis using t HeadObject_view [OF con stop(1)] by (simp add: relocation_outcome_def)
    next
      case (go meta t2)
      then show ?thesis
        using t HeadObject_view [OF con go(1)]
          relocation_stages [OF con plain, of dest "ID b" "m_Size meta" "\<lambda>etag. etag" "m_ContentType meta" uid now t2]
        by auto
    qed
  qed
  then show "relocation_outcome (ID b) (BucketName b) src dest uid now (view (env s)) (db s) r (view (env s')) (db s')"
    and "view (env s) (BucketName b) dest \<noteq> None \<Longrightarrow> src \<noteq> dest \<Longrightarrow>
      (\<exists>err. r = Inl err) \<and> view (env s') = view (env s) \<and> db s' = db s"
    by blast+
qed

lemma Objects_Upsert_result:
  assumes "s3_contract x cfg decode view"
    and "Objects_Upsert x bid bname key sz etag ct uid at s = Some (r, s')"
  shows "view (env s') = view (env s) \<and>
    (db s' = sql_upsert bid bname key sz etag ct uid at (db s) \<or> (\<exists>err. r = Inl err) \<and> db s' = db s)"
proof -
  have "view (env s') = view (env s)"
    using io_relD [OF sameview.respects_wrap_err [OF sql_exec_view [OF assms(1)]]] assms(2)
    unfolding Objects_Upsert_def same_view_def by blast
  then show ?thesis
    using assms(2) by (auto simp: Objects_Upsert_def io_evals split: prod.splits sql_reply.splits)
qed

text \<open>A copy writes one object that was not there and its row, or nothing, or the object alone.\<close>

lemma ApplyCopy_stages:
  assumes con: "s3_contract x (c_s3 c) decode view" and plain: "plain_source decode (BucketName src) srcKey"
    and run: "ApplyCopy x c src dest uid srcKey destKey now s = Some (r, s')"
  shows "(\<exists>err. r = Inl err) \<and> view (env s') = view (env s) \<and> db s' = db s \<or>
    (\<exists>v. view (env s) (BucketName src) srcKey = Some v \<and> view (env s) (BucketName dest) destKey = None \<and>
      view (env s') = view_set (view (env s)) (BucketName dest) destKey (Some v) \<and>
      ((\<exists>err. r = Inl err) \<and> db s' = db s \<or>
       (\<exists>sz etag ct. db s' = sql_upsert (ID dest) (BucketName dest) destKey sz etag ct uid now (db s))))"
  using run unfolding ApplyCopy_def
proof (cases rule: bind_E)
  case (stop err)
  then show ?thesis using rejectIfExists_view [OF con stop(1)] by simp
next
  case (go u t)
  note t = rejectIfExists_view [OF con go(1)]
  from go(2) show ?thesis
  proof (cases rule: bind_E)
    case (stop err)
    then show ?thesis using t HeadObject_view [OF con stop(1)] by simp
  next
    case (go meta t2)
    note t2 = HeadObject_view [OF con go(1)]
    from go(2) show ?thesis
    proof (cases rule: bind_E)
      case (stop err)
      then show ?thesis using t t2 CopyObject_view [OF con plain stop(1)] by auto
    next
      case (go etag t3)
      then show ?thesis
        using t t2 CopyObject_view [OF con plain go(1)] Objects_Upsert_result [OF con go(2)]
        by (cases r) auto
    qed
  qed
qed

section \<open>What happens to the objects\<close>

text \<open>What a relocation outcome says about single keys.\<close>

text \<open>When nothing fails, an object that is there is deleted.\<close>

lemma MoveKey_succeeds:
  assumes "never_fails x decode view"
  shows "\<exists>t. Objects_MoveKey x bid B src dst sz etag ct uid at s = Some (Inr (), t)"
proof -
  have "\<exists>now e'. sql x e = (SqlOk now, e')" for e using assms by (simp add: never_fails_def)
  then obtain now nxt where ok: "\<And>e. sql x e = (SqlOk (now e), nxt e)" by metis
  show ?thesis by (simp add: Objects_MoveKey_def io_evals ok split: prod.split)
qed

lemma ApplyDelete_succeeds:
  assumes con: "s3_contract x (c_s3 c) decode view" and ok: "never_fails x decode view"
    and plain: "plain_source decode (BucketName b) key" and there: "view (env s) (BucketName b) key \<noteq> None"
  shows "\<exists>t. ApplyDelete x c b uid key permanent now s = Some (Inr (), t)"
proof -
  obtain meta s1 where head: "HeadObject x c (BucketName b) key s = Some (Inr meta, s1)"
    using calls_succeed(1) [OF ok, of s "BucketName b" key c] there by blast
  have there1: "view (env s1) (BucketName b) key \<noteq> None" using HeadObject_view [OF con head] there by simp
  show ?thesis
  proof (cases permanent)
    case True
    obtain s2 where "DeleteObject x c (BucketName b) key s1 = Some (Inr (), s2)" using calls_succeed(3) [OF ok] by blast
    moreover obtain s3 where "sql_exec x (\<lambda>_. sql_delete_object (ID b) key) s2 = Some (Inr (), s3)"
      using calls_succeed(5) [OF ok] by blast
    ultimately show ?thesis using head True by (simp add: ApplyDelete_def Objects_Delete_def bind_apply wrap_err_apply)
  next
    case False
    obtain etag s2 where copy: "CopyObject x c (BucketName b) (ToTrashKey key) (BucketName b) key s1 = Some (Inr etag, s2)"
      using calls_succeed(2) [OF ok plain there1] by blast
    obtain s3 where del: "DeleteObject x c (BucketName b) key s2 = Some (Inr (), s3)" using calls_succeed(3) [OF ok] by blast
    obtain s4 where "Objects_MoveKey x (ID b) (BucketName b) key (ToTrashKey key) (m_Size meta) (m_ETag meta) (m_ContentType meta) uid now s3 =
        Some (Inr (), s4)" using MoveKey_succeeds [OF ok] by blast
    then show ?thesis using head copy del False by (simp add: ApplyDelete_def bind_apply Let_def)
  qed
qed

lemma relocation_keeps_content:
  assumes "relocation_outcome bid B src dst uid now V d r V' d'"
  shows "V B src = Some v \<Longrightarrow> src \<noteq> dst \<Longrightarrow> V' B src = Some v \<or> V' B dst = Some v"
    and "(b, k) \<noteq> (B, src) \<Longrightarrow> (b, k) \<noteq> (B, dst) \<Longrightarrow> V' b k = V b k"
    and "r = Inr () \<Longrightarrow> V B src \<noteq> None \<and> V' B src = None \<and> (src \<noteq> dst \<longrightarrow> V' B dst = V B src)"
    and "r = Inr () \<Longrightarrow> \<exists>sz etag ct. d' = move_effect bid B src dst sz etag ct uid now d"
    and "d' \<noteq> d \<Longrightarrow> V' B src = None"
  using assms by (auto simp: relocation_outcome_def view_set_def)

lemma lookup_moved:
  assumes "db_wf d" and "d' = move_effect bid B src dst sz etag ct uid now d"
  shows "lookup_object d' (bid, dst) \<noteq> None"
    and "src \<noteq> dst \<Longrightarrow> lookup_object d' (bid, src) = None"
    and "k \<noteq> (bid, src) \<Longrightarrow> k \<noteq> (bid, dst) \<Longrightarrow> lookup_object d' k = lookup_object d k"
  using assms by (simp_all add: lookup_move_effect)

section \<open>While others use the service\<close>

text \<open>An operation that no other writer disturbs on its keys is an operation on a service with these keys alone.\<close>

lemma only_for_ApplyDelete:
  assumes "{(BucketName b, key), (BucketName b, ToTrashKey key)} \<subseteq> K" and "plain_source decode (BucketName b) key"
  shows "ApplyDelete (only_for K decode x) c b uid key False now = ApplyDelete x c b uid key False now"
  using assms unfolding ApplyDelete_def Objects_MoveKey_def Let_def only_for_sql only_for_transaction
  by (simp add: only_for_calls)

lemma only_for_rejectIfExists: "(bucket, key) \<in> K \<Longrightarrow> rejectIfExists (only_for K decode x) c bucket key = rejectIfExists x c bucket key"
  by (simp add: rejectIfExists_def only_for_calls)

lemma only_for_ApplyMove:
  assumes "{(BucketName b, src), (BucketName b, dest)} \<subseteq> K" and "plain_source decode (BucketName b) src"
  shows "ApplyMove (only_for K decode x) c b uid src dest now = ApplyMove x c b uid src dest now"
  using assms unfolding ApplyMove_def Objects_MoveKey_def only_for_sql only_for_transaction
  by (simp add: only_for_calls only_for_rejectIfExists)

lemma only_for_ApplyCopy:
  assumes "{(BucketName src, srcKey), (BucketName dest, destKey)} \<subseteq> K" and "plain_source decode (BucketName src) srcKey"
  shows "ApplyCopy (only_for K decode x) c src dest uid srcKey destKey now = ApplyCopy x c src dest uid srcKey destKey now"
  using assms unfolding ApplyCopy_def Objects_Upsert_def only_for_sql
  by (simp add: only_for_calls only_for_rejectIfExists)

text \<open>
  C1: A soft delete never loses an object. However the run ends, the content is afterwards
  under its key or under its trash key, no other object is touched, and the row moves only
  after the object has; a success means that object and row are both in the trash. Others may
  meanwhile write any object outside \<open>K\<close>, which has the two keys in it. An older object under the trash key is
  replaced. The key must be one that the service leaves alone when it URL-decodes the copy source.
\<close>

theorem soft_delete_keeps_content:
  assumes "shared_contract K x (c_s3 c) decode view" and "{(BucketName b, key), (BucketName b, ToTrashKey key)} \<subseteq> K"
    and "plain_source decode (BucketName b) key"
    and "ApplyDelete x c b uid key False now s = Some (r, s')" and "db_wf (db s)"
  shows "(\<forall>v. view (env s) (BucketName b) key = Some v \<longrightarrow>
      view (env s') (BucketName b) key = Some v \<or> view (env s') (BucketName b) (ToTrashKey key) = Some v) \<and>
    (\<forall>B k. (B, k) \<in> K \<longrightarrow> (B, k) \<noteq> (BucketName b, key) \<longrightarrow> (B, k) \<noteq> (BucketName b, ToTrashKey key) \<longrightarrow> view (env s') B k = view (env s) B k) \<and>
    (db s' \<noteq> db s \<longrightarrow> view (env s') (BucketName b) key = None) \<and>
    (r = Inr () \<longrightarrow> view (env s) (BucketName b) key \<noteq> None \<and> view (env s') (BucketName b) key = None \<and>
      view (env s') (BucketName b) (ToTrashKey key) = view (env s) (BucketName b) key \<and>
      lookup_object (db s') (ID b, key) = None \<and> lookup_object (db s') (ID b, ToTrashKey key) \<noteq> None)"
proof -
  have run: "ApplyDelete (only_for K decode x) c b uid key False now s = Some (r, s')"
    unfolding only_for_ApplyDelete [OF assms(2,3)] by (rule assms(4))
  note rel = ApplyDelete_soft_stages [OF only_for_contract [OF assms(1)] assms(3) run]
  note facts = relocation_keeps_content [OF rel]
  have rows: "lookup_object (db s') (ID b, key) = None \<and> lookup_object (db s') (ID b, ToTrashKey key) \<noteq> None" if "r = Inr ()"
    using facts(4) [OF that] lookup_moved(1,2) [OF assms(5)] by fastforce
  have own: "own K view e (BucketName b) key = view e (BucketName b) key"
    "own K view e (BucketName b) (ToTrashKey key) = view e (BucketName b) (ToTrashKey key)" for e
    using assms(2) by (simp_all add: own_in)
  have frame: "view (env s') B k = view (env s) B k"
    if "(B, k) \<in> K" "(B, k) \<noteq> (BucketName b, key)" "(B, k) \<noteq> (BucketName b, ToTrashKey key)" for B k
    using facts(2) [OF that(2,3)] that(1) by (simp add: own_in)
  show ?thesis
    by (intro conjI allI impI frame) (simp_all add: facts(1,5) [unfolded own] facts(3) [unfolded own] rows)
qed

text \<open>A service on which somebody else deletes another object whenever it is asked for one.\<close>

definition busy_ext :: "mem ext" where
  "busy_ext = demo_ext\<lparr>s3_HeadObject := (\<lambda>_ e b k. mem_head (e\<lparr>mem_objects := mem_remove ''media'' ''docs/b'' (mem_objects e)\<rparr>) b k)\<rparr>"

lemma busy_contract:
  assumes "(''media'', ''docs/b'') \<notin> K"
  shows "shared_contract K busy_ext cfg (\<lambda>s. s) mem_view"
proof -
  have others: "shared_contract K demo_ext cfg (\<lambda>s. s) mem_view" by (rule alone_shared [OF mem_s3_contract])
  let ?gone = "\<lambda>e. e\<lparr>mem_objects := mem_remove ''media'' ''docs/b'' (mem_objects e)\<rparr>"
  have kept: "mem_view (?gone e) b k = mem_view e b k" if "(b, k) \<in> K" for e b k
    using that assms by (auto simp: mem_view_def map_of_mem_remove)
  then have same: "own K mem_view (?gone e) = own K mem_view e" for e by (simp add: own_def fun_eq_iff)
  have "shared_head K busy_ext cfg mem_view"
    unfolding shared_head_def
    by (auto simp: busy_ext_def mem_head_def kept same split: option.splits)
  then show ?thesis
    using others by (simp add: shared_contract_def shared_delete_def shared_copy_def quiet_contract_def busy_ext_def)
qed

theorem soft_delete_keeps_content_witness:
  "\<exists>s'. ApplyDelete busy_ext mem_client demo_bucket 5 ''docs/a'' False 0 demo_sys = Some (Inr (), s')
     \<and> mem_view (env s') ''media'' ''.trash/docs/a'' = Some (demo_content 1) \<and> mem_view (env s') ''media'' ''docs/b'' = None"
proof -
  have "map_option (\<lambda>(r, t). (r, mem_view (env t) ''media'' ''docs/b''))
      (ApplyDelete busy_ext mem_client demo_bucket 5 ''docs/a'' False 0 demo_sys) = Some (Inr (), None)"
    by code_simp
  then obtain s' where run: "ApplyDelete busy_ext mem_client demo_bucket 5 ''docs/a'' False 0 demo_sys = Some (Inr (), s')"
    and b: "mem_view (env s') ''media'' ''docs/b'' = None" by auto
  have "plain_source (\<lambda>s. s) (BucketName demo_bucket) ''docs/a''" "db_wf (db demo_sys)"
    by (simp_all add: plain_source_def demo_bucket_def demo_sys_def demo_db_wf)
  moreover have "(''media'', ''docs/b'') \<notin> {(BucketName demo_bucket, ''docs/a''), (BucketName demo_bucket, ToTrashKey ''docs/a'')}"
    by (simp add: ToTrashKey_def TrashPrefix_def)
  ultimately show ?thesis
    using soft_delete_keeps_content [OF busy_contract order.refl _ run] run b
    by (auto simp: demo_sys_def demo_bucket_def mem_view_def ToTrashKey_def TrashPrefix_def)
qed

text \<open>
  C2: A move to another key never loses the object and never overwrites one: an occupied
  destination is refused with nothing changed; otherwise the content is afterwards under
  the source or under the destination, and after a success under the destination alone, in
  the storage and in \<^verbatim>\<open>object_records\<close>. Others may meanwhile write any object outside \<open>K\<close>. The source must be one that
  the service leaves alone when it URL-decodes the copy source.
\<close>

theorem move_keeps_content:
  assumes "shared_contract K x (c_s3 c) decode view" and "{(BucketName b, src), (BucketName b, dest)} \<subseteq> K"
    and "plain_source decode (BucketName b) src" and "src \<noteq> dest"
    and "ApplyMove x c b uid src dest now s = Some (r, s')" and "db_wf (db s)"
  shows "(view (env s) (BucketName b) dest \<noteq> None \<longrightarrow>
      (\<exists>err. r = Inl err) \<and> (\<forall>(B, k) \<in> K. view (env s') B k = view (env s) B k) \<and> db s' = db s) \<and>
    (\<forall>v. view (env s) (BucketName b) src = Some v \<longrightarrow>
      view (env s') (BucketName b) src = Some v \<or> view (env s') (BucketName b) dest = Some v) \<and>
    (\<forall>B k. (B, k) \<in> K \<longrightarrow> (B, k) \<noteq> (BucketName b, src) \<longrightarrow> (B, k) \<noteq> (BucketName b, dest) \<longrightarrow> view (env s') B k = view (env s) B k) \<and>
    (db s' \<noteq> db s \<longrightarrow> view (env s') (BucketName b) src = None) \<and>
    (r = Inr () \<longrightarrow> view (env s) (BucketName b) src \<noteq> None \<and> view (env s') (BucketName b) src = None \<and>
      view (env s') (BucketName b) dest = view (env s) (BucketName b) src \<and>
      lookup_object (db s') (ID b, src) = None \<and> lookup_object (db s') (ID b, dest) \<noteq> None)"
proof -
  have run: "ApplyMove (only_for K decode x) c b uid src dest now s = Some (r, s')"
    unfolding only_for_ApplyMove [OF assms(2,3)] by (rule assms(5))
  note stages = ApplyMove_stages [OF only_for_contract [OF assms(1)] assms(3) run]
  note facts = relocation_keeps_content [OF stages(1)]
  have rows: "lookup_object (db s') (ID b, src) = None \<and> lookup_object (db s') (ID b, dest) \<noteq> None" if "r = Inr ()"
    using facts(4) [OF that] lookup_moved(1,2) [OF assms(6)] assms(4) by fastforce
  have own: "own K view e (BucketName b) src = view e (BucketName b) src" "own K view e (BucketName b) dest = view e (BucketName b) dest" for e
    using assms(2) by (simp_all add: own_in)
  have frame: "view (env s') B k = view (env s) B k" if "(B, k) \<in> K" "own K view (env s') B k = own K view (env s) B k" for B k
    using that by (simp add: own_in)
  have kept: "view (env s') B k = view (env s) B k"
    if "(B, k) \<in> K" "(B, k) \<noteq> (BucketName b, src)" "(B, k) \<noteq> (BucketName b, dest)" for B k
    using frame [OF that(1) facts(2) [OF that(2,3)]] .
  have refused: "(\<exists>err. r = Inl err) \<and> (\<forall>(B, k) \<in> K. view (env s') B k = view (env s) B k) \<and> db s' = db s"
    if "view (env s) (BucketName b) dest \<noteq> None"
    using stages(2) [unfolded own, OF that assms(4)] frame by auto
  show ?thesis
    by (intro conjI allI impI kept refused) (simp_all add: facts(1,5) [unfolded own] facts(3) [unfolded own] rows assms(4))
qed

theorem move_keeps_content_witness:
  "\<exists>s'. ApplyMove demo_ext mem_client demo_bucket 5 ''docs/a'' ''docs/c'' 0 demo_sys = Some (Inr (), s')
     \<and> mem_view (env s') ''media'' ''docs/c'' = Some (demo_content 1)"
proof -
  have "map_option fst (ApplyMove demo_ext mem_client demo_bucket 5 ''docs/a'' ''docs/c'' 0 demo_sys) = Some (Inr ())"
    by code_simp
  then obtain s' where run: "ApplyMove demo_ext mem_client demo_bucket 5 ''docs/a'' ''docs/c'' 0 demo_sys = Some (Inr (), s')"
    by (rule run_obtain)
  have "plain_source (\<lambda>s. s) (BucketName demo_bucket) ''docs/a''" "db_wf (db demo_sys)"
    by (simp_all add: plain_source_def demo_bucket_def demo_sys_def demo_db_wf)
  from move_keeps_content [OF alone_shared [OF mem_s3_contract] _ this(1) _ run this(2)] show ?thesis
    using run by (auto simp: demo_sys_def demo_bucket_def mem_view_def)
qed

text \<open>
  \<open>K\<close> cannot be without the destination: the check for an object there and the copy are two calls. Here
  somebody stores an object under the destination right after the check, and the move replaces it.
\<close>

definition racing_ext :: "mem ext" where
  "racing_ext = demo_ext\<lparr>s3_HeadObject := (\<lambda>_ e b k. case mem_head e b k of (r, e') \<Rightarrow>
     (r, if k = ''docs/c'' then e'\<lparr>mem_objects := ((b, k), demo_content 9) # mem_remove b k (mem_objects e')\<rparr> else e'))\<rparr>"

lemma move_race_overwrites:
  "case ApplyMove racing_ext mem_client demo_bucket 5 ''docs/a'' ''docs/c'' 0 demo_sys of
     Some (Inr (), s') \<Rightarrow> mem_view (env s') ''media'' ''docs/c'' = Some (demo_content 1) \<and>
       demo_content 9 \<notin> snd ` set (mem_objects (env s'))
   | _ \<Rightarrow> False"
  by code_simp

text \<open>
  C23: A copy writes at most one object, at a key that was free, with the content of the
  source; the row is written only when the object has been, and a success means both. Others may
  meanwhile write any object outside \<open>K\<close>. The source must be one that the service leaves alone when it URL-decodes
  the copy source.
\<close>

theorem copy_is_exact:
  assumes "shared_contract K x (c_s3 c) decode view" and "{(BucketName src, srcKey), (BucketName dest, destKey)} \<subseteq> K"
    and "plain_source decode (BucketName src) srcKey"
    and "ApplyCopy x c src dest uid srcKey destKey now s = Some (r, s')" and "db_wf (db s)"
  shows "((\<forall>(B, k) \<in> K. view (env s') B k = view (env s) B k) \<and> db s' = db s \<and> r \<noteq> Inr () \<or>
      view (env s) (BucketName dest) destKey = None \<and> view (env s) (BucketName src) srcKey \<noteq> None \<and>
      (\<forall>(B, k) \<in> K. view (env s') B k =
        view_set (view (env s)) (BucketName dest) destKey (view (env s) (BucketName src) srcKey) B k)) \<and>
    (\<forall>k. k \<noteq> (ID dest, destKey) \<longrightarrow> lookup_object (db s') k = lookup_object (db s) k) \<and>
    (r = Inr () \<longrightarrow> lookup_object (db s') (ID dest, destKey) \<noteq> None)"
proof -
  have put: "lookup_object (sql_upsert (ID dest) (BucketName dest) destKey sz etag ct uid now (db s)) k =
      (if k = (ID dest, destKey) then Some (row_after_upsert (ID dest, destKey)
         \<lparr>uv_bucketName = BucketName dest, uv_size = sz, uv_etag = etag, uv_contentType = ct, uv_userID = uid, uv_at = now\<rparr>
         (lookup_object (db s) (ID dest, destKey))) else lookup_object (db s) k)" for sz etag ct k
    using ups.lookup_put [OF assms(5), of "(ID dest, destKey)" "\<lparr>uv_bucketName = BucketName dest, uv_size = sz,
        uv_etag = etag, uv_contentType = ct, uv_userID = uid, uv_at = now\<rparr>"] by (simp add: put_upsert_def)
  have run: "ApplyCopy (only_for K decode x) c src dest uid srcKey destKey now s = Some (r, s')"
    unfolding only_for_ApplyCopy [OF assms(2,3)] by (rule assms(4))
  have own: "own K view e (BucketName src) srcKey = view e (BucketName src) srcKey"
    "own K view e (BucketName dest) destKey = view e (BucketName dest) destKey" for e
    using assms(2) by (simp_all add: own_in)
  have frame: "\<forall>(B, k) \<in> K. view (env s') B k = view (env s) B k" if "own K view (env s') = own K view (env s)"
    using own_in [of _ _ K view] that by (metis (mono_tags, lifting) case_prodI2)
  have one: "\<forall>(B, k) \<in> K. view (env s') B k = view_set (view (env s)) (BucketName dest) destKey w B k"
    if "own K view (env s') = view_set (own K view (env s)) (BucketName dest) destKey w" for w
  proof (intro ballI, clarify)
    fix B k
    assume "(B, k) \<in> K"
    then show "view (env s') B k = view_set (view (env s)) (BucketName dest) destKey w B k"
      using fun_cong [OF fun_cong [OF that], of B k] by (simp add: view_set_def own_in split: if_splits)
  qed
  show ?thesis
    using ApplyCopy_stages [OF only_for_contract [OF assms(1)] assms(3) run]
    by (elim disjE exE conjE) (simp_all add: put frame one own)
qed

theorem copy_is_exact_witness:
  "\<exists>s'. ApplyCopy demo_ext mem_client demo_bucket demo_bucket 5 ''docs/a'' ''docs/c'' 0 demo_sys = Some (Inr (), s')
     \<and> lookup_object (db s') (1, ''docs/c'') \<noteq> None"
proof -
  have "map_option fst (ApplyCopy demo_ext mem_client demo_bucket demo_bucket 5 ''docs/a'' ''docs/c'' 0 demo_sys) = Some (Inr ())"
    by code_simp
  then obtain s' where
    run: "ApplyCopy demo_ext mem_client demo_bucket demo_bucket 5 ''docs/a'' ''docs/c'' 0 demo_sys = Some (Inr (), s')"
    by (rule run_obtain)
  have "plain_source (\<lambda>s. s) (BucketName demo_bucket) ''docs/a''" "db_wf (db demo_sys)"
    by (simp_all add: plain_source_def demo_bucket_def demo_sys_def demo_db_wf)
  from copy_is_exact [OF alone_shared [OF mem_s3_contract] order.refl this(1) run this(2)] show ?thesis
    using run by (simp add: demo_bucket_def)
qed

text \<open>
  C40: Moving an object to its own key is not rejected, and where the service accepts the
  copy onto itself a success deletes the object while its row stays.
\<close>

theorem self_move_destroys:
  assumes "s3_contract x (c_s3 c) decode view" and "plain_source decode (BucketName b) key"
    and "ApplyMove x c b uid key key now s = Some (Inr (), s')" and "db_wf (db s)"
  shows "view (env s) (BucketName b) key \<noteq> None \<and> view (env s') (BucketName b) key = None \<and>
    lookup_object (db s') (ID b, key) \<noteq> None"
proof -
  note facts = relocation_keeps_content [OF ApplyMove_stages(1) [OF assms(1-3)]]
  show ?thesis using facts(3,4) lookup_moved(1) [OF assms(4)] by fastforce
qed

theorem self_move_destroys_witness:
  "\<exists>s'. ApplyMove demo_ext mem_client demo_bucket 5 ''docs/a'' ''docs/a'' 0 demo_sys = Some (Inr (), s')
     \<and> mem_view (env s') ''media'' ''docs/a'' = None"
proof -
  have "map_option fst (ApplyMove demo_ext mem_client demo_bucket 5 ''docs/a'' ''docs/a'' 0 demo_sys) = Some (Inr ())"
    by code_simp
  then obtain s' where run: "ApplyMove demo_ext mem_client demo_bucket 5 ''docs/a'' ''docs/a'' 0 demo_sys = Some (Inr (), s')"
    by (rule run_obtain)
  have "plain_source (\<lambda>s. s) (BucketName demo_bucket) ''docs/a''" "db_wf (db demo_sys)"
    by (simp_all add: plain_source_def demo_bucket_def demo_sys_def demo_db_wf)
  from self_move_destroys [OF mem_s3_contract this(1) run this(2)] show ?thesis
    using run by (simp add: demo_bucket_def)
qed

definition percent_sys :: "mem sys" where
  "percent_sys = demo_sys\<lparr>env := \<lparr>mem_now = 0,
     mem_objects = [((''media'', ''a%20b''), demo_content 1), ((''media'', ''a b''), demo_content 2)], mem_aborted = []\<rparr>\<rparr>"

text \<open>
  The copy source is sent without the URL encoding that the service decodes. A soft delete
  of a key with a percent sign reports success while it trashes the content of another
  object and deletes its own.
\<close>

theorem percent_key_loses_content:
  "case ApplyDelete (mem_ext url_decode) mem_client demo_bucket 5 ''a%20b'' False 0 percent_sys of
     Some (Inr (), s') \<Rightarrow> mem_view (env s') ''media'' ''a%20b'' = None
       \<and> mem_view (env s') ''media'' (ToTrashKey ''a%20b'') = Some (demo_content 2)
       \<and> demo_content 1 \<notin> snd ` set (mem_objects (env s'))
   | _ \<Rightarrow> False"
  by code_simp

end
