(* ===== verification/DeleteKeys.thy ===== *)
theory DeleteKeys
  imports ObjectKey Service
begin

text \<open>
  \<^verbatim>\<open>ExpandDeleteKeys\<close> of \<^verbatim>\<open>internal/objects/apply.go\<close>: a batch delete names keys and directories;
  this is the list of objects it stands for, with the keys that stand for nothing.
\<close>

section \<open>Expanding the keys of a batch delete\<close>

record opFailure =
  op_Key :: string
  op_Error :: string

text \<open>
  The loop over the pages of a listing; it ends only if the service ends the listing, so its
  result is \<open>None\<close> where it does not.
\<close>

partial_function (option) listPrefixKeys_loop :: "'e ext \<Rightarrow> Client \<Rightarrow> string \<Rightarrow> string \<Rightarrow> string list \<Rightarrow> string \<Rightarrow>
    'e sys \<Rightarrow> ((go_error + string list) \<times> 'e sys) option" where
  "listPrefixKeys_loop x c bucket pfx keys token s =
     Option.bind (ListPrefixFlat x c bucket pfx token 1000 s) (\<lambda>(r, s').
       case r of
         Inl err \<Rightarrow> Some (Inl err, s')
       | Inr page \<Rightarrow>
           let keys' = keys @ filter (\<lambda>k. k \<noteq> []) (map l_Key (Objects page)) in
           if \<not> Truncated page \<or> Token page = [] then Some (Inr keys', s')
           else listPrefixKeys_loop x c bucket pfx keys' (Token page) s')"

declare listPrefixKeys_loop.simps [code]

definition listPrefixKeys :: "'e ext \<Rightarrow> Client \<Rightarrow> string \<Rightarrow> string \<Rightarrow> ('e, string list) io" where
  "listPrefixKeys x c bucket pfx = listPrefixKeys_loop x c bucket pfx [] []"

text \<open>The inner loop over the children of a directory: \<^verbatim>\<open>seen\<close> and \<^verbatim>\<open>resolved\<close> afterwards.\<close>

fun addChildren :: "string list \<Rightarrow> string set \<Rightarrow> string list \<Rightarrow> string set \<times> string list" where
  "addChildren [] seen resolved = (seen, resolved)"
| "addChildren (child # children) seen resolved =
     (if child \<in> seen then addChildren children seen resolved
      else addChildren children (insert child seen) (resolved @ [child]))"

fun ExpandDeleteKeys_loop :: "'e ext \<Rightarrow> Client \<Rightarrow> Bucket \<Rightarrow> string list \<Rightarrow> string set \<Rightarrow> string list \<Rightarrow> opFailure list \<Rightarrow>
    ('e, string list \<times> opFailure list) io" where
  "ExpandDeleteKeys_loop x c b [] seen resolved failed = ret (resolved, failed)"
| "ExpandDeleteKeys_loop x c b (key # keys) seen resolved failed =
     (if \<not> ValidUserKey key
      then ExpandDeleteKeys_loop x c b keys seen resolved
        (failed @ [\<lparr>op_Key = key, op_Error = error_text ErrInvalidKey\<rparr>])
      else if \<not> IsDirectoryKey key
      then (if key \<in> seen then ExpandDeleteKeys_loop x c b keys seen resolved failed
            else ExpandDeleteKeys_loop x c b keys (insert key seen) (resolved @ [key]) failed)
      else attempt (listPrefixKeys x c (BucketName b) key) (\<lambda>r. case r of
          Inl err \<Rightarrow> ExpandDeleteKeys_loop x c b keys seen resolved
            (failed @ [\<lparr>op_Key = key, op_Error = ''storage error''\<rparr>])
        | Inr children \<Rightarrow>
            if children = []
            then ExpandDeleteKeys_loop x c b keys seen resolved
              (failed @ [\<lparr>op_Key = key, op_Error = ''Directory not found or empty''\<rparr>])
            else (case addChildren children seen resolved of (seen', resolved') \<Rightarrow>
              ExpandDeleteKeys_loop x c b keys seen' resolved' failed)))"

definition ExpandDeleteKeys :: "'e ext \<Rightarrow> Client \<Rightarrow> Bucket \<Rightarrow> string list \<Rightarrow> ('e, string list \<times> opFailure list) io" where
  "ExpandDeleteKeys x c b keys = ExpandDeleteKeys_loop x c b keys {} [] []"

section \<open>Listing a directory\<close>

definition key_list :: "s3_object list \<Rightarrow> string list" where
  "key_list objs = filter (\<lambda>k. k \<noteq> []) (map l_Key (map listed objs))"

lemma key_list_append: "key_list (xs @ ys) = key_list xs @ key_list ys"
  by (simp add: key_list_def)

lemma take_drop_append: "take n (drop m xs) @ drop (m + n) xs = drop m xs"
  by (metis append_take_drop_id drop_drop add.commute)

text \<open>The loop ends, with an error or with the keys of the listing from the token on.\<close>

lemma listPrefixKeys_loop_result:
  assumes "listing_contract x (c_s3 c) all pos"
  shows "\<exists>r s'. listPrefixKeys_loop x c b p keys t s = Some (r, s') \<and> calm all pos s s' \<and>
    (case r of Inl _ \<Rightarrow> True | Inr ks \<Rightarrow>
       ks = keys @ key_list (drop (pos (env s) b (opt_str p) (opt_str t)) (all (env s) b (opt_str p))))"
proof (induction "length (all (env s) b (opt_str p)) - pos (env s) b (opt_str p) (opt_str t)"
    arbitrary: keys t s rule: less_induct)
  case less
  obtain r s1 where page: "list_page x c b p t 1000 s = Some (r, s1)"
    using storage_total by (metis ListPrefixFlat_def not_None_eq surj_pair total_def)
  note ok = list_page_ok [OF assms page]
  show ?case
  proof (cases r)
    case (Inl err)
    then show ?thesis
      using ok page by (subst listPrefixKeys_loop.simps) (simp add: ListPrefixFlat_def)
  next
    case (Inr pg)
    let ?A = "all (env s) b (opt_str p)" and ?at = "\<lambda>t. pos (env s) b (opt_str p) (opt_str t)"
    let ?keys = "keys @ filter (\<lambda>k. k \<noteq> []) (map l_Key (Objects pg))"
    have pok: "page_ok ?A ?at t pg" and calm: "calm all pos s s1" using ok Inr by simp_all
    have keys: "?keys = keys @ key_list (take (length (Objects pg)) (drop (?at t) ?A))"
      using pok by (simp add: page_ok_def key_list_def)
    show ?thesis
    proof (cases "Truncated pg \<and> Token pg \<noteq> []")
      case True
      then have step: "listPrefixKeys_loop x c b p keys t s = listPrefixKeys_loop x c b p ?keys (Token pg) s1"
        using page Inr by (subst listPrefixKeys_loop.simps) (simp add: ListPrefixFlat_def Let_def)
      have at: "?at (Token pg) = ?at t + length (Objects pg)" and ne: "Objects pg \<noteq> []"
        using True pok by (auto simp: page_ok_def)
      have "take (length (Objects pg)) (drop (?at t) ?A) \<noteq> []"
        using ne pok by (metis list.map_disc_iff page_ok_def)
      then have "?at t < length ?A" by simp
      moreover have "0 < length (Objects pg)" using ne by simp
      ultimately have less: "length ?A - ?at (Token pg) < length ?A - ?at t"
        unfolding at by arith
      show ?thesis
        using less.hyps [of s1 "Token pg" ?keys] less calm step keys at
        by (auto simp: calm_def key_list_append [symmetric] take_drop_append split: sum.splits)
    next
      case False
      then have "length ?A \<le> ?at t + length (Objects pg)"
        using pok by (simp add: page_ok_def)
      then have "take (length (Objects pg)) (drop (?at t) ?A) = drop (?at t) ?A"
        by simp
      then show ?thesis
        using page Inr False calm keys
        by (subst listPrefixKeys_loop.simps) (auto simp: ListPrefixFlat_def Let_def)
    qed
  qed
qed

lemma listPrefixKeys_result:
  assumes "listing_contract x (c_s3 c) all pos" and "listing_of view all" and "p \<noteq> []"
  shows "\<exists>r s'. listPrefixKeys x c b p s = Some (r, s') \<and> calm all pos s s' \<and>
    (case r of Inl _ \<Rightarrow> True | Inr ks \<Rightarrow> set ks = {k. view (env s) b k \<noteq> None \<and> prefix p k})"
proof -
  obtain r s1 where page: "list_page x c b p [] 1 s = Some (r, s1)"
    using storage_total by (metis not_None_eq surj_pair total_def)
  then have start: "pos (env s) b (opt_str p) (opt_str []) = 0"
    using list_page_ok [OF assms(1) page] by (simp add: opt_str_def)
  have "k \<in> set (key_list (all (env s) b (opt_str p))) \<longleftrightarrow> view (env s) b k \<noteq> None \<and> prefix p k" for k
  proof -
    have "k \<in> set (key_list objs) \<longleftrightarrow> k \<noteq> [] \<and> (\<exists>obj \<in> set objs. so_key obj = Some k)" for objs
      by (force simp: key_list_def listed_def split: option.splits)
    moreover have "prefix p k \<Longrightarrow> k \<noteq> []" using assms(3) by auto
    ultimately show ?thesis
      using assms(2)[unfolded listing_of_def, rule_format, of "env s" b "Some p" k] assms(3) by (auto simp: opt_str_def)
  qed
  moreover obtain r s' where "listPrefixKeys_loop x c b p [] [] s = Some (r, s')" "calm all pos s s'"
    "case r of Inl _ \<Rightarrow> True | Inr ks \<Rightarrow> ks = [] @ key_list (drop 0 (all (env s) b (opt_str p)))"
    using listPrefixKeys_loop_result [OF assms(1), of b p "[]" "[]" s] unfolding start by blast
  ultimately show ?thesis
    unfolding listPrefixKeys_def by (intro exI [of _ r] exI [of _ s']) (auto split: sum.splits)
qed

section \<open>The expansion\<close>

lemma addChildren_eq: "addChildren children seen resolved = (seen \<union> set children, resolved @ dedup seen children)"
  by (induction children seen resolved rule: addChildren.induct) (auto simp: insert_absorb)

text \<open>
  What one requested key stands for: an invalid key is reported, a plain key is in the list,
  and of a directory either every object below it is in the list or the key is reported.
\<close>

definition key_outcome :: "(string \<Rightarrow> bool) \<Rightarrow> string list \<Rightarrow> opFailure list \<Rightarrow> string \<Rightarrow> bool" where
  "key_outcome present resolved failed k \<longleftrightarrow>
     (if \<not> ValidUserKey k then k \<in> op_Key ` set failed
      else if \<not> IsDirectoryKey k then k \<in> set resolved
      else k \<in> op_Key ` set failed \<or> (\<exists>child. present child \<and> prefix k child) \<and>
        (\<forall>child. present child \<and> prefix k child \<longrightarrow> child \<in> set resolved))"

text \<open>The objects the requested keys may stand for.\<close>

definition named_by :: "(string \<Rightarrow> bool) \<Rightarrow> string list \<Rightarrow> string \<Rightarrow> bool" where
  "named_by present keys k \<longleftrightarrow> ValidUserKey k \<and>
     (k \<in> set keys \<or> present k \<and> (\<exists>d \<in> set keys. ValidUserKey d \<and> IsDirectoryKey d \<and> prefix d k))"

lemma key_outcome_mono:
  "key_outcome present resolved failed k \<Longrightarrow> set resolved \<subseteq> set resolved' \<Longrightarrow> set failed \<subseteq> set failed' \<Longrightarrow>
     key_outcome present resolved' failed' k"
  unfolding key_outcome_def by (auto split: if_splits)

lemma named_by_Cons: "named_by present keys k \<Longrightarrow> named_by present (k' # keys) k"
  by (auto simp: named_by_def)

lemma calm_present: "calm all pos s s' \<Longrightarrow> listing_of view all \<Longrightarrow> (view (env s') b k \<noteq> None) = (view (env s) b k \<noteq> None)"
  unfolding calm_def listing_of_def by (metis option.simps(4))

lemma calm_trans: "calm all pos s t \<Longrightarrow> calm all pos t u \<Longrightarrow> calm all pos s u"
  by (simp add: calm_def)

text \<open>How expanding keys extends the list and the failures.\<close>

definition expansion :: "(string \<Rightarrow> bool) \<Rightarrow> string list \<Rightarrow> string list \<Rightarrow> opFailure list \<Rightarrow> string list \<Rightarrow> opFailure list \<Rightarrow> bool" where
  "expansion present keys resolved failed resolved' failed' \<longleftrightarrow>
     distinct resolved' \<and> set resolved \<subseteq> set resolved' \<and> set failed \<subseteq> set failed' \<and>
     op_Key ` set failed' \<subseteq> op_Key ` set failed \<union> set keys \<and>
     (\<forall>k \<in> set resolved' - set resolved. named_by present keys k) \<and>
     (\<forall>k \<in> set keys. key_outcome present resolved' failed' k)"

lemma expansion_failed: "expansion present keys resolved failed resolved' failed' \<Longrightarrow>
    op_Key ` set failed' \<subseteq> op_Key ` set failed \<union> set keys"
  by (simp only: expansion_def)

lemma expansion_mono: "expansion present keys resolved failed resolved' failed' \<Longrightarrow> set resolved \<subseteq> set resolved' \<and> set failed \<subseteq> set failed'"
  by (simp only: expansion_def)

lemma expansion_Cons:
  assumes one: "expansion present [key] resolved failed resolved1 failed1"
    and rest: "expansion present keys resolved1 failed1 resolved' failed'"
  shows "expansion present (key # keys) resolved failed resolved' failed'"
proof -
  have key: "key_outcome present resolved1 failed1 key" and keys: "\<forall>k \<in> set keys. key_outcome present resolved' failed' k"
    and dist: "distinct resolved'" using one rest by (simp_all add: expansion_def)
  have "\<forall>k \<in> set (key # keys). key_outcome present resolved' failed' k"
    using key_outcome_mono [OF key] expansion_mono [OF rest] keys by simp
  moreover have "\<forall>k \<in> set resolved' - set resolved. named_by present (key # keys) k"
  proof
    fix k
    assume k: "k \<in> set resolved' - set resolved"
    show "named_by present (key # keys) k"
    proof (cases "k \<in> set resolved1")
      case True
      then have "named_by present [key] k" using one k by (simp add: expansion_def)
      then show ?thesis by (auto simp: named_by_def)
    next
      case False
      then show ?thesis using rest k named_by_Cons by (simp add: expansion_def)
    qed
  qed
  moreover have "op_Key ` set failed' \<subseteq> op_Key ` set failed \<union> set (key # keys)"
  proof -
    note expansion_failed [OF rest]
    also have "op_Key ` set failed1 \<union> set keys \<subseteq> (op_Key ` set failed \<union> set [key]) \<union> set keys"
      by (rule Un_mono [OF expansion_failed [OF one] subset_refl])
    finally show ?thesis by simp
  qed
  moreover have "set resolved \<subseteq> set resolved'" "set failed \<subseteq> set failed'"
    using expansion_mono [OF one] expansion_mono [OF rest] by (blast, blast)
  ultimately show ?thesis using dist unfolding expansion_def by (intro conjI)
qed

lemma expansion_new:
  assumes "distinct (resolved @ new)" and "op_Key ` set bad \<subseteq> {key}" and "\<And>k. k \<in> set new \<Longrightarrow> named_by present [key] k"
    and "key_outcome present (resolved @ new) (failed @ bad) key"
  shows "expansion present [key] resolved failed (resolved @ new) (failed @ bad)"
  using assms unfolding expansion_def by auto

text \<open>One turn of the loop.\<close>

definition expands_to :: "'e ext \<Rightarrow> Client \<Rightarrow> Bucket \<Rightarrow> string \<Rightarrow> string list \<Rightarrow> opFailure list \<Rightarrow> 'e sys \<Rightarrow>
    string list \<Rightarrow> opFailure list \<Rightarrow> 'e sys \<Rightarrow> bool" where
  "expands_to x c b key resolved failed s resolved1 failed1 s1 \<longleftrightarrow> (\<forall>keys.
     ExpandDeleteKeys_loop x c b (key # keys) (set resolved) resolved failed s =
     ExpandDeleteKeys_loop x c b keys (set resolved1) resolved1 failed1 s1)"

lemma expand_directory:
  assumes list: "listing_contract x (c_s3 c) all pos" and view: "listing_of view all"
    and dir: "ValidUserKey key" "IsDirectoryKey key" and dist: "distinct resolved"
  shows "\<exists>resolved1 failed1 s1. expands_to x c b key resolved failed s resolved1 failed1 s1 \<and> calm all pos s s1 \<and>
    expansion (\<lambda>k. view (env s) (BucketName b) k \<noteq> None) [key] resolved failed resolved1 failed1"
proof -
  let ?present = "\<lambda>k. view (env s) (BucketName b) k \<noteq> None"
  have "key \<noteq> []" using dir(2) by (auto simp: IsDirectoryKey_def HasSuffix_def)
  then obtain r s1 where list: "listPrefixKeys x c (BucketName b) key s = Some (r, s1)" and calm: "calm all pos s s1"
    and ks: "case r of Inl _ \<Rightarrow> True | Inr ks \<Rightarrow> set ks = {k. ?present k \<and> prefix key k}"
    using listPrefixKeys_result [OF list view] by blast
  have bad: "expansion ?present [key] resolved failed resolved (failed @ [\<lparr>op_Key = key, op_Error = msg\<rparr>])" for msg
    using expansion_new [of resolved "[]" "[\<lparr>op_Key = key, op_Error = msg\<rparr>]" key ?present failed] dist dir
    by (simp add: key_outcome_def)
  consider (fail) err where "r = Inl err" | (empty) "r = Inr []" | (found) ks where "r = Inr ks" "ks \<noteq> []" by (cases r) auto
  then show ?thesis
  proof cases
    case fail
    then have "expands_to x c b key resolved failed s resolved (failed @ [\<lparr>op_Key = key, op_Error = ''storage error''\<rparr>]) s1"
      using dir list by (simp add: expands_to_def attempt_def)
    then show ?thesis using calm bad by blast
  next
    case empty
    then have "expands_to x c b key resolved failed s resolved (failed @ [\<lparr>op_Key = key, op_Error = ''Directory not found or empty''\<rparr>]) s1"
      using dir list by (simp add: expands_to_def attempt_def)
    then show ?thesis using calm bad by blast
  next
    case (found ks)
    then have set: "set ks = {k. ?present k \<and> prefix key k}" using ks by simp
    have valid: "ValidUserKey k" if "k \<in> set ks" for k using that set child_of_directory dir by (auto simp: IsDirectoryKey_def)
    have "\<exists>k. ?present k \<and> prefix key k" using found(2) set list.set_sel(1) by blast
    then have "expansion ?present [key] resolved failed (resolved @ dedup (set resolved) ks) (failed @ [])"
      using dist dir set valid by (intro expansion_new) (auto simp: key_outcome_def named_by_def)
    moreover have "expands_to x c b key resolved failed s (resolved @ dedup (set resolved) ks) (failed @ []) s1"
      using dir list found by (auto simp: expands_to_def attempt_def addChildren_eq)
    ultimately show ?thesis using calm by blast
  qed
qed

lemma expand_key:
  assumes "listing_contract x (c_s3 c) all pos" and "listing_of view all" and dist: "distinct resolved"
  shows "\<exists>resolved1 failed1 s1. expands_to x c b key resolved failed s resolved1 failed1 s1 \<and> calm all pos s s1 \<and>
    expansion (\<lambda>k. view (env s) (BucketName b) k \<noteq> None) [key] resolved failed resolved1 failed1"
proof -
  let ?present = "\<lambda>k. view (env s) (BucketName b) k \<noteq> None"
  have same: "calm all pos s s" by (simp add: calm_def)
  consider (invalid) "\<not> ValidUserKey key" | (known) "ValidUserKey key" "\<not> IsDirectoryKey key" "key \<in> set resolved"
    | (fresh) "ValidUserKey key" "\<not> IsDirectoryKey key" "key \<notin> set resolved" | (dir) "ValidUserKey key" "IsDirectoryKey key" by blast
  then show ?thesis
  proof cases
    case invalid
    let ?bad = "[\<lparr>op_Key = key, op_Error = error_text ErrInvalidKey\<rparr>]"
    have "expansion ?present [key] resolved failed (resolved @ []) (failed @ ?bad)"
      using dist invalid by (intro expansion_new) (simp_all add: key_outcome_def)
    moreover have "expands_to x c b key resolved failed s (resolved @ []) (failed @ ?bad) s" using invalid by (simp add: expands_to_def)
    ultimately show ?thesis using same by blast
  next
    case known
    have "expansion ?present [key] resolved failed (resolved @ []) (failed @ [])"
      using dist known by (intro expansion_new) (simp_all add: key_outcome_def)
    moreover have "expands_to x c b key resolved failed s (resolved @ []) (failed @ []) s" using known by (simp add: expands_to_def)
    ultimately show ?thesis using same by blast
  next
    case fresh
    have "expansion ?present [key] resolved failed (resolved @ [key]) (failed @ [])"
      using dist fresh by (intro expansion_new) (simp_all add: key_outcome_def named_by_def)
    moreover have "expands_to x c b key resolved failed s (resolved @ [key]) (failed @ []) s" using fresh by (simp add: expands_to_def)
    ultimately show ?thesis using same by blast
  next
    case dir
    then show ?thesis using expand_directory [OF assms(1,2) _ _ dist] by blast
  qed
qed

lemma ExpandDeleteKeys_loop_result:
  assumes list: "listing_contract x (c_s3 c) all pos" and view: "listing_of view all"
  shows "distinct resolved \<Longrightarrow> \<exists>resolved' failed' s'.
    ExpandDeleteKeys_loop x c b keys (set resolved) resolved failed s = Some (Inr (resolved', failed'), s') \<and>
    calm all pos s s' \<and> expansion (\<lambda>k. view (env s) (BucketName b) k \<noteq> None) keys resolved failed resolved' failed'"
proof (induction keys arbitrary: resolved failed s)
  case Nil
  then show ?case by (simp add: ret_apply calm_def expansion_def)
next
  case (Cons key keys)
  obtain resolved1 failed1 s1 where turn: "expands_to x c b key resolved failed s resolved1 failed1 s1" and calm: "calm all pos s s1"
    and one: "expansion (\<lambda>k. view (env s) (BucketName b) k \<noteq> None) [key] resolved failed resolved1 failed1"
    using expand_key [OF assms Cons.prems] by blast
  have present: "view (env s1) (BucketName b) k \<noteq> None \<longleftrightarrow> view (env s) (BucketName b) k \<noteq> None" for k
    using calm_present [OF calm view] .
  have "distinct resolved1" using one by (simp add: expansion_def)
  then obtain resolved' failed' s' where
    "ExpandDeleteKeys_loop x c b keys (set resolved1) resolved1 failed1 s1 = Some (Inr (resolved', failed'), s')" "calm all pos s1 s'"
    "expansion (\<lambda>k. view (env s) (BucketName b) k \<noteq> None) keys resolved1 failed1 resolved' failed'"
    using Cons.IH [of resolved1 failed1 s1] unfolding present by blast
  then show ?case
    using turn [unfolded expands_to_def] calm_trans [OF calm] expansion_Cons [OF one] by (intro exI conjI) (simp, blast+)
qed

text \<open>When no listing fails, what is reported is a key that stands for nothing.\<close>

lemma listPrefixKeys_succeeds:
  assumes ok: "never_fails x decode view" and run: "listPrefixKeys x c bucket pfx s = Some (r, s')"
  shows "\<exists>ks. r = Inr ks"
proof -
  have step: "never_fails x decode view \<longrightarrow> \<not> isl (fst y)"
    if hyp: "\<And>x c bucket pfx keys token s y. loop x c bucket pfx keys token s = Some y \<Longrightarrow> never_fails x decode view \<longrightarrow> \<not> isl (fst y)"
      and run: "Option.bind (ListPrefixFlat x c bucket pfx token 1000 s) (\<lambda>(r, s').
        case r of Inl err \<Rightarrow> Some (Inl err, s')
        | Inr page \<Rightarrow> let keys' = keys @ filter (\<lambda>k. k \<noteq> []) (map l_Key (Objects page)) in
            if \<not> Truncated page \<or> Token page = [] then Some (Inr keys', s')
            else loop x c bucket pfx keys' (Token page) s') = Some y"
    for loop and x :: "'a ext" and c bucket pfx keys token s and y :: "(go_error + string list) \<times> 'a sys"
  proof
    assume ok: "never_fails x decode view"
    obtain pg s1 where "ListPrefixFlat x c bucket pfx token 1000 s = Some (Inr pg, s1)"
      using calls_succeed(4) [OF ok] unfolding ListPrefixFlat_def by blast
    then show "\<not> isl (fst y)"
      using run hyp [THEN mp, OF _ ok] by (auto simp: Let_def split: if_splits)
  qed
  have "never_fails x decode view \<longrightarrow> \<not> isl (fst y)" if "listPrefixKeys_loop x c bucket pfx keys token s = Some y" for keys token s y
    apply (rule listPrefixKeys_loop.raw_induct [where P = "\<lambda>x c bucket pfx keys token s y. never_fails x decode view \<longrightarrow> \<not> isl (fst y)"
        and xa = "((((((x, c), bucket), pfx), keys), token), s)" and y = y, unfolded split_conv])
    subgoal premises prems for loop by (rule step [of loop, OF prems])
    by (rule that)
  then have "\<not> isl r" using ok run by (fastforce simp: listPrefixKeys_def)
  then show ?thesis by (cases r) simp_all
qed

definition stands_for_nothing :: "(string \<Rightarrow> bool) \<Rightarrow> string \<Rightarrow> bool" where
  "stands_for_nothing present k \<longleftrightarrow> \<not> ValidUserKey k \<or> IsDirectoryKey k \<and> \<not> (\<exists>child. present child \<and> prefix k child)"

lemma expand_failures:
  assumes list: "listing_contract x (c_s3 c) all pos" and of: "listing_of view all" and ok: "never_fails x decode view"
  shows "ExpandDeleteKeys_loop x c b keys seen resolved failed s = Some (Inr (resolved', failed'), s') \<Longrightarrow>
    f \<in> set failed' \<Longrightarrow> f \<in> set failed \<or> stands_for_nothing (\<lambda>k. view (env s) (BucketName b) k \<noteq> None) (op_Key f)"
proof (induction keys arbitrary: seen resolved failed s)
  case Nil
  then show ?case by (simp add: ret_apply)
next
  case (Cons key keys)
  consider (invalid) "\<not> ValidUserKey key" | (plain) "ValidUserKey key" "\<not> IsDirectoryKey key" | (dir) "ValidUserKey key" "IsDirectoryKey key"
    by blast
  then show ?case
  proof cases
    case invalid
    then show ?thesis using Cons.IH Cons.prems by (fastforce simp: stands_for_nothing_def)
  next
    case plain
    then show ?thesis using Cons.IH Cons.prems by (auto split: if_splits)
  next
    case dir
    have "key \<noteq> []" using dir(2) by (auto simp: IsDirectoryKey_def HasSuffix_def)
    then obtain r s1 where run: "listPrefixKeys x c (BucketName b) key s = Some (r, s1)" and calm: "calm all pos s s1"
      and ks: "case r of Inl _ \<Rightarrow> True | Inr ks \<Rightarrow> set ks = {k. view (env s) (BucketName b) k \<noteq> None \<and> prefix key k}"
      using listPrefixKeys_result [OF list of] by blast
    obtain children where r: "r = Inr children" using listPrefixKeys_succeeds [OF ok run] by blast
    obtain seen1 resolved1 where add: "addChildren children seen resolved = (seen1, resolved1)" by fastforce
    have present: "view (env s1) (BucketName b) k \<noteq> None \<longleftrightarrow> view (env s) (BucketName b) k \<noteq> None" for k
      using calm_present [OF calm of] .
    show ?thesis
    proof (cases "children = []")
      case True
      then have "stands_for_nothing (\<lambda>k. view (env s) (BucketName b) k \<noteq> None) key"
        using ks r dir by (auto simp: stands_for_nothing_def)
      then show ?thesis
        using Cons.IH [of seen resolved "failed @ [\<lparr>op_Key = key, op_Error = ''Directory not found or empty''\<rparr>]" s1] Cons.prems dir run r True
        unfolding present by (auto simp: attempt_def)
    next
      case False
      then show ?thesis
        using Cons.IH [of seen1 resolved1 failed s1] Cons.prems dir run r add unfolding present by (auto simp: attempt_def)
    qed
  qed
qed

text \<open>
  C14: The expansion of a batch delete always ends with a list without duplicates. It names only
  valid user keys that were requested or are objects below a requested directory, so nothing
  under \<^verbatim>\<open>.trash/\<close> or \<^verbatim>\<open>.versions/\<close>; and every requested key is accounted for: it is
  in the list, or all the objects of the directory are, or the key is reported.
\<close>

theorem ExpandDeleteKeys_complete:
  assumes "listing_contract x (c_s3 c) all pos" and "listing_of view all"
  shows "\<exists>resolved failed s'. ExpandDeleteKeys x c b keys s = Some (Inr (resolved, failed), s') \<and>
    db s' = db s \<and> distinct resolved \<and> op_Key ` set failed \<subseteq> set keys \<and>
    (\<forall>k \<in> set resolved. named_by (\<lambda>k. view (env s) (BucketName b) k \<noteq> None) keys k) \<and>
    (\<forall>k \<in> set keys. key_outcome (\<lambda>k. view (env s) (BucketName b) k \<noteq> None) resolved failed k)"
  using ExpandDeleteKeys_loop_result [OF assms, of "[]" b keys "[]" s]
  by (auto simp: ExpandDeleteKeys_def calm_def expansion_def)

theorem ExpandDeleteKeys_complete_witness:
  "\<exists>resolved failed s'. ExpandDeleteKeys demo_ext mem_client demo_bucket [''docs/'', ''docs/a'', ''.trash/old''] demo_sys =
     Some (Inr (resolved, failed), s') \<and> ''docs/b'' \<in> set resolved \<and> ''.trash/old'' \<in> op_Key ` set failed"
proof -
  obtain resolved failed s' where
    run: "ExpandDeleteKeys demo_ext mem_client demo_bucket [''docs/'', ''docs/a'', ''.trash/old''] demo_sys =
      Some (Inr (resolved, failed), s')" and
    out: "\<forall>k \<in> set [''docs/'', ''docs/a'', ''.trash/old''].
      key_outcome (\<lambda>k. mem_view (env demo_sys) (BucketName demo_bucket) k \<noteq> None) resolved failed k"
    using ExpandDeleteKeys_complete [OF mem_listing_contract mem_listing_of] by blast
  moreover have "map_option (map_sum id (\<lambda>(res, fl). op_Key ` set fl) \<circ> fst)
      (ExpandDeleteKeys demo_ext mem_client demo_bucket [''docs/'', ''docs/a'', ''.trash/old''] demo_sys) = Some (Inr {''.trash/old''})"
    by code_simp
  ultimately have fl: "op_Key ` set failed = {''.trash/old''}" by simp
  have "mem_view (env demo_sys) (BucketName demo_bucket) ''docs/b'' \<noteq> None"
    by (simp add: mem_view_def demo_sys_def demo_bucket_def)
  then have "''docs/b'' \<in> set resolved"
    using out fl by (simp add: key_outcome_def ValidUserKey_def IsDirectoryKey_def HasSuffix_def HasPrefix_def
        TrashPrefix_def VersionPrefix_def TrimChar_def TrimLeftChar_def TrimRightChar_def suffix_def)
  then show ?thesis using run fl by auto
qed

end
