(* ===== verification/Platform.thy ===== *)
theory Platform
  imports Service
begin

text \<open>
  \<^verbatim>\<open>internal/platform/store.go\<close>: the settings of the tenant, the policies of the cleanup jobs
  read from them, and \<^verbatim>\<open>internal/config/config.go\<close> and \<^verbatim>\<open>internal/logx\<close>: the settings of the
  process. A Go map of strings is a partial function; \<open>setting\<close> reads it as Go does, with the
  empty string for a missing key.
\<close>

section \<open>The settings table\<close>

type_synonym settings = "string \<Rightarrow> string option"

definition setting :: "settings \<Rightarrow> string \<Rightarrow> string" where
  "setting rows key = (case rows key of None \<Rightarrow> [] | Some v \<Rightarrow> v)"

definition Settings_Map :: "'e ext \<Rightarrow> ('e, settings) io" where
  "Settings_Map x = wrap_err ''list settings'' (sql_query x (\<lambda>_ d.
     foldl (\<lambda>out r. out(s_key r \<mapsto> s_value r)) Map.empty (platform_settings d)))"

definition sql_upsert_setting :: "string \<Rightarrow> string \<Rightarrow> time \<Rightarrow> tenant_db \<Rightarrow> tenant_db" where
  "sql_upsert_setting key value t d =
     d\<lparr>platform_settings := tab_upsert s_key \<lparr>s_key = key, s_value = value, s_updated_at = t\<rparr>
       (\<lambda>r. r\<lparr>s_value := value, s_updated_at := t\<rparr>) (platform_settings d)\<rparr>"

definition Settings_Upsert :: "'e ext \<Rightarrow> string \<Rightarrow> string \<Rightarrow> ('e, unit) io" where
  "Settings_Upsert x key value = wrap_err (''upsert setting '' @ key) (sql_exec x (sql_upsert_setting key value))"

section \<open>Reading one setting\<close>

definition pick :: "settings \<Rightarrow> string \<Rightarrow> string \<Rightarrow> string" where
  "pick rows key fallback = (let v = TrimSpace (setting rows key) in if v \<noteq> [] then v else fallback)"

definition pickPtr :: "settings \<Rightarrow> string \<Rightarrow> string \<Rightarrow> string option" where
  "pickPtr rows key fallback = (let v = pick rows key fallback in if v = [] then None else Some v)"

definition pickInt :: "settings \<Rightarrow> string \<Rightarrow> int \<Rightarrow> int" where
  "pickInt rows key fallback =
     (let v = TrimSpace (setting rows key) in
      if v = [] then fallback else (case Atoi v of None \<Rightarrow> fallback | Some n \<Rightarrow> n))"

definition pickBool :: "settings \<Rightarrow> string \<Rightarrow> bool \<Rightarrow> bool" where
  "pickBool rows key fallback =
     (let v = ToLower (TrimSpace (setting rows key)) in
      if v \<in> {''1'', ''true'', ''yes'', ''on''} then True
      else if v \<in> {''0'', ''false'', ''no'', ''off''} then False
      else fallback)"

section \<open>The policies\<close>

definition CleanupPolicy :: "'e ext \<Rightarrow> string \<Rightarrow> string \<Rightarrow> int \<Rightarrow> ('e, int \<times> bool) io" where
  "CleanupPolicy x enabledKey daysKey defaultDays =
     bind (Settings_Map x) (\<lambda>rows. ret (pickInt rows daysKey defaultDays, pickBool rows enabledKey False))"

definition TrashPolicy :: "'e ext \<Rightarrow> ('e, int \<times> bool) io" where
  "TrashPolicy x = CleanupPolicy x ''trash_cleanup_enabled'' ''trash_retention_days'' 0"

definition VersionPolicy :: "'e ext \<Rightarrow> ('e, int \<times> bool) io" where
  "VersionPolicy x = CleanupPolicy x ''version_cleanup_enabled'' ''version_retention_days'' 0"

definition MultipartPolicy :: "'e ext \<Rightarrow> ('e, int \<times> bool) io" where
  "MultipartPolicy x = CleanupPolicy x ''multipart_cleanup_enabled'' ''multipart_stale_days'' 7"

section \<open>The process configuration\<close>

text \<open>\<open>os_Getenv\<close> is the environment of the process, the empty string for an unset variable.\<close>

record proc_config =
  HTTPAddr :: string
  DatabaseURL :: string
  RedisURL :: string
  S3Endpoint :: string
  RGWAccessKey :: string
  RGWSecretKey :: string
  S3Region :: string
  AsynqConcurrency :: int

definition getenv :: "(string \<Rightarrow> string) \<Rightarrow> string \<Rightarrow> string \<Rightarrow> string" where
  "getenv os_Getenv key fallback = (let v = os_Getenv key in if v \<noteq> [] then v else fallback)"

definition concurrency :: "(string \<Rightarrow> string) \<Rightarrow> int" where
  "concurrency os_Getenv = (case Atoi (TrimSpace (os_Getenv ''ASYNQ_CONCURRENCY'')) of
     None \<Rightarrow> 4
   | Some n \<Rightarrow> if n < 1 then 4 else n)"

definition Load :: "(string \<Rightarrow> string) \<Rightarrow> proc_config" where
  "Load os_Getenv = \<lparr>HTTPAddr = getenv os_Getenv ''HTTP_ADDR'' '':8080'',
     DatabaseURL = os_Getenv ''DATABASE_URL'', RedisURL = os_Getenv ''REDIS_URL'',
     S3Endpoint = os_Getenv ''S3_ENDPOINT'', RGWAccessKey = os_Getenv ''RGW_ACCESS_KEY'',
     RGWSecretKey = os_Getenv ''RGW_SECRET_KEY'', S3Region = getenv os_Getenv ''S3_REGION'' ''us-east-1'',
     AsynqConcurrency = concurrency os_Getenv\<rparr>"

datatype log_level = LevelDebug | LevelInfo | LevelWarn | LevelError
datatype log_format = JSONHandler | TextHandler

text \<open>What \<^verbatim>\<open>logx.Setup\<close> makes of the environment: the level and the handler of the logger.\<close>

definition log_setup :: "(string \<Rightarrow> string) \<Rightarrow> log_level \<times> log_format" where
  "log_setup os_Getenv =
     (let l = ToLower (TrimSpace (os_Getenv ''LOG_LEVEL''));
          level = (if l = ''debug'' then LevelDebug
                   else if l = ''warn'' \<or> l = ''warning'' then LevelWarn
                   else if l = ''error'' then LevelError
                   else LevelInfo);
          format = ToLower (TrimSpace (os_Getenv ''LOG_FORMAT''))
      in (level, if format = ''json'' then JSONHandler else TextHandler))"

section \<open>Facts\<close>

lemma total_Settings_Map [io_rules]: "total (Settings_Map x)"
  unfolding Settings_Map_def by (intro io_rules)

lemma total_policies [io_rules]: "total (TrashPolicy x)" "total (VersionPolicy x)" "total (MultipartPolicy x)"
  unfolding TrashPolicy_def VersionPolicy_def MultipartPolicy_def CleanupPolicy_def by (intro io_rules)+

lemma Settings_Map_same_db: "io_rel same_db (Settings_Map x)"
  unfolding Settings_Map_def by (intro samedb.respects_rules sql_query_same_db)

lemma policies_same_db: "io_rel same_db (CleanupPolicy x ek dk n)"
  unfolding CleanupPolicy_def by (intro samedb.respects_rules Settings_Map_same_db)

definition lookup_setting :: "tenant_db \<Rightarrow> string \<Rightarrow> setting_row option" where
  "lookup_setting d key = tab_find s_key (platform_settings d) key"

definition put_setting :: "string \<Rightarrow> string \<times> time \<Rightarrow> tenant_db \<Rightarrow> tenant_db" where
  "put_setting key v = sql_upsert_setting key (fst v) (snd v)"

interpretation settings: keyed_store lookup_setting put_setting db_wf
  "\<lambda>key v old. \<lparr>s_key = key, s_value = fst v, s_updated_at = snd v\<rparr>"
proof unfold_locales
  show "db_wf (put_setting k v d)" if "db_wf d" for k v d
    using that tab_wf_upsert [of s_key "platform_settings d"]
    by (simp add: db_wf_def put_setting_def sql_upsert_setting_def)
  show "lookup_setting (put_setting k v d) k' =
      (if k' = k then Some \<lparr>s_key = k, s_value = fst v, s_updated_at = snd v\<rparr> else lookup_setting d k')" for k v d k'
    using tab_find_SomeD [of s_key "platform_settings d" k]
    by (auto simp: lookup_setting_def put_setting_def sql_upsert_setting_def tab_find_upsert split: option.split)
qed

text \<open>The map that the program builds row by row is the lookup in the table.\<close>

lemma fold_settings:
  "tab_wf s_key rows \<Longrightarrow> foldl (\<lambda>out r. out(s_key r \<mapsto> s_value r)) m rows k =
     (case tab_find s_key rows k of None \<Rightarrow> m k | Some r \<Rightarrow> Some (s_value r))"
proof (induction rows arbitrary: m)
  case (Cons r rows)
  have "tab_wf s_key rows" "s_key r \<notin> s_key ` set rows" using Cons.prems by (auto simp: tab_wf_def)
  then show ?case
    using Cons.IH [of "m(s_key r \<mapsto> s_value r)"] tab_find_None_iff [of s_key rows "s_key r"]
    by (auto split: option.split)
qed simp

lemma Settings_Map_lookup:
  assumes "Settings_Map x s = Some (Inr rows, s')" and "db_wf (db s)"
  shows "rows k = map_option s_value (lookup_setting (db s) k)"
proof -
  have "rows = foldl (\<lambda>out r. out(s_key r \<mapsto> s_value r)) Map.empty (platform_settings (db s))"
    using assms(1) by (auto simp: Settings_Map_def io_evals split: prod.splits sql_reply.splits)
  then show ?thesis
    using fold_settings [of "platform_settings (db s)" Map.empty k] assms(2)
    by (auto simp: db_wf_def lookup_setting_def split: option.split)
qed

text \<open>Text that starts and ends with ASCII other than white space is trimmed to itself.\<close>

definition graphic :: "char \<Rightarrow> bool" where
  "graphic c \<longleftrightarrow> of_char c < (128 :: nat) \<and> \<not> space1 c"

lemma strip_graphic:
  assumes "graphic c"
  shows "strip r (c # s) = c # s"
proof -
  have "\<not> space2 c d" "\<not> space2 d c" "\<not> space3 c d e" "\<not> space3 e d c" for d e
    using assms by (auto simp: graphic_def space2_def space3_def)
  then show ?thesis
    using assms by (cases "(r, c # s)" rule: strip.cases) (auto simp: graphic_def)
qed

lemma TrimSpace_graphic:
  assumes "s \<noteq> []" and "graphic (hd s)" and "graphic (last s)"
  shows "TrimSpace s = s"
proof -
  have "strip False s = s" using assms strip_graphic [of "hd s" False "tl s"] by simp
  moreover have "s = butlast s @ [last s]" using assms(1) by simp
  then have rev: "rev s = last s # rev (butlast s)" by (metis rev.simps(2) rev_rev_ident rev_append append_Cons append_Nil)
  have "strip True (rev s) = rev s" unfolding rev by (rule strip_graphic [OF assms(3)])
  ultimately show ?thesis by (simp add: TrimSpace_def)
qed

lemma graphic_number: "c \<in> set ''-0123456789'' \<Longrightarrow> graphic c"
  by (auto simp: graphic_def space1_def)

lemma FormatInt_nonempty: "FormatInt n \<noteq> []"
  by (simp add: FormatInt_def)

lemma TrimSpace_FormatInt: "TrimSpace (FormatInt n) = FormatInt n"
proof -
  note ne = FormatInt_nonempty [of n]
  have "hd (FormatInt n) \<in> set (FormatInt n)" "last (FormatInt n) \<in> set (FormatInt n)"
    using ne by simp_all
  then have "graphic (hd (FormatInt n))" "graphic (last (FormatInt n))"
    using FormatInt_chars [of n] graphic_number by blast+
  then show ?thesis using ne by (rule TrimSpace_graphic [rotated])
qed

lemma Settings_Upsert_effect:
  assumes "Settings_Upsert x key value s = Some (Inr (), s')"
  shows "\<exists>t. db s' = put_setting key (value, t) (db s)"
  using assms by (auto simp: Settings_Upsert_def put_setting_def io_evals split: prod.splits sql_reply.splits)

text \<open>
  A policy written to the settings is the policy that the cleanup job reads: any number
  of days of 64 bits, printed in decimal, and a switch that is on, whatever else the table
  holds and whatever it held under the two keys before.
\<close>

theorem policy_roundtrip:
  assumes "db_wf (db s)" and "is_int64 n" and "daysKey \<noteq> enabledKey"
    and "Settings_Upsert x daysKey (FormatInt n) s = Some (Inr (), s1)"
    and "Settings_Upsert x enabledKey ''true'' s1 = Some (Inr (), s2)"
    and "CleanupPolicy x enabledKey daysKey defaultDays s2 = Some (Inr policy, s3)"
  shows "policy = (n, True)"
proof -
  obtain t1 t2 where d: "db s2 = settings.puts [(daysKey, (FormatInt n, t1)), (enabledKey, (''true'', t2))] (db s)"
    using Settings_Upsert_effect [OF assms(4)] Settings_Upsert_effect [OF assms(5)] by auto
  have wf: "db_wf (db s2)" using assms(1) by (simp only: d settings.wf_puts)
  from assms(6) obtain rows t where rows: "Settings_Map x s2 = Some (Inr rows, t)"
      and policy: "policy = (pickInt rows daysKey defaultDays, pickBool rows enabledKey False)"
    unfolding CleanupPolicy_def by (elim bind_Inr_E) (simp add: ret_apply)
  have "rows daysKey = Some (FormatInt n)" "rows enabledKey = Some ''true''"
    using Settings_Map_lookup [OF rows wf] assms(1,3) by (simp_all add: d settings.lookup_put settings.wf_put)
  moreover have "TrimSpace ''true'' = ''true''"
    by (rule TrimSpace_graphic) (simp_all add: graphic_def space1_def)
  ultimately show ?thesis
    using assms(2) TrimSpace_FormatInt [of n] FormatInt_nonempty [of n]
    by (simp add: policy pickInt_def pickBool_def setting_def Atoi_FormatInt lower_char_def)
qed

theorem policy_roundtrip_witness:
  "\<exists>s1 s2 s3. Settings_Upsert demo_ext ''trash_retention_days'' (FormatInt 30) demo_sys = Some (Inr (), s1) \<and>
     Settings_Upsert demo_ext ''trash_cleanup_enabled'' ''true'' s1 = Some (Inr (), s2) \<and>
     TrashPolicy demo_ext s2 = Some (Inr (30, True), s3)"
proof -
  let ?all = "bind (Settings_Upsert demo_ext ''trash_retention_days'' (FormatInt 30)) (\<lambda>_.
    bind (Settings_Upsert demo_ext ''trash_cleanup_enabled'' ''true'') (\<lambda>_. TrashPolicy demo_ext)) demo_sys"
  have "map_option (map_sum (\<lambda>_. ()) (\<lambda>_. ()) \<circ> fst) ?all = Some (Inr ())" by code_simp
  then obtain policy s3 where run: "?all = Some (Inr policy, s3)"
    by (cases ?all) (auto simp: map_sum_def split: sum.splits)
  from bind_Inr_E [OF run] obtain s1 where
    s1: "Settings_Upsert demo_ext ''trash_retention_days'' (FormatInt 30) demo_sys = Some (Inr (), s1)"
    and rest: "bind (Settings_Upsert demo_ext ''trash_cleanup_enabled'' ''true'') (\<lambda>_. TrashPolicy demo_ext) s1 = Some (Inr policy, s3)"
    by auto
  from bind_Inr_E [OF rest] obtain s2 where
    s2: "Settings_Upsert demo_ext ''trash_cleanup_enabled'' ''true'' s1 = Some (Inr (), s2)"
    and s3: "TrashPolicy demo_ext s2 = Some (Inr policy, s3)"
    by auto
  have "db_wf (db demo_sys)" "is_int64 30" "''trash_retention_days'' \<noteq> ''trash_cleanup_enabled''"
    by (simp_all add: demo_sys_def demo_db_wf is_int64_def)
  from policy_roundtrip [OF this s1 s2 s3 [unfolded TrashPolicy_def]] show ?thesis
    using s1 s2 s3 by blast
qed

end
