(* ===== verification/BucketStore.thy ===== *)
theory BucketStore
  imports ObjectStore
begin

text \<open>
  \<^verbatim>\<open>internal/bucket/store.go\<close>: buckets, the grants that make them visible to an account, and
  their usage. The schema of the tables is not part of the repository: what it fills into the
  columns that an \<^verbatim>\<open>INSERT\<close> does not name, the new id among them, is the argument \<open>defaults\<close>.
\<close>

section \<open>Reading buckets\<close>

definition visible_rows :: "int \<Rightarrow> tenant_db \<Rightarrow> bucket_row list" where
  "visible_rows userID d = concat (map (\<lambda>b. map (\<lambda>g. b)
     (filter (\<lambda>g. g_bucket_id g = ID b \<and> g_user_id g = userID \<and> Status b = ''active'') (account_bucket_grants d))) (buckets d))"

definition Buckets_List :: "'e ext \<Rightarrow> int \<Rightarrow> ('e, Bucket list) io" where
  "Buckets_List x userID = wrap_err ''list buckets'' (sql_query x (\<lambda>_ d.
     map Bucket.truncate (sort_key (\<lambda>b. - CreatedAt b) (visible_rows userID d))))"

text \<open>\<^verbatim>\<open>QueryRow\<close>: the first row, \<open>None\<close> for \<^verbatim>\<open>ErrNoRows\<close>.\<close>

definition first_row :: "'r list \<Rightarrow> 'r option" where
  "first_row rows = (case rows of [] \<Rightarrow> None | r # _ \<Rightarrow> Some r)"

definition Buckets_GetVisible :: "'e ext \<Rightarrow> int \<Rightarrow> string \<Rightarrow> ('e, Bucket option) io" where
  "Buckets_GetVisible x userID name = wrap_err ''get bucket'' (sql_query x (\<lambda>_ d.
     map_option Bucket.truncate (first_row (filter (\<lambda>b. BucketName b = name) (visible_rows userID d)))))"

definition Buckets_VisibleID :: "'e ext \<Rightarrow> int \<Rightarrow> string \<Rightarrow> ('e, int option) io" where
  "Buckets_VisibleID x accountID name =
     bind (Buckets_GetVisible x accountID name) (\<lambda>b. case b of None \<Rightarrow> ret None | Some b \<Rightarrow> ret (Some (ID b)))"

definition Buckets_ListActive :: "'e ext \<Rightarrow> ('e, Bucket list) io" where
  "Buckets_ListActive x = wrap_err ''list active buckets'' (sql_query x (\<lambda>_ d.
     map Bucket.truncate (sort_key ID (filter (\<lambda>b. Status b = ''active'') (buckets d)))))"

definition Buckets_GetByName :: "'e ext \<Rightarrow> string \<Rightarrow> ('e, Bucket option) io" where
  "Buckets_GetByName x name = wrap_err ''get bucket by name'' (sql_query x (\<lambda>_ d.
     map_option Bucket.truncate (first_row (filter (\<lambda>b. BucketName b = name) (buckets d)))))"

section \<open>Grants\<close>

text \<open>\<^verbatim>\<open>INSERT ... ON CONFLICT (user_id, bucket_id) DO NOTHING\<close>.\<close>

definition sql_grant :: "int \<Rightarrow> int \<Rightarrow> bool \<Rightarrow> tenant_db \<Rightarrow> tenant_db" where
  "sql_grant userID bucketID isLocal d =
     d\<lparr>account_bucket_grants := tab_upsert grant_key
       \<lparr>g_user_id = userID, g_bucket_id = bucketID, g_local = isLocal\<rparr> (\<lambda>g. g) (account_bucket_grants d)\<rparr>"

definition sql_clear_ops_grants :: "int \<Rightarrow> tenant_db \<Rightarrow> tenant_db" where
  "sql_clear_ops_grants userID d =
     d\<lparr>account_bucket_grants := tab_delete (\<lambda>g. g_user_id g = userID \<and> \<not> g_local g) (account_bucket_grants d)\<rparr>"

definition Buckets_GrantLocal :: "'e ext \<Rightarrow> int \<Rightarrow> int \<Rightarrow> ('e, unit) io" where
  "Buckets_GrantLocal x userID bucketID =
     wrap_err ''grant bucket'' (sql_exec x (\<lambda>_. sql_grant userID bucketID True))"

definition Buckets_ReplaceOpsGrants :: "'e ext \<Rightarrow> int \<Rightarrow> int list \<Rightarrow> ('e, unit) io" where
  "Buckets_ReplaceOpsGrants x userID bucketIDs =
     sql_transaction x (\<lambda>m. m) (\<lambda>m. m)
       (bind (wrap_err ''clear ops grants'' (sql_exec x (\<lambda>_. sql_clear_ops_grants userID))) (\<lambda>_.
        for_each (\<lambda>bid. wrap_err ''insert ops grant'' (sql_exec x (\<lambda>_. sql_grant userID bid False))) bucketIDs))"

section \<open>Writing buckets\<close>

definition sql_ensure :: "(tenant_db \<Rightarrow> bucket_row) \<Rightarrow> string \<Rightarrow> string option \<Rightarrow> time \<Rightarrow> tenant_db \<Rightarrow> int \<times> tenant_db" where
  "sql_ensure defaults name display t d =
     (let rows = tab_upsert BucketName
            ((defaults d)\<lparr>BucketName := name, DisplayName := display, Status := ''active'', CreatedAt := t, UpdatedAt := t\<rparr>)
            (\<lambda>b. b\<lparr>DisplayName := (case display of None \<Rightarrow> DisplayName b | Some n \<Rightarrow> Some n), UpdatedAt := t\<rparr>)
            (buckets d)
      in (case tab_find BucketName rows name of None \<Rightarrow> 0 | Some b \<Rightarrow> ID b, d\<lparr>buckets := rows\<rparr>))"

definition Buckets_Ensure :: "'e ext \<Rightarrow> (tenant_db \<Rightarrow> bucket_row) \<Rightarrow> string \<Rightarrow> string option \<Rightarrow> ('e, int) io" where
  "Buckets_Ensure x defaults name display = wrap_err ''ensure bucket'' (sql_stmt x (sql_ensure defaults name display))"

definition isUnique :: "go_error \<Rightarrow> bool" where
  "isUnique err = (case unwrap_all err of ErrExt (PgError code _) \<Rightarrow> code = ''23505'' | _ \<Rightarrow> False)"

text \<open>A second bucket with the name violates the unique key, and nothing is inserted.\<close>

definition sql_insert_bucket :: "(tenant_db \<Rightarrow> bucket_row) \<Rightarrow> Bucket \<Rightarrow> time \<Rightarrow> tenant_db \<Rightarrow>
    (ext_error + Bucket) \<times> tenant_db" where
  "sql_insert_bucket defaults b t d =
     (if BucketName b \<in> BucketName ` set (buckets d) then (Inl (PgError ''23505'' []), d)
      else let r = (defaults d)\<lparr>BucketName := BucketName b, DisplayName := DisplayName b,
              DisplayAliasOnly := DisplayAliasOnly b, QuotaBytes := QuotaBytes b, ObjectLimit := ObjectLimit b,
              VersioningEnabled := VersioningEnabled b, AccessLoggingEnabled := AccessLoggingEnabled b,
              AccessLogTargetBucket := AccessLogTargetBucket b, AccessLogPrefix := AccessLogPrefix b,
              Status := Status b, CreatedBy := CreatedBy b, CreatedAt := CreatedAt b, UpdatedAt := CreatedAt b\<rparr>
        in (Inr (Bucket.truncate r), d\<lparr>buckets := buckets d @ [r]\<rparr>))"

definition Buckets_Insert :: "'e ext \<Rightarrow> (tenant_db \<Rightarrow> bucket_row) \<Rightarrow> Bucket \<Rightarrow> ('e, Bucket) io" where
  "Buckets_Insert x defaults b =
     attempt (bind (sql_stmt x (sql_insert_bucket defaults b))
        (\<lambda>q. case q of Inl err \<Rightarrow> throw (ErrExt err) | Inr b' \<Rightarrow> ret b')) (\<lambda>r. case r of
       Inl err \<Rightarrow> (if isUnique err then throw ErrConflict else throw (ErrWrap ''insert bucket'' err))
     | Inr b' \<Rightarrow> ret b')"

definition sql_update_bucket :: "Bucket \<Rightarrow> tenant_db \<Rightarrow> tenant_db" where
  "sql_update_bucket b d = d\<lparr>buckets := tab_update (\<lambda>r. ID r = ID b)
     (\<lambda>r. r\<lparr>DisplayName := DisplayName b, DisplayAliasOnly := DisplayAliasOnly b, QuotaBytes := QuotaBytes b,
        ObjectLimit := ObjectLimit b, VersioningEnabled := VersioningEnabled b,
        AccessLoggingEnabled := AccessLoggingEnabled b, AccessLogTargetBucket := AccessLogTargetBucket b,
        AccessLogPrefix := AccessLogPrefix b, UpdatedAt := UpdatedAt b\<rparr>) (buckets d)\<rparr>"

definition Buckets_Update :: "'e ext \<Rightarrow> Bucket \<Rightarrow> ('e, unit) io" where
  "Buckets_Update x b = wrap_err ''update bucket'' (sql_exec x (\<lambda>_. sql_update_bucket b))"

definition Buckets_Delete :: "'e ext \<Rightarrow> int \<Rightarrow> ('e, unit) io" where
  "Buckets_Delete x bid = wrap_err ''delete bucket''
     (sql_exec x (\<lambda>_ d. d\<lparr>buckets := tab_delete (\<lambda>r. ID r = bid) (buckets d)\<rparr>))"

definition sql_mark_inventoried :: "int \<Rightarrow> time \<Rightarrow> tenant_db \<Rightarrow> tenant_db" where
  "sql_mark_inventoried bid at d =
     d\<lparr>buckets := tab_update (\<lambda>r. ID r = bid) (\<lambda>r. r\<lparr>inventoried_at := Some at\<rparr>) (buckets d)\<rparr>"

definition Buckets_MarkInventoried :: "'e ext \<Rightarrow> int \<Rightarrow> time \<Rightarrow> ('e, unit) io" where
  "Buckets_MarkInventoried x bid at = wrap_err ''mark inventoried'' (sql_exec x (\<lambda>_. sql_mark_inventoried bid at))"

section \<open>Usage\<close>

record Usage =
  UsedBytes :: int
  ObjectCount :: int
  TrashBytes :: int
  TrashCount :: int
  VersionBytes :: int
  VersionCount :: int

text \<open>The conditions of the \<^verbatim>\<open>FILTER\<close> clauses.\<close>

definition sql_in_trash :: "string \<Rightarrow> bool" where
  "sql_in_trash key \<longleftrightarrow> sql_like ''.trash/%'' key \<or> key = ''.trash/''"

definition sql_in_versions :: "string \<Rightarrow> bool" where
  "sql_in_versions key \<longleftrightarrow> sql_like ''.versions/%'' key \<or> key = ''.versions/''"

definition sum_size :: "object_row list \<Rightarrow> int" where
  "sum_size rows = sum_list (map (\<lambda>r. coalesce0 (o_size r)) rows)"

definition usage_of :: "object_row list \<Rightarrow> Usage" where
  "usage_of rows =
     (let pick = (\<lambda>P. filter (\<lambda>r. P (o_object_key r)) rows) in
      \<lparr>UsedBytes = sum_size (pick sql_is_live), ObjectCount = int (length (pick sql_is_live)),
       TrashBytes = sum_size (pick sql_in_trash), TrashCount = int (length (pick sql_in_trash)),
       VersionBytes = sum_size (pick sql_in_versions), VersionCount = int (length (pick sql_in_versions))\<rparr>)"

definition Buckets_UsageByID :: "'e ext \<Rightarrow> int list \<Rightarrow> ('e, int \<Rightarrow> Usage option) io" where
  "Buckets_UsageByID x ids =
     (if ids = [] then ret Map.empty
      else wrap_err ''bucket usage'' (sql_query x (\<lambda>_ d bid.
        let rows = filter (\<lambda>r. o_bucket_id r = bid) (object_records d) in
        if bid \<in> set ids \<and> rows \<noteq> [] then Some (usage_of rows) else None)))"

record prefix_usage =
  p_Prefix :: string
  p_UsedBytes :: int
  p_ObjectCount :: int

text \<open>\<^verbatim>\<open>CASE WHEN position('/' IN object_key) = 0 THEN '' ELSE left(...) END\<close>.\<close>

definition sql_first_level :: "string \<Rightarrow> string" where
  "sql_first_level key = (if IndexByte key (CHR ''/'') < 0 then [] else take (nat (IndexByte key (CHR ''/'')) + 1) key)"

fun insert_usage :: "(string \<Rightarrow> string \<Rightarrow> bool) \<Rightarrow> prefix_usage \<Rightarrow> prefix_usage list \<Rightarrow> prefix_usage list" where
  "insert_usage le u [] = [u]"
| "insert_usage le u (v # vs) =
     (if p_UsedBytes v < p_UsedBytes u \<or> p_UsedBytes v = p_UsedBytes u \<and> le (p_Prefix u) (p_Prefix v)
      then u # v # vs else v # insert_usage le u vs)"

definition group_usage :: "object_row list \<Rightarrow> prefix_usage list" where
  "group_usage rows = map (\<lambda>p. let group = filter (\<lambda>r. sql_first_level (o_object_key r) = p) rows in
       \<lparr>p_Prefix = p, p_UsedBytes = sum_size group, p_ObjectCount = int (length group)\<rparr>)
     (dedup {} (map (\<lambda>r. sql_first_level (o_object_key r)) rows))"

definition Buckets_PrefixUsage :: "'e ext \<Rightarrow> int \<Rightarrow> ('e, prefix_usage list) io" where
  "Buckets_PrefixUsage x bucketID = wrap_err ''prefix usage'' (sql_query x (\<lambda>_ d.
     foldr (insert_usage (collate x))
       (group_usage (filter (\<lambda>r. o_bucket_id r = bucketID \<and> sql_is_live (o_object_key r)) (object_records d))) []))"

section \<open>Facts\<close>

lemma total_buckets [io_rules]:
  "total (Buckets_ListActive x)" "total (Buckets_GetByName x n)" "total (Buckets_GetVisible x u n)"
  "total (Buckets_MarkInventoried x i t)"
  unfolding Buckets_ListActive_def Buckets_GetByName_def Buckets_GetVisible_def Buckets_MarkInventoried_def
  by (intro io_rules)+

lemma buckets_same_db:
  "io_rel same_db (Buckets_ListActive x)" "io_rel same_db (Buckets_GetByName x n)" "io_rel same_db (Buckets_GetVisible x u n)"
  unfolding Buckets_ListActive_def Buckets_GetByName_def Buckets_GetVisible_def
  by (intro samedb.respects_rules sql_query_same_db)+

lemma sql_query_value:
  "wrap_err pre (sql_query x f) s = Some (Inr v, s') \<Longrightarrow> (\<exists>t. v = f t (db s)) \<and> db s' = db s"
  by (auto simp: io_evals split: prod.splits sql_reply.splits)

lemma set_visible_rows:
  "set (visible_rows u d) = {b \<in> set (buckets d). Status b = ''active'' \<and> (u, ID b) \<in> grant_key ` set (account_bucket_grants d)}"
  by (auto simp: visible_rows_def grant_key_def image_iff)

lemma first_row_filter:
  "case first_row (filter P rows) of None \<Rightarrow> \<forall>r \<in> set rows. \<not> P r | Some r \<Rightarrow> r \<in> set rows \<and> P r"
proof (cases "filter P rows")
  case Nil
  then show ?thesis by (auto simp: first_row_def filter_empty_conv)
next
  case (Cons r rs)
  have "r \<in> set (filter P rows)" unfolding Cons by simp
  then have "r \<in> set rows \<and> P r" by simp
  then show ?thesis by (simp add: Cons first_row_def)
qed

lemma truncate_fields:
  "BucketName (Bucket.truncate b) = BucketName b" "ID (Bucket.truncate b) = ID b" "Status (Bucket.truncate b) = Status b"
  by (simp_all add: Bucket.truncate_def)

lemma GetVisible_result:
  assumes "Buckets_GetVisible x u name s = Some (Inr found, s')"
  shows "case found of
      Some b \<Rightarrow> BucketName b = name \<and> Status b = ''active'' \<and>
        (u, ID b) \<in> grant_key ` set (account_bucket_grants (db s)) \<and> b \<in> Bucket.truncate ` set (buckets (db s))
    | None \<Rightarrow> \<not> (\<exists>b \<in> set (buckets (db s)). BucketName b = name \<and> Status b = ''active'' \<and>
        (u, ID b) \<in> grant_key ` set (account_bucket_grants (db s)))"
proof -
  have "found = map_option Bucket.truncate (first_row (filter (\<lambda>b. BucketName b = name) (visible_rows u (db s))))"
    using sql_query_value [OF assms [unfolded Buckets_GetVisible_def]] by auto
  then show ?thesis
    using first_row_filter [where P = "\<lambda>b. BucketName b = name" and rows = "visible_rows u (db s)"]
    by (auto simp: set_visible_rows truncate_fields split: option.splits)
qed

text \<open>
  C35: An account reaches exactly the active buckets it has a grant for: what \<^verbatim>\<open>GetVisible\<close>
  returns has the name, is active and granted, and \<^verbatim>\<open>nil\<close> means that no such bucket exists.
\<close>

theorem GetVisible_authorized:
  assumes "Buckets_GetVisible x u name s = Some (Inr found, s')"
  shows "case found of
      Some b \<Rightarrow> BucketName b = name \<and> Status b = ''active'' \<and>
        (u, ID b) \<in> grant_key ` set (account_bucket_grants (db s)) \<and> b \<in> Bucket.truncate ` set (buckets (db s))
    | None \<Rightarrow> \<not> (\<exists>b \<in> set (buckets (db s)). BucketName b = name \<and> Status b = ''active'' \<and>
        (u, ID b) \<in> grant_key ` set (account_bucket_grants (db s)))"
  by (rule GetVisible_result [OF assms])

theorem GetVisible_authorized_witness:
  "\<exists>b s'. Buckets_GetVisible demo_ext 9 ''media'' demo_sys = Some (Inr (Some b), s') \<and> ID b = 1 \<and> Status b = ''active''"
proof -
  have "map_option (map_sum (\<lambda>_. ()) (map_option ID) \<circ> fst) (Buckets_GetVisible demo_ext 9 ''media'' demo_sys) = Some (Inr (Some 1))"
    by code_simp
  then obtain b s' where run: "Buckets_GetVisible demo_ext 9 ''media'' demo_sys = Some (Inr (Some b), s')" "ID b = 1"
    by (rule run_value) auto
  then show ?thesis using GetVisible_authorized [OF run(1)] by auto
qed

subsection \<open>Replacing the grants of operations\<close>

definition lookup_grant :: "tenant_db \<Rightarrow> int \<times> int \<Rightarrow> grant_row option" where
  "lookup_grant d k = tab_find grant_key (account_bucket_grants d) k"

definition put_grant :: "int \<times> int \<Rightarrow> bool \<Rightarrow> tenant_db \<Rightarrow> tenant_db" where
  "put_grant k isLocal = sql_grant (fst k) (snd k) isLocal"

interpretation grants: keyed_store lookup_grant put_grant db_wf
  "\<lambda>k isLocal old. case old of None \<Rightarrow> \<lparr>g_user_id = fst k, g_bucket_id = snd k, g_local = isLocal\<rparr> | Some g \<Rightarrow> g"
proof unfold_locales
  show "db_wf (put_grant k v d)" if "db_wf d" for k v d
    using that tab_wf_upsert [of grant_key "account_bucket_grants d" "\<lambda>g. g"]
    by (simp add: db_wf_def put_grant_def sql_grant_def)
  show "lookup_grant (put_grant k v d) k' =
      (if k' = k then Some (case lookup_grant d k of None \<Rightarrow> \<lparr>g_user_id = fst k, g_bucket_id = snd k, g_local = v\<rparr> | Some g \<Rightarrow> g)
       else lookup_grant d k')" for k v d k'
    by (simp add: lookup_grant_def put_grant_def sql_grant_def tab_find_upsert grant_key_def)
qed

lemma clear_ops_grants:
  assumes "db_wf d"
  shows "db_wf (sql_clear_ops_grants u d)"
    and "lookup_grant (sql_clear_ops_grants u d) k = (case lookup_grant d k of None \<Rightarrow> None
      | Some g \<Rightarrow> if fst k = u \<and> \<not> g_local g then None else Some g)"
proof -
  have wf: "tab_wf grant_key (account_bucket_grants d)" using assms by (simp add: db_wf_def)
  then show "db_wf (sql_clear_ops_grants u d)"
    using assms tab_wf_delete [OF wf] by (simp add: db_wf_def sql_clear_ops_grants_def)
  show "lookup_grant (sql_clear_ops_grants u d) k = (case lookup_grant d k of None \<Rightarrow> None
      | Some g \<Rightarrow> if fst k = u \<and> \<not> g_local g then None else Some g)"
    using tab_find_delete [OF wf] tab_find_SomeD [of grant_key "account_bucket_grants d" k]
    by (auto simp: lookup_grant_def sql_clear_ops_grants_def grant_key_def split: option.split)
qed

lemma for_each_grants:
  assumes "for_each (\<lambda>bid. wrap_err p (sql_exec x (\<lambda>_. sql_grant u bid False))) ids s = Some (Inr (), s')"
  shows "db s' = grants.puts (map (\<lambda>bid. ((u, bid), False)) ids) (db s)"
  using assms
proof (induction ids arbitrary: s)
  case (Cons bid ids)
  from Cons.prems obtain t where t: "wrap_err p (sql_exec x (\<lambda>_. sql_grant u bid False)) s = Some (Inr (), t)"
      "for_each (\<lambda>bid. wrap_err p (sql_exec x (\<lambda>_. sql_grant u bid False))) ids t = Some (Inr (), s')"
    by (auto elim: bind_Inr_E)
  from t(1) have "db t = put_grant (u, bid) False (db s)"
    by (auto simp: io_evals put_grant_def split: prod.splits sql_reply.splits)
  then show ?case using Cons.IH [OF t(2)] by simp
qed (simp add: ret_apply)

lemma puts_grants:
  "db_wf d \<Longrightarrow> lookup_grant (grants.puts (map (\<lambda>bid. ((u, bid), False)) ids) d) k =
    (case lookup_grant d k of Some g \<Rightarrow> Some g
     | None \<Rightarrow> if fst k = u \<and> snd k \<in> set ids then Some \<lparr>g_user_id = u, g_bucket_id = snd k, g_local = False\<rparr> else None)"
proof (induction ids arbitrary: d)
  case (Cons bid ids)
  show ?case
    using Cons.IH [OF grants.wf_put [OF Cons.prems, of "(u, bid)" False]] grants.lookup_put [OF Cons.prems, of "(u, bid)" False k]
    by (cases k) (auto split: option.splits)
qed (simp split: option.splits)

text \<open>
  C36: \<^verbatim>\<open>ReplaceOpsGrants\<close> is all or nothing. Its effect leaves the grants of other accounts and
  the local grants of this one as they were, and makes the rest of this account's grants
  exactly the given buckets.
\<close>

theorem ReplaceOpsGrants_exact:
  assumes "Buckets_ReplaceOpsGrants x u ids s = Some (r, s')" and "db_wf (db s)"
  shows "r \<noteq> Inr () \<and> db s' = db s \<or> db_wf (db s') \<and> (\<forall>v b. lookup_grant (db s') (v, b) =
    (case lookup_grant (db s) (v, b) of
       Some g \<Rightarrow> if v \<noteq> u \<or> g_local g then Some g
         else if b \<in> set ids then Some \<lparr>g_user_id = u, g_bucket_id = b, g_local = False\<rparr> else None
     | None \<Rightarrow> if v = u \<and> b \<in> set ids then Some \<lparr>g_user_id = u, g_bucket_id = b, g_local = False\<rparr> else None))"
proof -
  let ?body = "bind (wrap_err ''clear ops grants'' (sql_exec x (\<lambda>_. sql_clear_ops_grants u))) (\<lambda>_.
        for_each (\<lambda>bid. wrap_err ''insert ops grant'' (sql_exec x (\<lambda>_. sql_grant u bid False))) ids)"
  have effect: "db_wf (db t') \<and> (\<forall>v b. lookup_grant (db t') (v, b) =
    (case lookup_grant (db s) (v, b) of
       Some g \<Rightarrow> if v \<noteq> u \<or> g_local g then Some g
         else if b \<in> set ids then Some \<lparr>g_user_id = u, g_bucket_id = b, g_local = False\<rparr> else None
     | None \<Rightarrow> if v = u \<and> b \<in> set ids then Some \<lparr>g_user_id = u, g_bucket_id = b, g_local = False\<rparr> else None))"
    if body: "?body t = Some (Inr a, t')" and same: "db t = db s" for a t t'
  proof -
    from body obtain t1 where t1: "wrap_err ''clear ops grants'' (sql_exec x (\<lambda>_. sql_clear_ops_grants u)) t = Some (Inr (), t1)"
      "for_each (\<lambda>bid. wrap_err ''insert ops grant'' (sql_exec x (\<lambda>_. sql_grant u bid False))) ids t1 = Some (Inr (), t')"
      by (auto elim: bind_Inr_E)
    have d1: "db t1 = sql_clear_ops_grants u (db s)"
      using t1(1) same by (auto simp: io_evals split: prod.splits sql_reply.splits)
    note wf = clear_ops_grants(1) [OF assms(2), of u]
    have "db t' = grants.puts (map (\<lambda>bid. ((u, bid), False)) ids) (sql_clear_ops_grants u (db s))"
      using for_each_grants [OF t1(2)] d1 by simp
    then show ?thesis
      by (simp add: grants.wf_puts [OF wf] puts_grants [OF wf] clear_ops_grants(2) [OF assms(2)] split: option.split)
  qed
  from assms(1) show ?thesis
    unfolding Buckets_ReplaceOpsGrants_def
  proof (cases rule: sql_transaction_plain_E)
    case (committed a t t')
    then show ?thesis using effect by presburger
  next
    case (failed err)
    then show ?thesis by simp
  next
    case (lost err a t t')
    then show ?thesis using effect by presburger
  qed
qed

theorem ReplaceOpsGrants_exact_witness:
  "\<exists>s'. Buckets_ReplaceOpsGrants demo_ext 9 [1, 4] demo_sys = Some (Inr (), s') \<and>
     lookup_grant (db s') (9, 1) = Some \<lparr>g_user_id = 9, g_bucket_id = 1, g_local = True\<rparr> \<and>
     lookup_grant (db s') (9, 4) = Some \<lparr>g_user_id = 9, g_bucket_id = 4, g_local = False\<rparr>"
proof -
  have "map_option fst (Buckets_ReplaceOpsGrants demo_ext 9 [1, 4] demo_sys) = Some (Inr ())" by code_simp
  then obtain s' where run: "Buckets_ReplaceOpsGrants demo_ext 9 [1, 4] demo_sys = Some (Inr (), s')"
    by (rule run_obtain)
  have "db_wf (db demo_sys)" by (simp add: demo_sys_def demo_db_wf)
  from ReplaceOpsGrants_exact [OF run this] show ?thesis
    using run by (simp add: lookup_grant_def demo_sys_def demo_db_def grant_key_def)
qed

subsection \<open>Usage\<close>

lemma sql_in_trash_iff: "sql_in_trash key \<longleftrightarrow> prefix TrashPrefix key"
  by (auto simp: sql_in_trash_def sql_like_trash TrashPrefix_def)

lemma sql_in_versions_iff: "sql_in_versions key \<longleftrightarrow> prefix VersionPrefix key"
  using sql_like_literal [of "''.versions/''" key] by (auto simp: sql_in_versions_def plain_char_def VersionPrefix_def)

text \<open>Every key is of exactly one of the three kinds.\<close>

lemma kinds:
  "sql_is_live key \<longleftrightarrow> \<not> sql_in_trash key \<and> \<not> sql_in_versions key" "sql_in_trash key \<Longrightarrow> \<not> sql_in_versions key"
  by (auto simp: sql_is_live_iff sql_in_trash_iff sql_in_versions_iff TrashPrefix_def VersionPrefix_def prefix_def)

lemma kinds_sum:
  fixes h :: "object_row \<Rightarrow> int"
  shows "sum_list (map h (filter (\<lambda>r. sql_is_live (o_object_key r)) rows))
    + sum_list (map h (filter (\<lambda>r. sql_in_trash (o_object_key r)) rows))
    + sum_list (map h (filter (\<lambda>r. sql_in_versions (o_object_key r)) rows)) = sum_list (map h rows)"
proof (induction rows)
  case (Cons r rows)
  then show ?case using kinds [of "o_object_key r"] by auto
qed simp

lemma length_sum: "int (length rows) = sum_list (map (\<lambda>_. 1) rows)"
  by (induction rows) auto

lemma sum_insert_usage: "sum_list (map g (insert_usage le u vs)) = g u + sum_list (map g vs)" for g :: "prefix_usage \<Rightarrow> int"
  by (induction le u vs rule: insert_usage.induct) auto

lemma set_insert_usage: "set (map p_Prefix (insert_usage le u vs)) = insert (p_Prefix u) (set (map p_Prefix vs))"
  by (induction le u vs rule: insert_usage.induct) auto

lemma distinct_insert_usage: "distinct (map p_Prefix (insert_usage le u vs)) \<longleftrightarrow> distinct (map p_Prefix (u # vs))"
  using set_insert_usage by (induction le u vs rule: insert_usage.induct) auto

lemma sum_order_usage: "sum_list (map g (foldr (insert_usage le) us [])) = sum_list (map g us)" for g :: "prefix_usage \<Rightarrow> int"
  by (induction us) (simp_all add: sum_insert_usage)

lemma distinct_order_usage: "distinct (map p_Prefix (foldr (insert_usage le) us [])) \<longleftrightarrow> distinct (map p_Prefix us)"
proof -
  have "set (map p_Prefix (foldr (insert_usage le) us [])) = set (map p_Prefix us)"
    by (induction us) (simp_all add: set_insert_usage del: set_map)
  then show ?thesis
  proof (induction us)
    case (Cons u us)
    have "set (map p_Prefix (foldr (insert_usage le) us [])) = set (map p_Prefix us)"
      by (induction us) (simp_all add: set_insert_usage del: set_map)
    then show ?case using Cons.IH by (simp add: distinct_insert_usage)
  qed simp
qed

lemma group_usage_sums:
  "sum_list (map p_UsedBytes (group_usage rows)) = sum_size rows"
  "sum_list (map p_ObjectCount (group_usage rows)) = int (length rows)"
  "distinct (map p_Prefix (group_usage rows))"
  using sum_dedup_groups [of "\<lambda>r. coalesce0 (o_size r)" "\<lambda>r. sql_first_level (o_object_key r)" rows]
    sum_dedup_groups [of "\<lambda>_. 1" "\<lambda>r. sql_first_level (o_object_key r)" rows]
  by (simp_all add: group_usage_def sum_size_def comp_def Let_def length_sum)

text \<open>
  The usage of a bucket adds up: live, trashed and versioned objects are all its rows, in
  bytes and in number, and the usage by first-level prefix, one line per prefix, has the same
  totals as the live part.
\<close>

theorem usage_adds_up:
  assumes "Buckets_UsageByID x ids s = Some (Inr usage, s1)" and "usage bid = Some u"
    and "Buckets_PrefixUsage x bid s1 = Some (Inr lines, s2)"
  shows "UsedBytes u + TrashBytes u + VersionBytes u = sum_size (filter (\<lambda>r. o_bucket_id r = bid) (object_records (db s)))
    \<and> ObjectCount u + TrashCount u + VersionCount u = int (length (filter (\<lambda>r. o_bucket_id r = bid) (object_records (db s))))
    \<and> sum_list (map p_UsedBytes lines) = UsedBytes u \<and> sum_list (map p_ObjectCount lines) = ObjectCount u
    \<and> distinct (map p_Prefix lines)"
proof -
  let ?rows = "filter (\<lambda>r. o_bucket_id r = bid) (object_records (db s))"
  have ids: "ids \<noteq> []" using assms(1,2) by (auto simp: Buckets_UsageByID_def ret_apply)
  then have u: "u = usage_of ?rows" and same: "db s1 = db s"
    using assms(2) sql_query_value assms(1) [unfolded Buckets_UsageByID_def]
    by (auto simp: Let_def dest!: sql_query_value split: if_splits)
  have lines: "lines = foldr (insert_usage (collate x)) (group_usage (filter (\<lambda>r. sql_is_live (o_object_key r)) ?rows)) []"
    using sql_query_value [OF assms(3) [unfolded Buckets_PrefixUsage_def]] same by (auto simp: conj_commute)
  show ?thesis
    using kinds_sum [of "\<lambda>r. coalesce0 (o_size r)" ?rows] kinds_sum [of "\<lambda>_. 1" ?rows]
    by (simp add: u lines usage_of_def Let_def sum_order_usage distinct_order_usage group_usage_sums sum_size_def
        length_sum del: length_filter_conv_card)
qed

theorem usage_adds_up_witness:
  "\<exists>usage s1 u lines s2. Buckets_UsageByID demo_ext [1] demo_sys = Some (Inr usage, s1) \<and> usage 1 = Some u \<and>
     Buckets_PrefixUsage demo_ext 1 s1 = Some (Inr lines, s2) \<and> ObjectCount u + TrashCount u + VersionCount u = 3"
proof -
  have "map_option (map_sum (\<lambda>_. ()) (\<lambda>m. map_option UsedBytes (m 1)) \<circ> fst) (Buckets_UsageByID demo_ext [1] demo_sys) = Some (Inr (Some 2))"
    by code_simp
  then obtain usage s1 where run: "Buckets_UsageByID demo_ext [1] demo_sys = Some (Inr usage, s1)" "map_option UsedBytes (usage 1) = Some 2"
    by (rule run_value)
  then obtain u where u: "usage 1 = Some u" by auto
  obtain lines s2 where lines: "Buckets_PrefixUsage demo_ext 1 s1 = Some (Inr lines, s2)"
    by (simp add: Buckets_PrefixUsage_def io_evals mem_ext_def)
  show ?thesis
    using usage_adds_up [OF run(1) u lines] run u lines by (auto simp: demo_sys_def demo_db_def demo_object_def)
qed

end
