(* ===== verification/Versions.thy ===== *)
theory Versions
  imports BucketStore
begin

text \<open>
  \<^verbatim>\<open>internal/versions/store.go\<close>: the versions of a file. \<open>new_id\<close> is the id that the schema gives a
  new row.
\<close>

record version_record =
  VersionID :: int
  VersionBucket :: string
  VersionKey :: string
  VersionNo :: int
  StorageKey :: string
  VersionSize :: int
  VersionETag :: "string option"
  VersionCreatedBy :: int
  CreatedByUsername :: "string option"
  VersionCreatedAt :: time
  VersionSource :: string
  VersionRemark :: "string option"

text \<open>A row as \<^verbatim>\<open>scan\<close> reads it, joined with the name of its creator.\<close>

definition scan_version :: "tenant_db \<Rightarrow> version_row \<Rightarrow> version_record" where
  "scan_version d v = \<lparr>VersionID = v_id v, VersionBucket = v_bucket_name v, VersionKey = v_object_key v,
     VersionNo = v_version_no v, StorageKey = v_storage_key v, VersionSize = v_size v, VersionETag = v_etag v,
     VersionCreatedBy = v_created_by v,
     CreatedByUsername = map_option usr_username (find (\<lambda>u. usr_id u = v_created_by v) (tenant_users d)),
     VersionCreatedAt = v_created_at v, VersionSource = v_source v, VersionRemark = v_remark v\<rparr>"

definition versions_of :: "string \<Rightarrow> string \<Rightarrow> tenant_db \<Rightarrow> version_row list" where
  "versions_of bucket key d = filter (\<lambda>v. v_bucket_name v = bucket \<and> v_object_key v = key) (file_versions d)"

definition Versions_List :: "'e ext \<Rightarrow> string \<Rightarrow> string \<Rightarrow> int \<Rightarrow> int \<Rightarrow> ('e, version_record list \<times> int) io" where
  "Versions_List x bucket key limit offset =
     bind (wrap_err ''count versions'' (sql_query x (\<lambda>_ d. int (length (versions_of bucket key d))))) (\<lambda>total.
     bind (wrap_err ''list versions'' (sql_query x (\<lambda>_ d.
       map (scan_version d) (take (nat limit) (drop (nat offset)
         (sort_key (\<lambda>v. - v_version_no v) (versions_of bucket key d))))))) (\<lambda>out.
     ret (out, total)))"

definition Versions_GetByID :: "'e ext \<Rightarrow> int \<Rightarrow> ('e, version_record option) io" where
  "Versions_GetByID x vid = wrap_err ''get version'' (sql_query x (\<lambda>_ d.
     map_option (scan_version d) (find (\<lambda>v. v_id v = vid) (file_versions d))))"

text \<open>\<^verbatim>\<open>COALESCE(MAX(version_no), n)\<close>.\<close>

definition max_no :: "int \<Rightarrow> version_row list \<Rightarrow> int" where
  "max_no n rows = (if rows = [] then n else Max (v_version_no ` set rows))"

text \<open>\<open>present\<close>: the store and its pool are not \<^verbatim>\<open>nil\<close>.\<close>

definition Versions_MaxNo :: "'e ext \<Rightarrow> bool \<Rightarrow> string \<Rightarrow> string \<Rightarrow> ('e, int) io" where
  "Versions_MaxNo x present bucket key =
     (if \<not> present then ret 1
      else wrap_err ''max version'' (sql_query x (\<lambda>_ d. max_no 1 (versions_of bucket key d))))"

definition Versions_NextNo :: "'e ext \<Rightarrow> string \<Rightarrow> string \<Rightarrow> ('e, int) io" where
  "Versions_NextNo x bucket key =
     wrap_err ''next version'' (sql_query x (\<lambda>_ d. max_no 0 (versions_of bucket key d) + 1))"

definition sql_insert_version :: "(tenant_db \<Rightarrow> int) \<Rightarrow> version_record \<Rightarrow> tenant_db \<Rightarrow> int \<times> tenant_db" where
  "sql_insert_version new_id r d = (new_id d, d\<lparr>file_versions := file_versions d @
     [\<lparr>v_id = new_id d, v_bucket_name = VersionBucket r, v_object_key = VersionKey r, v_version_no = VersionNo r,
       v_storage_key = StorageKey r, v_size = VersionSize r, v_etag = VersionETag r,
       v_created_by = VersionCreatedBy r, v_created_at = VersionCreatedAt r, v_source = VersionSource r,
       v_remark = VersionRemark r\<rparr>]\<rparr>)"

text \<open>The result is the record with its new id, which the code writes into its argument.\<close>

definition Versions_Insert :: "'e ext \<Rightarrow> (tenant_db \<Rightarrow> int) \<Rightarrow> version_record \<Rightarrow> ('e, version_record) io" where
  "Versions_Insert x new_id r =
     bind (wrap_err ''insert version'' (sql_stmt x (\<lambda>_. sql_insert_version new_id r)))
       (\<lambda>vid. ret (r\<lparr>VersionID := vid\<rparr>))"

definition expired_version_row :: "int \<Rightarrow> string \<Rightarrow> time \<Rightarrow> version_row \<Rightarrow> bool" where
  "expired_version_row days bucketName t v \<longleftrightarrow>
     v_created_at v < t - days * Day \<and> (bucketName \<noteq> [] \<longrightarrow> v_bucket_name v = bucketName)"

definition Versions_expired :: "'e ext \<Rightarrow> int \<Rightarrow> string \<Rightarrow> ('e, version_record list) io" where
  "Versions_expired x days bucketName = wrap_err ''expired versions'' (sql_query x (\<lambda>t d.
     map (scan_version d) (take 5000 (sort_key v_id (filter (expired_version_row days bucketName t) (file_versions d))))))"

definition Versions_Expired :: "'e ext \<Rightarrow> int \<Rightarrow> ('e, version_record list) io" where
  "Versions_Expired x days = Versions_expired x days []"

definition Versions_ExpiredInBucket :: "'e ext \<Rightarrow> int \<Rightarrow> string \<Rightarrow> ('e, version_record list) io" where
  "Versions_ExpiredInBucket x days bucketName = Versions_expired x days bucketName"

definition sql_delete_version :: "int \<Rightarrow> tenant_db \<Rightarrow> tenant_db" where
  "sql_delete_version vid d = d\<lparr>file_versions := tab_delete (\<lambda>v. v_id v = vid) (file_versions d)\<rparr>"

definition Versions_Delete :: "'e ext \<Rightarrow> int \<Rightarrow> ('e, unit) io" where
  "Versions_Delete x vid = wrap_err ''delete version'' (sql_exec x (\<lambda>_. sql_delete_version vid))"

section \<open>Facts\<close>

lemma total_versions [io_rules]: "total (Versions_Expired x days)" "total (Versions_ExpiredInBucket x days b)" "total (Versions_Delete x i)"
  unfolding Versions_Expired_def Versions_ExpiredInBucket_def Versions_expired_def Versions_Delete_def by (intro io_rules)+

lemma max_no_bounds:
  "(\<And>v. v \<in> set rows \<Longrightarrow> v_version_no v \<le> max_no n rows)"
  "rows \<noteq> [] \<Longrightarrow> \<exists>v \<in> set rows. v_version_no v = max_no n rows"
proof -
  show "v \<in> set rows \<Longrightarrow> v_version_no v \<le> max_no n rows" for v
    by (auto simp: max_no_def)
  assume ne: "rows \<noteq> []"
  then have "Max (v_version_no ` set rows) \<in> v_version_no ` set rows" by (intro Max_in) auto
  then obtain v where "v \<in> set rows" "Max (v_version_no ` set rows) = v_version_no v" by (rule imageE)
  then show "\<exists>v \<in> set rows. v_version_no v = max_no n rows" using ne by (intro bexI [of _ v]) (simp_all add: max_no_def)
qed

text \<open>
  The number \<^verbatim>\<open>NextNo\<close> gives is above every number the file has; a version inserted under
  it is the one with the highest number, the only one with that number, and \<^verbatim>\<open>MaxNo\<close> finds it.
\<close>

theorem next_version_is_new:
  assumes "Versions_NextNo x bucket key s = Some (Inr n, s1)"
    and "VersionBucket r = bucket" and "VersionKey r = key" and "VersionNo r = n"
    and "Versions_Insert x new_id r s1 = Some (Inr r', s2)"
    and "Versions_MaxNo x True bucket key s2 = Some (Inr m, s3)"
  shows "(\<forall>v \<in> set (versions_of bucket key (db s)). v_version_no v < n) \<and> m = n \<and>
    length (filter (\<lambda>v. v_version_no v = n) (versions_of bucket key (db s2))) = 1"
proof -
  have n: "n = max_no 0 (versions_of bucket key (db s)) + 1" and d1: "db s1 = db s"
    using sql_query_value [OF assms(1) [unfolded Versions_NextNo_def]] by auto
  have d2: "db s2 = snd (sql_insert_version new_id r (db s1))"
    using assms(5) by (auto simp: Versions_Insert_def io_evals split: prod.splits sql_reply.splits)
  have m: "m = max_no 1 (versions_of bucket key (db s2))"
    using assms(6) sql_query_value by (auto simp: Versions_MaxNo_def dest: sql_query_value)
  have below: "\<forall>v \<in> set (versions_of bucket key (db s)). v_version_no v < n"
    using max_no_bounds(1) n by fastforce
  obtain v where v: "versions_of bucket key (db s2) = versions_of bucket key (db s) @ [v]" "v_version_no v = n"
    using assms(2-4) by (simp add: d2 d1 sql_insert_version_def versions_of_def)
  have "m = n"
  proof (rule antisym)
    show "n \<le> m" using max_no_bounds(1) [of v "versions_of bucket key (db s2)" 1] v m by simp
    obtain w where "w \<in> set (versions_of bucket key (db s2))" "v_version_no w = m"
      using max_no_bounds(2) [of "versions_of bucket key (db s2)" 1] v(1) m by auto
    then show "m \<le> n" using v below by fastforce
  qed
  moreover have "filter (\<lambda>v. v_version_no v = n) (versions_of bucket key (db s)) = []"
    using below by (auto simp: filter_empty_conv)
  ultimately show ?thesis using below v by simp
qed

definition demo_version :: version_record where
  "demo_version = \<lparr>VersionID = 0, VersionBucket = ''media'', VersionKey = ''docs/a'', VersionNo = 1,
     StorageKey = ''.versions/docs/a/1'', VersionSize = 3, VersionETag = None, VersionCreatedBy = 5,
     CreatedByUsername = None, VersionCreatedAt = 0, VersionSource = ''upload'', VersionRemark = None\<rparr>"

theorem next_version_is_new_witness:
  "\<exists>s1 s2 s3. Versions_NextNo demo_ext ''media'' ''docs/a'' demo_sys = Some (Inr 1, s1) \<and>
     Versions_Insert demo_ext (\<lambda>_. 77) demo_version s1 = Some (Inr (demo_version\<lparr>VersionID := 77\<rparr>), s2) \<and>
     Versions_MaxNo demo_ext True ''media'' ''docs/a'' s2 = Some (Inr 1, s3)"
proof -
  obtain s1 where s1: "Versions_NextNo demo_ext ''media'' ''docs/a'' demo_sys = Some (Inr 1, s1)"
    by (simp add: Versions_NextNo_def io_evals mem_ext_def max_no_def versions_of_def demo_sys_def demo_db_def empty_db_def)
  obtain s2 where s2: "Versions_Insert demo_ext (\<lambda>_. 77) demo_version s1 = Some (Inr (demo_version\<lparr>VersionID := 77\<rparr>), s2)"
    by (simp add: Versions_Insert_def io_evals mem_ext_def sql_insert_version_def)
  obtain m s3 where s3: "Versions_MaxNo demo_ext True ''media'' ''docs/a'' s2 = Some (Inr m, s3)"
    by (simp add: Versions_MaxNo_def io_evals mem_ext_def)
  have "VersionBucket demo_version = ''media''" "VersionKey demo_version = ''docs/a''" "VersionNo demo_version = 1"
    by (simp_all add: demo_version_def)
  from next_version_is_new [OF s1 this s2 s3] show ?thesis using s1 s2 s3 by blast
qed

end
