(* ===== verification/Uploads.thy ===== *)
theory Uploads
  imports BucketStore
begin

text \<open>
  \<^verbatim>\<open>internal/uploads/store.go\<close>: the upload tasks, which start pending and are finished once.
  \<open>defaults\<close> is what the schema fills into a new row, its id and creation time among them.
\<close>

definition TypeSimple :: string where "TypeSimple = ''simple''"
definition TypeMultipart :: string where "TypeMultipart = ''multipart''"
definition StatusPending :: string where "StatusPending = ''pending''"
definition StatusDone :: string where "StatusDone = ''completed''"
definition StatusAbort :: string where "StatusAbort = ''aborted''"

record upload_task =
  TaskID :: int
  TaskUserID :: int
  TaskBucket :: string
  TaskKey :: string
  UploadType :: string
  UploadID :: "string option"
  TaskSize :: "int option"
  TaskContentType :: "string option"
  TaskStatus :: string

definition scan_upload :: "upload_row \<Rightarrow> upload_task" where
  "scan_upload u = \<lparr>TaskID = u_id u, TaskUserID = u_user_id u, TaskBucket = u_bucket_name u, TaskKey = u_object_key u,
     UploadType = u_upload_type u, UploadID = u_upload_id u, TaskSize = u_size u,
     TaskContentType = u_content_type u, TaskStatus = u_status u\<rparr>"

definition sql_insert_upload :: "(time \<Rightarrow> tenant_db \<Rightarrow> upload_row) \<Rightarrow> upload_task \<Rightarrow> time \<Rightarrow> time \<Rightarrow> tenant_db \<Rightarrow> int \<times> tenant_db" where
  "sql_insert_upload defaults t expiredAt now d =
     (let r = (defaults now d)\<lparr>u_user_id := TaskUserID t, u_bucket_name := TaskBucket t, u_object_key := TaskKey t,
            u_upload_type := UploadType t, u_upload_id := UploadID t, u_size := TaskSize t,
            u_content_type := TaskContentType t, u_status := StatusPending, u_expired_at := expiredAt\<rparr>
      in (u_id r, d\<lparr>upload_tasks := upload_tasks d @ [r]\<rparr>))"

definition Uploads_Insert :: "'e ext \<Rightarrow> (time \<Rightarrow> tenant_db \<Rightarrow> upload_row) \<Rightarrow> upload_task \<Rightarrow> time \<Rightarrow> ('e, upload_task) io" where
  "Uploads_Insert x defaults t expiredAt =
     bind (sql_stmt x (sql_insert_upload defaults t expiredAt)) (\<lambda>tid. ret (t\<lparr>TaskID := tid\<rparr>))"

definition Uploads_GetPending :: "'e ext \<Rightarrow> int \<Rightarrow> int \<Rightarrow> string \<Rightarrow> string \<Rightarrow> string \<Rightarrow> ('e, upload_task option) io" where
  "Uploads_GetPending x tid userID bucket key uploadType =
     bind (wrap_err ''get upload task'' (sql_query x (\<lambda>_ d.
       map_option scan_upload (find (\<lambda>u. u_id u = tid) (upload_tasks d))))) (\<lambda>row. case row of
         None \<Rightarrow> ret None
       | Some t \<Rightarrow>
           if TaskUserID t \<noteq> userID \<or> TaskBucket t \<noteq> bucket \<or> TaskKey t \<noteq> key \<or> UploadType t \<noteq> uploadType
              \<or> TaskStatus t \<noteq> StatusPending
           then ret None else ret (Some t))"

definition sql_finish_upload :: "int \<Rightarrow> string \<Rightarrow> time \<Rightarrow> tenant_db \<Rightarrow> tenant_db" where
  "sql_finish_upload tid status at d =
     d\<lparr>upload_tasks := tab_update (\<lambda>u. u_id u = tid) (\<lambda>u. u\<lparr>u_status := status, u_completed_at := Some at\<rparr>) (upload_tasks d)\<rparr>"

definition Uploads_Finish :: "'e ext \<Rightarrow> int \<Rightarrow> string \<Rightarrow> time \<Rightarrow> ('e, unit) io" where
  "Uploads_Finish x tid status at = sql_exec x (\<lambda>_. sql_finish_upload tid status at)"

text \<open>\<^verbatim>\<open>JOIN tenant_users u ON u.id = t.user_id WHERE COALESCE(u.account_id, u.id) = $1\<close>.\<close>

definition Uploads_CompletedBytesSince :: "'e ext \<Rightarrow> int \<Rightarrow> time \<Rightarrow> ('e, int) io" where
  "Uploads_CompletedBytesSince x accountID since = wrap_err ''daily upload bytes'' (sql_query x (\<lambda>_ d.
     sum_list (concat (map (\<lambda>t. map (\<lambda>u. coalesce0 (u_size t)) (filter (\<lambda>u. usr_id u = u_user_id t
         \<and> (case usr_account_id u of None \<Rightarrow> usr_id u | Some a \<Rightarrow> a) = accountID) (tenant_users d)))
       (filter (\<lambda>t. u_status t = StatusDone \<and> (case u_completed_at t of None \<Rightarrow> False | Some c \<Rightarrow> since \<le> c)) (upload_tasks d))))))"

definition stale_upload_row :: "int \<Rightarrow> string \<Rightarrow> time \<Rightarrow> upload_row \<Rightarrow> bool" where
  "stale_upload_row staleDays bucketName t u \<longleftrightarrow>
     u_upload_type u = TypeMultipart \<and> u_status u = StatusPending
     \<and> (u_expired_at u < t \<or> u_created_at u < t - staleDays * Day)
     \<and> (bucketName \<noteq> [] \<longrightarrow> u_bucket_name u = bucketName)"

definition Uploads_staleMultipart :: "'e ext \<Rightarrow> int \<Rightarrow> string \<Rightarrow> ('e, upload_task list) io" where
  "Uploads_staleMultipart x staleDays bucketName = wrap_err ''stale multipart'' (sql_query x (\<lambda>t d.
     map scan_upload (take 5000 (sort_key u_id (filter (stale_upload_row staleDays bucketName t) (upload_tasks d))))))"

definition Uploads_StaleMultipart :: "'e ext \<Rightarrow> int \<Rightarrow> ('e, upload_task list) io" where
  "Uploads_StaleMultipart x staleDays = Uploads_staleMultipart x staleDays []"

definition Uploads_StaleMultipartInBucket :: "'e ext \<Rightarrow> int \<Rightarrow> string \<Rightarrow> ('e, upload_task list) io" where
  "Uploads_StaleMultipartInBucket x staleDays bucketName = Uploads_staleMultipart x staleDays bucketName"

section \<open>Facts\<close>

lemma total_uploads [io_rules]: "total (Uploads_StaleMultipart x days)" "total (Uploads_StaleMultipartInBucket x days b)" "total (Uploads_Finish x i st t)"
  unfolding Uploads_StaleMultipart_def Uploads_StaleMultipartInBucket_def Uploads_staleMultipart_def Uploads_Finish_def by (intro io_rules)+

lemma find_update_upload:
  "find (\<lambda>u. u_id u = i) (tab_update (\<lambda>u. u_id u = j) (\<lambda>u. u\<lparr>u_status := st, u_completed_at := c\<rparr>) rows) =
     map_option (\<lambda>u. if u_id u = j then u\<lparr>u_status := st, u_completed_at := c\<rparr> else u) (find (\<lambda>u. u_id u = i) rows)"
  by (induction rows) (auto simp: tab_update_def)

lemma GetPending_value:
  "Uploads_GetPending x tid uid b k ty s = Some (Inr q, s') \<Longrightarrow>
     q = (case find (\<lambda>u. u_id u = tid) (upload_tasks (db s)) of None \<Rightarrow> None
       | Some u \<Rightarrow> if u_user_id u = uid \<and> u_bucket_name u = b \<and> u_object_key u = k \<and> u_upload_type u = ty
             \<and> u_status u = StatusPending then Some (scan_upload u) else None)"
  unfolding Uploads_GetPending_def
  by (auto elim!: bind_Inr_E dest!: sql_query_value simp: ret_apply scan_upload_def split: option.splits if_splits)

text \<open>The writes to the table, as its callers issue them; an error is theirs to report.\<close>

datatype upload_op = Op_Insert upload_task time | Op_Finish int string time

fun upload_op_io :: "'e ext \<Rightarrow> (time \<Rightarrow> tenant_db \<Rightarrow> upload_row) \<Rightarrow> upload_op \<Rightarrow> ('e, unit) io" where
  "upload_op_io x defaults (Op_Insert t expiredAt) = attempt (Uploads_Insert x defaults t expiredAt) (\<lambda>_. ret ())"
| "upload_op_io x defaults (Op_Finish tid status at) = attempt (Uploads_Finish x tid status at) (\<lambda>_. ret ())"

text \<open>A finished task stays finished.\<close>

definition stays_finished :: "int \<Rightarrow> 'e sys \<Rightarrow> 'e sys \<Rightarrow> bool" where
  "stays_finished i s t \<longleftrightarrow> (\<forall>u. find (\<lambda>u. u_id u = i) (upload_tasks (db s)) = Some u \<longrightarrow> u_status u \<noteq> StatusPending \<longrightarrow>
     (\<exists>u'. find (\<lambda>u. u_id u = i) (upload_tasks (db t)) = Some u' \<and> u_status u' \<noteq> StatusPending))"

interpretation staysfinished: io_preorder "stays_finished i" for i
  by unfold_locales (auto simp: stays_finished_def)

lemma Insert_stays_finished: "io_rel (stays_finished i) (Uploads_Insert x defaults t expiredAt)"
  by (auto simp: io_rel_def Uploads_Insert_def io_evals sql_insert_upload_def Let_def stays_finished_def find_append
      split: prod.splits sql_reply.splits)

lemma Finish_stays_finished:
  assumes "status \<noteq> StatusPending"
  shows "io_rel (stays_finished i) (Uploads_Finish x tid status at)"
  using assms by (auto simp: io_rel_def Uploads_Finish_def io_evals sql_finish_upload_def stays_finished_def find_update_upload
      split: prod.splits sql_reply.splits)

lemma ops_stay_finished:
  assumes "\<forall>tid status at. Op_Finish tid status at \<in> set ops \<longrightarrow> status \<noteq> StatusPending"
  shows "io_rel (stays_finished i) (for_each (upload_op_io x defaults) ops)"
proof (rule staysfinished.respects_for_each)
  fix op
  assume op: "op \<in> set ops"
  show "io_rel (stays_finished i) (upload_op_io x defaults op)"
  proof (cases op)
    case (Op_Insert t expiredAt)
    then show ?thesis by (simp add: staysfinished.respects_attempt staysfinished.respects_ret Insert_stays_finished)
  next
    case (Op_Finish tid status at)
    then have "status \<noteq> StatusPending" using assms op by blast
    then show ?thesis
      using Op_Finish by (simp add: staysfinished.respects_attempt staysfinished.respects_ret Finish_stays_finished)
  qed
qed

lemma total_upload_op [io_rules]: "total (upload_op_io x defaults op)"
  by (cases op) (auto simp: Uploads_Insert_def Uploads_Finish_def intro!: io_rules)

text \<open>
  C39: The life of an upload. A new task is found pending by its owner under its bucket, key and
  type, with the id it was given. Once it has been finished with any other status than pending, it is not found again, so that
  it is not finished twice through \<^verbatim>\<open>GetPending\<close>: not by anyone, and not after any number of further
  insertions and finishes, failed ones included, unless one of them writes the status pending itself. Finishing it does not
  affect what is found of other tasks.
\<close>

theorem upload_lifecycle:
  assumes "Uploads_Insert x defaults t expiredAt s = Some (Inr t', s1)"
    and "\<And>n d. u_id (defaults n d) \<notin> u_id ` set (upload_tasks d)"
    and "Uploads_GetPending x (TaskID t') (TaskUserID t) (TaskBucket t) (TaskKey t) (UploadType t) s1 = Some (Inr found, s2)"
    and "Uploads_Finish x (TaskID t') status at s1 = Some (Inr (), s3)" and "status \<noteq> StatusPending"
    and "Uploads_GetPending x other u b k ty s3 = Some (Inr found', s4)"
    and "Uploads_GetPending x other u b k ty s1 = Some (Inr before, s5)"
    and "for_each (upload_op_io x defaults) ops s3 = Some (q, s6)"
    and "\<forall>tid status at. Op_Finish tid status at \<in> set ops \<longrightarrow> status \<noteq> StatusPending"
    and "Uploads_GetPending x (TaskID t') u' b' k' ty' s6 = Some (Inr again, s7)"
  shows "found = Some (t'\<lparr>TaskStatus := StatusPending\<rparr>) \<and> found' = (if other = TaskID t' then None else before) \<and> again = None"
proof -
  obtain n where row: "TaskID t' = u_id (defaults n (db s))" "t' = t\<lparr>TaskID := TaskID t'\<rparr>"
    "db s1 = snd (sql_insert_upload defaults t expiredAt n (db s))"
    using assms(1) by (auto simp: Uploads_Insert_def io_evals sql_insert_upload_def Let_def split: prod.splits sql_reply.splits)
  have fresh: "find (\<lambda>u. u_id u = TaskID t') (upload_tasks (db s)) = None"
    using assms(2) [of n "db s"] row(1) unfolding find_None_iff by (metis imageI)
  have "found = Some (t'\<lparr>TaskStatus := StatusPending\<rparr>)"
    unfolding GetPending_value [OF assms(3)]
    using fresh row by (simp add: sql_insert_upload_def Let_def find_append scan_upload_def)
  moreover have s3: "db s3 = sql_finish_upload (TaskID t') status at (db s1)"
    using assms(4) by (auto simp: Uploads_Finish_def io_evals split: prod.splits sql_reply.splits)
  then have "found' = (if other = TaskID t' then None else before)"
    unfolding GetPending_value [OF assms(6)] GetPending_value [OF assms(7)]
    using assms(5) by (auto simp: sql_finish_upload_def find_update_upload dest: find_SomeD split: option.splits)
  moreover have "\<exists>v. find (\<lambda>u. u_id u = TaskID t') (upload_tasks (db s3)) = Some v \<and> u_status v \<noteq> StatusPending"
    using s3 row fresh assms(5) by (simp add: sql_finish_upload_def find_update_upload sql_insert_upload_def Let_def find_append)
  then have "\<exists>v. find (\<lambda>u. u_id u = TaskID t') (upload_tasks (db s6)) = Some v \<and> u_status v \<noteq> StatusPending"
    using io_relD [OF ops_stay_finished [OF assms(9)] assms(8)] unfolding stays_finished_def by blast
  then have "again = None"
    unfolding GetPending_value [OF assms(10)] by auto
  ultimately show ?thesis by simp
qed

definition demo_task :: upload_task where
  "demo_task = \<lparr>TaskID = 0, TaskUserID = 5, TaskBucket = ''media'', TaskKey = ''docs/a'', UploadType = ''multipart'',
     UploadID = Some ''up1'', TaskSize = None, TaskContentType = None, TaskStatus = []\<rparr>"

definition upload_defaults :: "time \<Rightarrow> tenant_db \<Rightarrow> upload_row" where
  "upload_defaults t d = \<lparr>u_id = sum_list (map (\<lambda>u. \<bar>u_id u\<bar>) (upload_tasks d)) + 1, u_user_id = 0, u_bucket_name = [],
     u_object_key = [], u_upload_type = [], u_upload_id = None, u_size = None, u_content_type = None, u_status = [],
     u_expired_at = 0, u_created_at = t, u_completed_at = None\<rparr>"

theorem upload_lifecycle_witness:
  "\<exists>s1 s2 s3 s4 r s6 s7. Uploads_Insert demo_ext upload_defaults demo_task 9 demo_sys = Some (Inr (demo_task\<lparr>TaskID := 1\<rparr>), s1) \<and>
     Uploads_GetPending demo_ext 1 5 ''media'' ''docs/a'' ''multipart'' s1 = Some (Inr (Some (demo_task\<lparr>TaskID := 1, TaskStatus := ''pending''\<rparr>)), s2) \<and>
     Uploads_Finish demo_ext 1 ''aborted'' 7 s1 = Some (Inr (), s3) \<and>
     Uploads_GetPending demo_ext 1 5 ''media'' ''docs/a'' ''multipart'' s3 = Some (Inr None, s4) \<and>
     for_each (upload_op_io demo_ext upload_defaults) [Op_Insert demo_task 11, Op_Finish 1 ''done'' 12] s3 = Some (r, s6) \<and>
     Uploads_GetPending demo_ext 1 5 ''media'' ''docs/a'' ''multipart'' s6 = Some (Inr None, s7)"
proof -
  have fresh: "u_id (upload_defaults n d) \<notin> u_id ` set (upload_tasks d)" for n d
  proof
    assume "u_id (upload_defaults n d) \<in> u_id ` set (upload_tasks d)"
    then obtain u where u: "u \<in> set (upload_tasks d)" "u_id u = sum_list (map (\<lambda>u. \<bar>u_id u\<bar>) (upload_tasks d)) + 1"
      by (auto simp: upload_defaults_def)
    have "\<bar>u_id u\<bar> \<le> sum_list (map (\<lambda>u. \<bar>u_id u\<bar>) (upload_tasks d))"
      using u(1) by (intro member_le_sum_list) auto
    then show False using u(2) by simp
  qed
  obtain s1 where s1: "Uploads_Insert demo_ext upload_defaults demo_task 9 demo_sys = Some (Inr (demo_task\<lparr>TaskID := 1\<rparr>), s1)"
    by (simp add: Uploads_Insert_def io_evals mem_ext_def sql_insert_upload_def Let_def upload_defaults_def demo_sys_def demo_db_def empty_db_def)
  have get: "\<exists>q s'. Uploads_GetPending demo_ext i u b k ty s = Some (Inr q, s')" for i u b k ty s
    by (auto simp: Uploads_GetPending_def io_evals mem_ext_def split: option.split)
  obtain q s2 where s2: "Uploads_GetPending demo_ext 1 5 ''media'' ''docs/a'' ''multipart'' s1 = Some (Inr q, s2)" using get by blast
  obtain s3 where s3: "Uploads_Finish demo_ext 1 ''aborted'' 7 s1 = Some (Inr (), s3)"
    by (simp add: Uploads_Finish_def io_evals mem_ext_def)
  obtain q' s4 where s4: "Uploads_GetPending demo_ext 1 5 ''media'' ''docs/a'' ''multipart'' s3 = Some (Inr q', s4)" using get by blast
  let ?ops = "[Op_Insert demo_task 11, Op_Finish 1 ''done'' 12]"
  have "total (for_each (upload_op_io demo_ext upload_defaults) ?ops)"
    by (rule total_for_each, rule total_upload_op)
  then have "for_each (upload_op_io demo_ext upload_defaults) ?ops s3 \<noteq> None"
    unfolding total_def by (rule spec)
  then obtain y where y: "for_each (upload_op_io demo_ext upload_defaults) ?ops s3 = Some y"
    unfolding not_None_eq by (elim exE)
  obtain q6 s6 where "y = (q6, s6)" by (rule prod.exhaust)
  with y have s6: "for_each (upload_op_io demo_ext upload_defaults) ?ops s3 = Some (q6, s6)" by (simp only:)
  obtain q7 s7 where s7: "Uploads_GetPending demo_ext 1 5 ''media'' ''docs/a'' ''multipart'' s6 = Some (Inr q7, s7)" using get by blast
  have "q = Some ((demo_task\<lparr>TaskID := 1\<rparr>)\<lparr>TaskStatus := StatusPending\<rparr>) \<and> q' = (if 1 = TaskID (demo_task\<lparr>TaskID := 1\<rparr>) then None else q) \<and> q7 = None"
    by (rule upload_lifecycle [OF s1 fresh, where status = "''aborted''" and at = 7 and other = 1 and ops = ?ops])
      (use s2 s3 s4 s6 s7 in \<open>simp_all add: demo_task_def StatusPending_def\<close>)
  then show ?thesis using s1 s2 s3 s4 s6 s7 by (auto simp: StatusPending_def)
qed

end
