(* ===== verification/AuditLog.thy ===== *)
theory AuditLog
  imports Service
begin

text \<open>
  \<^verbatim>\<open>internal/audit/logger.go\<close>: the audit log. A logger is present or \<^verbatim>\<open>nil\<close>; a write that fails
  is dropped.
\<close>

definition emptyToNil :: "string \<Rightarrow> string option" where
  "emptyToNil s = (if s = [] then None else Some s)"

definition sql_insert_audit :: "(time \<Rightarrow> audit_row) \<Rightarrow> int option \<Rightarrow> int option \<Rightarrow> string \<Rightarrow> string \<Rightarrow> string \<Rightarrow> string \<Rightarrow>
    string \<Rightarrow> string \<Rightarrow> string \<Rightarrow> time \<Rightarrow> tenant_db \<Rightarrow> tenant_db" where
  "sql_insert_audit defaults uid account bucket key action status errMsg ip ua t d =
     d\<lparr>audit_logs := audit_logs d @ [(defaults t)\<lparr>a_tenant_user_id := uid, a_account_id := account,
        a_bucket_name := emptyToNil bucket, a_object_key := emptyToNil key, a_action := action,
        a_source_ip := emptyToNil ip, a_user_agent := emptyToNil ua, a_status := status,
        a_error_message := emptyToNil errMsg\<rparr>]\<rparr>"

definition audit_write :: "'e ext \<Rightarrow> bool \<Rightarrow> int option \<Rightarrow> int option \<Rightarrow> string \<Rightarrow> string \<Rightarrow> string \<Rightarrow> string \<Rightarrow>
    string \<Rightarrow> string \<Rightarrow> string \<Rightarrow> ('e, unit) io" where
  "audit_write x present uid account bucket key action status errMsg ip ua =
     (if \<not> present \<or> action = [] then ret ()
      else let status = (if status = [] then ''success'' else status) in
        attempt (sql_exec x (sql_insert_audit (audit_defaults x) uid account bucket key action status errMsg ip ua))
          (\<lambda>_. ret ()))"

definition RecordMeta :: "'e ext \<Rightarrow> bool \<Rightarrow> int \<Rightarrow> int \<Rightarrow> string \<Rightarrow> string \<Rightarrow> string \<Rightarrow> string \<Rightarrow>
    string \<Rightarrow> string \<Rightarrow> string \<Rightarrow> ('e, unit) io" where
  "RecordMeta x present userID accountID bucket key action status errMsg ip ua =
     audit_write x present (Some userID) (Some accountID) bucket key action status errMsg ip ua"

section \<open>Facts\<close>

text \<open>What an entry says of the operation it records.\<close>

definition entry :: "audit_row \<Rightarrow> string option \<times> string \<times> string" where
  "entry a = (a_object_key a, a_action a, a_status a)"

definition only_audit :: "'e sys \<Rightarrow> 'e sys \<Rightarrow> bool" where
  "only_audit s t \<longleftrightarrow> (\<exists>logs. db t = (db s)\<lparr>audit_logs := audit_logs (db s) @ logs\<rparr>)"

interpretation onlyaudit: io_preorder only_audit
proof unfold_locales
  show "only_audit s s" for s :: "'a sys" by (auto simp: only_audit_def intro: exI [of _ "[]"])
  show "only_audit s t \<Longrightarrow> only_audit t u \<Longrightarrow> only_audit s u" for s t u :: "'a sys" by (auto simp: only_audit_def)
qed

text \<open>Recording never fails, and either adds one entry to the log or, where the database
  refuses it, nothing.\<close>

lemma RecordMeta_result:
  "\<exists>s'. RecordMeta x present uid acc bucket key action status msg ip ua s = Some (Inr (), s') \<and>
     (db s' = db s \<or> (\<exists>t. db s' = sql_insert_audit (audit_defaults x) (Some uid) (Some acc) bucket key action
        (if status = [] then ''success'' else status) msg ip ua t (db s)))"
  by (auto simp: RecordMeta_def audit_write_def io_evals Let_def split: prod.split sql_reply.split)

lemma RecordMeta_only_audit: "io_rel only_audit (RecordMeta x present uid acc bucket key action status msg ip ua)"
proof (rule io_relI)
  fix s r s'
  assume run: "RecordMeta x present uid acc bucket key action status msg ip ua s = Some (r, s')"
  have insert: "only_audit s t" if "db t = sql_insert_audit df u a b k ac st ms i w tm (db s)" for t df u a b k ac st ms i w tm
    using that by (auto simp: only_audit_def sql_insert_audit_def)
  have none: "only_audit s t" if "db t = db s" for t
    using that by (auto simp: only_audit_def intro: exI [of _ "[]"])
  show "only_audit s s'"
    using RecordMeta_result [of x present uid acc bucket key action status msg ip ua s] run insert none by auto
qed

lemma RecordMeta_total [io_rules]: "total (RecordMeta x present uid acc bucket key action status msg ip ua)"
  unfolding total_def
proof
  fix s
  show "RecordMeta x present uid acc bucket key action status msg ip ua s \<noteq> None"
    using RecordMeta_result [of x present uid acc bucket key action status msg ip ua s] by auto
qed

text \<open>Where every statement is executed, exactly the entry asked for is added.\<close>

lemma RecordMeta_present:
  assumes "action \<noteq> []" and "\<And>e. \<exists>t e'. sql x e = (SqlOk t, e')"
  shows "\<exists>t s'. RecordMeta x True uid acc bucket key action status msg ip ua s = Some (Inr (), s') \<and>
    db s' = sql_insert_audit (audit_defaults x) (Some uid) (Some acc) bucket key action
      (if status = [] then ''success'' else status) msg ip ua t (db s)"
  using assms(1) assms(2) [of "env s"] by (auto simp: RecordMeta_def audit_write_def io_evals Let_def)

end
