(* ===== verification/Json.thy ===== *)
theory Json
  imports GoStrings
begin

text \<open>
  The parts of \<^verbatim>\<open>encoding/json\<close> that the task payloads use, on the level of documents: writing
  a struct and reading one back with Go's rules. A string is made valid UTF-8 when it is
  written. A field is found by its name without regard to case, the last of several wins, unknown fields are skipped, \<^verbatim>\<open>null\<close> leaves a value as it
  is and empties a slice or a pointer, and a value of the wrong kind is an error. The text of
  a document is not modelled; \<open>None\<close> stands for bytes that are no JSON document.
\<close>

datatype json =
    JNull
  | JBool bool
  | JInt int             \<comment> \<open>a number written as an integer\<close>
  | JReal string         \<comment> \<open>any other number\<close>
  | JStr string
  | JArr "json list"
  | JObj "(string \<times> json) list"

type_synonym payload = "json option"

section \<open>Writing strings\<close>

text \<open>
  The width of the UTF-8 sequence at the start of a string, 0 if there is none. The second byte of
  some sequences has a smaller range, which leaves out overlong forms, surrogates and what is
  beyond U+10FFFF.
\<close>

definition byte_in :: "nat \<Rightarrow> nat \<Rightarrow> char \<Rightarrow> bool" where
  "byte_in lo hi c \<longleftrightarrow> lo \<le> of_char c \<and> of_char c \<le> hi"

fun starts_in :: "(nat \<times> nat) list \<Rightarrow> string \<Rightarrow> bool" where
  "starts_in [] s = True"
| "starts_in (r # rs) [] = False"
| "starts_in ((lo, hi) # rs) (c # s) = (byte_in lo hi c \<and> starts_in rs s)"

definition rune_width :: "string \<Rightarrow> nat" where
  "rune_width s =
     (if starts_in [(0x00, 0x7F)] s then 1
      else if starts_in [(0xC2, 0xDF), (0x80, 0xBF)] s then 2
      else if starts_in [(0xE0, 0xE0), (0xA0, 0xBF), (0x80, 0xBF)] s \<or> starts_in [(0xE1, 0xEC), (0x80, 0xBF), (0x80, 0xBF)] s
        \<or> starts_in [(0xED, 0xED), (0x80, 0x9F), (0x80, 0xBF)] s \<or> starts_in [(0xEE, 0xEF), (0x80, 0xBF), (0x80, 0xBF)] s then 3
      else if starts_in [(0xF0, 0xF0), (0x90, 0xBF), (0x80, 0xBF), (0x80, 0xBF)] s
        \<or> starts_in [(0xF1, 0xF3), (0x80, 0xBF), (0x80, 0xBF), (0x80, 0xBF)] s
        \<or> starts_in [(0xF4, 0xF4), (0x80, 0x8F), (0x80, 0xBF), (0x80, 0xBF)] s then 4
      else 0)"

text \<open>\<^verbatim>\<open>utf8.ValidString\<close>, and what \<^verbatim>\<open>json.Marshal\<close> writes for a string: every byte that is not part of a
  sequence becomes U+FFFD.\<close>

fun ValidString :: "string \<Rightarrow> bool" where
  "ValidString [] = True"
| "ValidString (c # s) = (0 < rune_width (c # s) \<and> ValidString (drop (rune_width (c # s) - 1) s))"

fun coerce_utf8 :: "string \<Rightarrow> string" where
  "coerce_utf8 [] = []"
| "coerce_utf8 (c # s) = (let n = rune_width (c # s) in
     if n = 0 then [CHR 0xEF, CHR 0xBF, CHR 0xBD] @ coerce_utf8 s
     else take n (c # s) @ coerce_utf8 (drop (n - 1) s))"

definition enc_string :: "string \<Rightarrow> json" where
  "enc_string s = JStr (coerce_utf8 s)"

lemma coerce_valid [simp]: "ValidString s \<Longrightarrow> coerce_utf8 s = s"
proof (induction s rule: coerce_utf8.induct)
  case (2 c s)
  then show ?case by (cases "rune_width (c # s)") (auto simp: Let_def)
qed simp

lemma enc_string_valid [simp]: "ValidString s \<Longrightarrow> enc_string s = JStr s"
  by (simp add: enc_string_def)

section \<open>Reading\<close>

fun dec_int64 :: "json \<Rightarrow> int \<Rightarrow> int option" where
  "dec_int64 JNull old = Some old"
| "dec_int64 (JInt n) old = (if is_int64 n then Some n else None)"
| "dec_int64 _ old = None"

fun dec_bool :: "json \<Rightarrow> bool \<Rightarrow> bool option" where
  "dec_bool JNull old = Some old"
| "dec_bool (JBool b) old = Some b"
| "dec_bool _ old = None"

fun dec_string :: "json \<Rightarrow> string \<Rightarrow> string option" where
  "dec_string JNull old = Some old"
| "dec_string (JStr s) old = Some s"
| "dec_string _ old = None"

fun dec_string_ptr :: "json \<Rightarrow> string option option" where
  "dec_string_ptr JNull = Some None"
| "dec_string_ptr (JStr s) = Some (Some s)"
| "dec_string_ptr _ = None"

fun dec_list :: "(json \<Rightarrow> 'a option) \<Rightarrow> json list \<Rightarrow> 'a list option" where
  "dec_list f [] = Some []"
| "dec_list f (v # vs) = (case f v of None \<Rightarrow> None | Some a \<Rightarrow> (case dec_list f vs of None \<Rightarrow> None | Some as \<Rightarrow> Some (a # as)))"

fun dec_slice :: "(json \<Rightarrow> 'a option) \<Rightarrow> json \<Rightarrow> 'a list option" where
  "dec_slice f JNull = Some []"
| "dec_slice f (JArr vs) = dec_list f vs"
| "dec_slice f _ = None"

text \<open>Names are compared after folding; \<open>s\<close> and \<open>k\<close> are the letters that have a third form, U+017F and U+212A.\<close>

fun fold_name :: "string \<Rightarrow> string" where
  "fold_name [] = []"
| "fold_name (c # s) =
     (if c = CHR 0xC5 \<and> prefix [CHR 0xBF] s then CHR ''s'' # fold_name (drop 1 s)
      else if c = CHR 0xE2 \<and> prefix [CHR 0x84, CHR 0xAA] s then CHR ''k'' # fold_name (drop 2 s)
      else lower_char c # fold_name s)"

declare fold_name.simps [simp del]

text \<open>\<open>set_field name v r\<close> stores the value of the field with the (folded) name.\<close>

fun dec_fields :: "(string \<Rightarrow> json \<Rightarrow> 'r \<Rightarrow> 'r option) \<Rightarrow> (string \<times> json) list \<Rightarrow> 'r \<Rightarrow> 'r option" where
  "dec_fields set_field [] r = Some r"
| "dec_fields set_field ((k, v) # fields) r =
     (case set_field (fold_name k) v r of None \<Rightarrow> None | Some r' \<Rightarrow> dec_fields set_field fields r')"

fun dec_struct :: "(string \<Rightarrow> json \<Rightarrow> 'r \<Rightarrow> 'r option) \<Rightarrow> 'r \<Rightarrow> json \<Rightarrow> 'r option" where
  "dec_struct set_field zero JNull = Some zero"
| "dec_struct set_field zero (JObj fields) = dec_fields set_field fields zero"
| "dec_struct set_field zero _ = None"

definition Unmarshal :: "(string \<Rightarrow> json \<Rightarrow> 'r \<Rightarrow> 'r option) \<Rightarrow> 'r \<Rightarrow> payload \<Rightarrow> 'r option" where
  "Unmarshal set_field zero p = (case p of None \<Rightarrow> None | Some v \<Rightarrow> dec_struct set_field zero v)"

section \<open>Facts\<close>

lemma dec_list_map: "(\<And>a. a \<in> set as \<Longrightarrow> f (g a) = Some a) \<Longrightarrow> dec_list f (map g as) = Some as"
  by (induction as) auto

lemma dec_fields_append:
  "dec_fields sf (fs @ gs) r = (case dec_fields sf fs r of None \<Rightarrow> None | Some r' \<Rightarrow> dec_fields sf gs r')"
  by (induction sf fs r rule: dec_fields.induct) (auto split: option.split)

end
