(* ===== verification/Queue.thy ===== *)
theory Queue
  imports World Json
begin

text \<open>
  \<^verbatim>\<open>internal/queue/queue.go\<close>: the task types, their payloads and the client that enqueues them.
  The queue itself, asynq on Redis, is a parameter (\<open>'e broker\<close>), and so are the Redis
  commands of \<^verbatim>\<open>internal/sched\<close>.
\<close>

section \<open>Task types\<close>

definition TaskInventoryBucket :: string where "TaskInventoryBucket = ''objects:inventory_bucket''"
definition TaskTrashBucket :: string where "TaskTrashBucket = ''objects:trash_bucket''"
definition TaskVersionsBucket :: string where "TaskVersionsBucket = ''objects:versions_bucket''"
definition TaskMultipartBucket :: string where "TaskMultipartBucket = ''objects:multipart_bucket''"
definition TaskRequestStats :: string where "TaskRequestStats = ''stats:requests''"
definition TaskBatchDelete :: string where "TaskBatchDelete = ''objects:batch_delete''"
definition TaskBatchCopy :: string where "TaskBatchCopy = ''objects:batch_copy''"
definition TaskBatchMove :: string where "TaskBatchMove = ''objects:batch_move''"

section \<open>Payloads\<close>

record BucketJob =
  bj_BucketID :: int
  bj_BucketName :: string

record CopyItem =
  SourceKey :: string
  DestKey :: string
  DestBucketName :: "string option"

record BatchDelete =
  bd_AccountID :: int
  bd_UserID :: int
  bd_BucketName :: string
  bd_Keys :: "string list"
  bd_Permanent :: bool
  bd_SourceIP :: string
  bd_UserAgent :: string

text \<open>\<^verbatim>\<open>BatchCopy\<close> and \<^verbatim>\<open>BatchMove\<close>, which have the same fields.\<close>

record BatchItems =
  bi_AccountID :: int
  bi_UserID :: int
  bi_BucketName :: string
  bi_Items :: "CopyItem list"
  bi_SourceIP :: string
  bi_UserAgent :: string

definition omitempty :: "string \<Rightarrow> string \<Rightarrow> (string \<times> json) list" where
  "omitempty name s = (if s = [] then [] else [(name, enc_string s)])"

definition Marshal_BucketJob :: "BucketJob \<Rightarrow> json" where
  "Marshal_BucketJob p = JObj [(''bucket_id'', JInt (bj_BucketID p)), (''bucket_name'', enc_string (bj_BucketName p))]"

definition Marshal_CopyItem :: "CopyItem \<Rightarrow> json" where
  "Marshal_CopyItem it = JObj ([(''source_key'', enc_string (SourceKey it)), (''dest_key'', enc_string (DestKey it))]
     @ (case DestBucketName it of None \<Rightarrow> [] | Some b \<Rightarrow> [(''dest_bucket_name'', enc_string b)]))"

definition Marshal_BatchDelete :: "BatchDelete \<Rightarrow> json" where
  "Marshal_BatchDelete p = JObj ([(''account_id'', JInt (bd_AccountID p)), (''user_id'', JInt (bd_UserID p)),
     (''bucket_name'', enc_string (bd_BucketName p)), (''keys'', JArr (map enc_string (bd_Keys p))),
     (''permanent'', JBool (bd_Permanent p))]
     @ omitempty ''source_ip'' (bd_SourceIP p) @ omitempty ''user_agent'' (bd_UserAgent p))"

definition Marshal_BatchItems :: "BatchItems \<Rightarrow> json" where
  "Marshal_BatchItems p = JObj ([(''account_id'', JInt (bi_AccountID p)), (''user_id'', JInt (bi_UserID p)),
     (''bucket_name'', enc_string (bi_BucketName p)), (''items'', JArr (map Marshal_CopyItem (bi_Items p)))]
     @ omitempty ''source_ip'' (bi_SourceIP p) @ omitempty ''user_agent'' (bi_UserAgent p))"

definition set_BucketJob :: "string \<Rightarrow> json \<Rightarrow> BucketJob \<Rightarrow> BucketJob option" where
  "set_BucketJob k v p =
     (if k = ''bucket_id'' then map_option (\<lambda>n. p\<lparr>bj_BucketID := n\<rparr>) (dec_int64 v (bj_BucketID p))
      else if k = ''bucket_name'' then map_option (\<lambda>s. p\<lparr>bj_BucketName := s\<rparr>) (dec_string v (bj_BucketName p))
      else Some p)"

definition set_CopyItem :: "string \<Rightarrow> json \<Rightarrow> CopyItem \<Rightarrow> CopyItem option" where
  "set_CopyItem k v p =
     (if k = ''source_key'' then map_option (\<lambda>s. p\<lparr>SourceKey := s\<rparr>) (dec_string v (SourceKey p))
      else if k = ''dest_key'' then map_option (\<lambda>s. p\<lparr>DestKey := s\<rparr>) (dec_string v (DestKey p))
      else if k = ''dest_bucket_name'' then map_option (\<lambda>s. p\<lparr>DestBucketName := s\<rparr>) (dec_string_ptr v)
      else Some p)"

definition set_BatchDelete :: "string \<Rightarrow> json \<Rightarrow> BatchDelete \<Rightarrow> BatchDelete option" where
  "set_BatchDelete k v p =
     (if k = ''account_id'' then map_option (\<lambda>n. p\<lparr>bd_AccountID := n\<rparr>) (dec_int64 v (bd_AccountID p))
      else if k = ''user_id'' then map_option (\<lambda>n. p\<lparr>bd_UserID := n\<rparr>) (dec_int64 v (bd_UserID p))
      else if k = ''bucket_name'' then map_option (\<lambda>s. p\<lparr>bd_BucketName := s\<rparr>) (dec_string v (bd_BucketName p))
      else if k = ''keys'' then map_option (\<lambda>ks. p\<lparr>bd_Keys := ks\<rparr>) (dec_slice (\<lambda>e. dec_string e []) v)
      else if k = ''permanent'' then map_option (\<lambda>b. p\<lparr>bd_Permanent := b\<rparr>) (dec_bool v (bd_Permanent p))
      else if k = ''source_ip'' then map_option (\<lambda>s. p\<lparr>bd_SourceIP := s\<rparr>) (dec_string v (bd_SourceIP p))
      else if k = ''user_agent'' then map_option (\<lambda>s. p\<lparr>bd_UserAgent := s\<rparr>) (dec_string v (bd_UserAgent p))
      else Some p)"

definition zero_CopyItem :: CopyItem where
  "zero_CopyItem = \<lparr>SourceKey = [], DestKey = [], DestBucketName = None\<rparr>"

definition set_BatchItems :: "string \<Rightarrow> json \<Rightarrow> BatchItems \<Rightarrow> BatchItems option" where
  "set_BatchItems k v p =
     (if k = ''account_id'' then map_option (\<lambda>n. p\<lparr>bi_AccountID := n\<rparr>) (dec_int64 v (bi_AccountID p))
      else if k = ''user_id'' then map_option (\<lambda>n. p\<lparr>bi_UserID := n\<rparr>) (dec_int64 v (bi_UserID p))
      else if k = ''bucket_name'' then map_option (\<lambda>s. p\<lparr>bi_BucketName := s\<rparr>) (dec_string v (bi_BucketName p))
      else if k = ''items'' then map_option (\<lambda>its. p\<lparr>bi_Items := its\<rparr>) (dec_slice (dec_struct set_CopyItem zero_CopyItem) v)
      else if k = ''source_ip'' then map_option (\<lambda>s. p\<lparr>bi_SourceIP := s\<rparr>) (dec_string v (bi_SourceIP p))
      else if k = ''user_agent'' then map_option (\<lambda>s. p\<lparr>bi_UserAgent := s\<rparr>) (dec_string v (bi_UserAgent p))
      else Some p)"

definition Unmarshal_BucketJob :: "payload \<Rightarrow> BucketJob option" where
  "Unmarshal_BucketJob = Unmarshal set_BucketJob \<lparr>bj_BucketID = 0, bj_BucketName = []\<rparr>"

definition Unmarshal_BatchDelete :: "payload \<Rightarrow> BatchDelete option" where
  "Unmarshal_BatchDelete = Unmarshal set_BatchDelete \<lparr>bd_AccountID = 0, bd_UserID = 0, bd_BucketName = [], bd_Keys = [],
     bd_Permanent = False, bd_SourceIP = [], bd_UserAgent = []\<rparr>"

definition Unmarshal_BatchItems :: "payload \<Rightarrow> BatchItems option" where
  "Unmarshal_BatchItems = Unmarshal set_BatchItems \<lparr>bi_AccountID = 0, bi_UserID = 0, bi_BucketName = [], bi_Items = [],
     bi_SourceIP = [], bi_UserAgent = []\<rparr>"

section \<open>The client\<close>

record task =
  task_type :: string
  task_payload :: payload

record enqueue_opts =
  opt_TaskID :: "string option"
  opt_MaxRetry :: int
  opt_Timeout :: duration
  opt_Queue :: "string option"

text \<open>
  \<open>asynq_Enqueue\<close> returns the id of the new task. \<open>redis_SetNX\<close> and \<open>redis_Scan\<close> are the
  commands as go-redis returns them; a scan returns keys and the next cursor. \<open>parse_url\<close> is
  the error of parsing a Redis URL, if any.
\<close>

record 'e broker =
  asynq_Enqueue :: "'e \<Rightarrow> task \<Rightarrow> enqueue_opts \<Rightarrow> (ext_error + string) \<times> 'e"
  redis_Set :: "'e \<Rightarrow> string \<Rightarrow> string \<Rightarrow> duration \<Rightarrow> (ext_error + unit) \<times> 'e"
  redis_SetNX :: "'e \<Rightarrow> string \<Rightarrow> string \<Rightarrow> duration \<Rightarrow> (ext_error + bool) \<times> 'e"
  redis_Del :: "'e \<Rightarrow> string \<Rightarrow> (ext_error + unit) \<times> 'e"
  redis_Scan :: "'e \<Rightarrow> nat \<Rightarrow> string \<Rightarrow> int \<Rightarrow> (ext_error + string list \<times> nat) \<times> 'e"
  parse_url :: "string \<Rightarrow> ext_error option"

text \<open>A client is present or \<^verbatim>\<open>nil\<close>.\<close>

definition queue_New :: "'e broker \<Rightarrow> string \<Rightarrow> bool" where
  "queue_New q redisURL =
     (let redisURL = TrimSpace redisURL in
      if redisURL = [] then False
      else (case parse_url q redisURL of Some err \<Rightarrow> False | None \<Rightarrow> True))"

definition EnqueueInventory :: "'e broker \<Rightarrow> bool \<Rightarrow> string \<Rightarrow> ('e, string) io" where
  "EnqueueInventory q present bucketName =
     (if \<not> present then throw ErrUnavailable
      else let bucketName = TrimSpace bucketName in
        if bucketName = [] then throw (ErrNew ''bucket_name is required'')
        else ext_call (\<lambda>e. asynq_Enqueue q e
          \<lparr>task_type = TaskInventoryBucket, task_payload = Some (JObj [(''bucket_name'', enc_string bucketName)])\<rparr>
          \<lparr>opt_TaskID = None, opt_MaxRetry = 3, opt_Timeout = Hour, opt_Queue = Some ''default''\<rparr>))"

definition enqueueJSON :: "'e broker \<Rightarrow> bool \<Rightarrow> string \<Rightarrow> json \<Rightarrow> ('e, string) io" where
  "enqueueJSON q present typename p =
     (if \<not> present then throw ErrUnavailable
      else ext_call (\<lambda>e. asynq_Enqueue q e \<lparr>task_type = typename, task_payload = Some p\<rparr>
          \<lparr>opt_TaskID = None, opt_MaxRetry = 1, opt_Timeout = 2 * Hour, opt_Queue = Some ''default''\<rparr>))"

definition EnqueueBatchDelete :: "'e broker \<Rightarrow> bool \<Rightarrow> BatchDelete \<Rightarrow> ('e, string) io" where
  "EnqueueBatchDelete q present p = enqueueJSON q present TaskBatchDelete (Marshal_BatchDelete p)"

definition EnqueueBatchCopy :: "'e broker \<Rightarrow> bool \<Rightarrow> BatchItems \<Rightarrow> ('e, string) io" where
  "EnqueueBatchCopy q present p = enqueueJSON q present TaskBatchCopy (Marshal_BatchItems p)"

definition EnqueueBatchMove :: "'e broker \<Rightarrow> bool \<Rightarrow> BatchItems \<Rightarrow> ('e, string) io" where
  "EnqueueBatchMove q present p = enqueueJSON q present TaskBatchMove (Marshal_BatchItems p)"

section \<open>Facts\<close>

lemma fold_names:
  "fold_name ''bucket_id'' = ''bucket_id''" "fold_name ''bucket_name'' = ''bucket_name''" "fold_name ''account_id'' = ''account_id''"
  "fold_name ''user_id'' = ''user_id''" "fold_name ''keys'' = ''keys''" "fold_name ''permanent'' = ''permanent''"
  "fold_name ''source_ip'' = ''source_ip''" "fold_name ''user_agent'' = ''user_agent''" "fold_name ''items'' = ''items''"
  "fold_name ''source_key'' = ''source_key''" "fold_name ''dest_key'' = ''dest_key''" "fold_name ''dest_bucket_name'' = ''dest_bucket_name''"
  by code_simp+

text \<open>The strings of a payload, which \<^verbatim>\<open>json.Marshal\<close> keeps as they are only if they are UTF-8.\<close>

definition item_strings :: "CopyItem \<Rightarrow> string list" where
  "item_strings it = [SourceKey it, DestKey it] @ (case DestBucketName it of None \<Rightarrow> [] | Some b \<Rightarrow> [b])"

definition delete_strings :: "BatchDelete \<Rightarrow> string list" where
  "delete_strings p = [bd_BucketName p, bd_SourceIP p, bd_UserAgent p] @ bd_Keys p"

definition items_strings :: "BatchItems \<Rightarrow> string list" where
  "items_strings p = [bi_BucketName p, bi_SourceIP p, bi_UserAgent p] @ concat (map item_strings (bi_Items p))"

lemma CopyItem_roundtrip:
  "\<forall>s \<in> set (item_strings it). ValidString s \<Longrightarrow> dec_struct set_CopyItem zero_CopyItem (Marshal_CopyItem it) = Some it"
  by (cases it) (simp add: item_strings_def Marshal_CopyItem_def set_CopyItem_def zero_CopyItem_def fold_names split: option.split)

lemma dec_omitempty:
  "ValidString s \<Longrightarrow> dec_fields sf (omitempty name s) r = (if s = [] then Some r else sf (fold_name name) (JStr s) r)"
  by (simp add: omitempty_def split: option.split)

lemma dec_keys: "\<forall>s \<in> set ks. ValidString s \<Longrightarrow> dec_list (\<lambda>e. dec_string e []) (map enc_string ks) = Some ks"
  by (rule dec_list_map) simp

lemma dec_items: "\<forall>it \<in> set its. \<forall>s \<in> set (item_strings it). ValidString s \<Longrightarrow>
    dec_list (dec_struct set_CopyItem zero_CopyItem) (map Marshal_CopyItem its) = Some its"
  by (rule dec_list_map) (simp add: CopyItem_roundtrip)

text \<open>
  C37: What the client marshals the worker unmarshals: every payload comes back as it was, for
  ids of 64 bits and strings that are valid UTF-8.
\<close>

theorem payload_roundtrip:
  "(is_int64 (bj_BucketID j) \<and> ValidString (bj_BucketName j) \<longrightarrow> Unmarshal_BucketJob (Some (Marshal_BucketJob j)) = Some j) \<and>
   (is_int64 (bd_AccountID p) \<and> is_int64 (bd_UserID p) \<and> (\<forall>s \<in> set (delete_strings p). ValidString s) \<longrightarrow>
      Unmarshal_BatchDelete (Some (Marshal_BatchDelete p)) = Some p) \<and>
   (is_int64 (bi_AccountID b) \<and> is_int64 (bi_UserID b) \<and> (\<forall>s \<in> set (items_strings b). ValidString s) \<longrightarrow>
      Unmarshal_BatchItems (Some (Marshal_BatchItems b)) = Some b)"
proof (intro conjI impI)
  show "Unmarshal_BucketJob (Some (Marshal_BucketJob j)) = Some j" if "is_int64 (bj_BucketID j) \<and> ValidString (bj_BucketName j)"
    using that by (simp add: Unmarshal_BucketJob_def Unmarshal_def Marshal_BucketJob_def set_BucketJob_def fold_names)
  show "Unmarshal_BatchDelete (Some (Marshal_BatchDelete p)) = Some p"
    if "is_int64 (bd_AccountID p) \<and> is_int64 (bd_UserID p) \<and> (\<forall>s \<in> set (delete_strings p). ValidString s)"
    using that dec_keys [of "bd_Keys p"]
    by (simp add: delete_strings_def Unmarshal_BatchDelete_def Unmarshal_def Marshal_BatchDelete_def set_BatchDelete_def fold_names
        dec_fields_append dec_omitempty)
  show "Unmarshal_BatchItems (Some (Marshal_BatchItems b)) = Some b"
    if "is_int64 (bi_AccountID b) \<and> is_int64 (bi_UserID b) \<and> (\<forall>s \<in> set (items_strings b). ValidString s)"
    using that dec_items [of "bi_Items b"]
    by (simp add: items_strings_def Unmarshal_BatchItems_def Unmarshal_def Marshal_BatchItems_def set_BatchItems_def fold_names
        dec_fields_append dec_omitempty)
qed

definition demo_payload :: BatchDelete where
  "demo_payload = \<lparr>bd_AccountID = 9, bd_UserID = 5, bd_BucketName = ''media'', bd_Keys = [''docs/a.txt'', [CHR 0xC3, CHR 0xA9]],
     bd_Permanent = True, bd_SourceIP = [], bd_UserAgent = ''agent''\<rparr>"

theorem payload_roundtrip_witness:
  "Unmarshal_BatchDelete (Some (Marshal_BatchDelete demo_payload)) = Some demo_payload"
proof -
  have "is_int64 (bd_AccountID demo_payload) \<and> is_int64 (bd_UserID demo_payload) \<and> list_all ValidString (delete_strings demo_payload)"
    by code_simp
  then show ?thesis using payload_roundtrip [where p = demo_payload] by (simp add: list_all_iff)
qed

end
