(* ===== verification/WorkerJobs.thy ===== *)
theory WorkerJobs
  imports ObjectApply DeleteKeys Platform BucketStore Versions Uploads AuditLog Queue
begin

text \<open>
  \<^verbatim>\<open>internal/worker/jobs.go\<close>: the handlers of the inventory and cleanup tasks. A handler gets
  the task and returns an error, on which the queue retries. Log output is left out.
\<close>

section \<open>The jobs and their S3 client\<close>

definition TaskInventory :: string where "TaskInventory = ''objects:inventory''"
definition TaskTrash :: string where "TaskTrash = ''objects:trash''"
definition TaskVersions :: string where "TaskVersions = ''objects:versions''"
definition TaskMultipart :: string where "TaskMultipart = ''objects:multipart''"

text \<open>The stores that a handler tests for \<^verbatim>\<open>nil\<close>, as flags; \<^verbatim>\<open>main\<close> sets them all. The field
  \<^verbatim>\<open>S3\<close> of the struct is set but never read.\<close>

record Jobs =
  has_Settings :: bool
  has_Versions :: bool
  has_Uploads :: bool
  has_Stats :: bool
  has_Log :: bool
  S3FB :: Config

definition overlayS3 :: "Config \<Rightarrow> settings \<Rightarrow> Config" where
  "overlayS3 fb rows =
     (let v = TrimSpace (setting rows ''s3_endpoint''); fb = (if v \<noteq> [] then fb\<lparr>Endpoint := v\<rparr> else fb);
          v = TrimSpace (setting rows ''rgw_access_key''); fb = (if v \<noteq> [] then fb\<lparr>AccessKey := v\<rparr> else fb);
          v = TrimSpace (setting rows ''rgw_secret_key''); fb = (if v \<noteq> [] then fb\<lparr>SecretKey := v\<rparr> else fb)
      in fb)"

definition jobs_client :: "'e ext \<Rightarrow> Jobs \<Rightarrow> ('e, Client option) io" where
  "jobs_client x j =
     bind (if has_Settings j
           then attempt (Settings_Map x) (\<lambda>r. case r of
             Inl err \<Rightarrow> ret (S3FB j)
           | Inr rows \<Rightarrow> ret (overlayS3 (S3FB j) rows))
           else ret (S3FB j)) (\<lambda>cfg.
     if \<not> Ready cfg then ret None else ret (Some (storage_New cfg)))"

text \<open>\<open>with_client\<close> is the start of every handler: without a client it succeeds at once.\<close>

definition with_client :: "'e ext \<Rightarrow> Jobs \<Rightarrow> (Client \<Rightarrow> ('e, unit) io) \<Rightarrow> ('e, unit) io" where
  "with_client x j body = bind (jobs_client x j) (\<lambda>c. case c of None \<Rightarrow> ret () | Some s3 \<Rightarrow> body s3)"

section \<open>Inventory\<close>

definition see_object :: "'e ext \<Rightarrow> Bucket \<Rightarrow> time \<Rightarrow> ListedObject \<Rightarrow> ('e, unit) io" where
  "see_object x b started obj =
     (if l_Key obj = [] then ret ()
      else Objects_UpsertSeen x (ID b) (BucketName b) (l_Key obj) (l_Size obj) (l_ETag obj) (l_StorageClass obj) started)"

partial_function (option) scan_pages :: "'e ext \<Rightarrow> Client \<Rightarrow> Bucket \<Rightarrow> time \<Rightarrow> string \<Rightarrow> 'e sys \<Rightarrow>
    ((go_error + unit) \<times> 'e sys) option" where
  "scan_pages x s3 b started token s =
     Option.bind (ListObjects x s3 (BucketName b) token 1000 s) (\<lambda>(r, s1).
       case r of
         Inl err \<Rightarrow> Some (Inl err, s1)
       | Inr page \<Rightarrow>
           Option.bind (for_each (see_object x b started) (Objects page) s1) (\<lambda>(r, s2).
             case r of
               Inl err \<Rightarrow> Some (Inl err, s2)
             | Inr _ \<Rightarrow>
                 if \<not> Truncated page \<or> Token page = [] then Some (Inr (), s2)
                 else scan_pages x s3 b started (Token page) s2))"

declare scan_pages.simps [code]

definition scanBucket :: "'e ext \<Rightarrow> Client \<Rightarrow> Bucket \<Rightarrow> ('e, unit) io" where
  "scanBucket x s3 b =
     bind (time_Now x) (\<lambda>started.
     bind (scan_pages x s3 b started []) (\<lambda>_.
     bind (Objects_PurgeUnseen x (ID b) started) (\<lambda>_.
     bind (time_Now x) (\<lambda>now.
     Buckets_MarkInventoried x (ID b) now))))"

definition Inventory :: "'e ext \<Rightarrow> Jobs \<Rightarrow> task \<Rightarrow> ('e, unit) io" where
  "Inventory x j t = with_client x j (\<lambda>s3.
     bind (Buckets_ListActive x) (\<lambda>items.
     for_each (\<lambda>b. wrap_err (''inventory '' @ BucketName b) (scanBucket x s3 b)) items))"

definition Unmarshal_inventory :: "payload \<Rightarrow> string option" where
  "Unmarshal_inventory = Unmarshal (\<lambda>k v name. if k = ''bucket_name'' then dec_string v name else Some name) []"

definition InventoryBucket :: "'e ext \<Rightarrow> Jobs \<Rightarrow> task \<Rightarrow> ('e, unit) io" where
  "InventoryBucket x j t = with_client x j (\<lambda>s3.
     case Unmarshal_inventory (task_payload t) of
       None \<Rightarrow> throw (ErrNew ''invalid inventory payload'')
     | Some name \<Rightarrow>
         if TrimSpace name = [] then throw (ErrNew ''invalid inventory payload'')
         else bind (Buckets_GetByName x name) (\<lambda>found. case found of
             None \<Rightarrow> throw (ErrNew (''bucket '' @ name @ '' not found''))
           | Some b \<Rightarrow>
               if Status b \<noteq> ''active'' then throw (ErrNew (''bucket '' @ name @ '' not found''))
               else wrap_err (''inventory '' @ name) (scanBucket x s3 b)))"

section \<open>Cleanup\<close>

definition parseBucketJob :: "task \<Rightarrow> go_error + BucketJob" where
  "parseBucketJob t = (case Unmarshal_BucketJob (task_payload t) of
     None \<Rightarrow> Inl (ErrNew ''invalid bucket payload'')
   | Some p \<Rightarrow> if TrimSpace (bj_BucketName p) = [] then Inl (ErrNew ''invalid bucket payload'') else Inr p)"

definition shouldCleanupTrash :: "bool \<Rightarrow> int \<Rightarrow> bool" where
  "shouldCleanupTrash enabled days \<longleftrightarrow> enabled \<and> days \<ge> 1"

text \<open>
  The loop the three cleanup jobs share: what the storage refuses is skipped, to be tried
  again by a later task; what it has erased is removed from the database.
\<close>

definition sweep :: "('i \<Rightarrow> ('e, unit) io) \<Rightarrow> ('i \<Rightarrow> ('e, unit) io) \<Rightarrow> 'i list \<Rightarrow> ('e, unit) io" where
  "sweep erase forget items = for_each (\<lambda>item. attempt (erase item) (\<lambda>r. case r of
     Inl err \<Rightarrow> ret ()
   | Inr _ \<Rightarrow> forget item)) items"

definition trash :: "'e ext \<Rightarrow> Jobs \<Rightarrow> int \<Rightarrow> ('e, unit) io" where
  "trash x j bucketID = with_client x j (\<lambda>s3.
     if \<not> has_Settings j then ret ()
     else bind (TrashPolicy x) (\<lambda>(days, enabled).
       if \<not> shouldCleanupTrash enabled days then ret ()
       else bind (if bucketID > 0 then Objects_ExpiredTrashInBucket x days bucketID else Objects_ExpiredTrash x days) (\<lambda>items.
         sweep (\<lambda>item. DeleteObject x s3 (t_BucketName item) (t_Key item))
           (\<lambda>item. Objects_Delete x (t_BucketID item) (t_Key item)) items)))"

definition TrashBucket :: "'e ext \<Rightarrow> Jobs \<Rightarrow> task \<Rightarrow> ('e, unit) io" where
  "TrashBucket x j t = (case parseBucketJob t of
     Inl err \<Rightarrow> throw err
   | Inr p \<Rightarrow>
       bind (if bj_BucketID p < 1
             then bind (Buckets_GetByName x (bj_BucketName p)) (\<lambda>b. case b of
                 None \<Rightarrow> throw (ErrNew (''bucket '' @ bj_BucketName p @ '' not found''))
               | Some b \<Rightarrow> ret (ID b))
             else ret (bj_BucketID p)) (\<lambda>bucketID.
       trash x j bucketID))"

definition Trash :: "'e ext \<Rightarrow> Jobs \<Rightarrow> task \<Rightarrow> ('e, unit) io" where
  "Trash x j t = trash x j 0"

definition cleanVersions :: "'e ext \<Rightarrow> Jobs \<Rightarrow> string \<Rightarrow> ('e, unit) io" where
  "cleanVersions x j bucketName = with_client x j (\<lambda>s3.
     if \<not> has_Settings j \<or> \<not> has_Versions j then ret ()
     else bind (VersionPolicy x) (\<lambda>(days, enabled).
       if \<not> shouldCleanupTrash enabled days then ret ()
       else bind (if bucketName \<noteq> [] then Versions_ExpiredInBucket x days bucketName else Versions_Expired x days) (\<lambda>items.
         sweep (\<lambda>item. DeleteObject x s3 (VersionBucket item) (StorageKey item))
           (\<lambda>item. Versions_Delete x (VersionID item)) items)))"

definition VersionsBucket :: "'e ext \<Rightarrow> Jobs \<Rightarrow> task \<Rightarrow> ('e, unit) io" where
  "VersionsBucket x j t = (case parseBucketJob t of
     Inl err \<Rightarrow> throw err
   | Inr p \<Rightarrow> cleanVersions x j (bj_BucketName p))"

definition CleanVersions :: "'e ext \<Rightarrow> Jobs \<Rightarrow> task \<Rightarrow> ('e, unit) io" where
  "CleanVersions x j t = cleanVersions x j []"

definition cleanMultipart :: "'e ext \<Rightarrow> Jobs \<Rightarrow> string \<Rightarrow> ('e, unit) io" where
  "cleanMultipart x j bucketName = with_client x j (\<lambda>s3.
     if \<not> has_Settings j \<or> \<not> has_Uploads j then ret ()
     else bind (MultipartPolicy x) (\<lambda>(days, enabled).
       if \<not> shouldCleanupTrash enabled days then ret ()
       else bind (if bucketName \<noteq> [] then Uploads_StaleMultipartInBucket x days bucketName else Uploads_StaleMultipart x days) (\<lambda>items.
         bind (time_Now x) (\<lambda>now.
         sweep (\<lambda>item. case UploadID item of
               None \<Rightarrow> ret ()
             | Some u \<Rightarrow> if u \<noteq> [] then AbortMultipart x s3 (TaskBucket item) (TaskKey item) u else ret ())
           (\<lambda>item. Uploads_Finish x (TaskID item) StatusAbort now) items))))"

definition MultipartBucket :: "'e ext \<Rightarrow> Jobs \<Rightarrow> task \<Rightarrow> ('e, unit) io" where
  "MultipartBucket x j t = (case parseBucketJob t of
     Inl err \<Rightarrow> throw err
   | Inr p \<Rightarrow> cleanMultipart x j (bj_BucketName p))"

definition CleanMultipart :: "'e ext \<Rightarrow> Jobs \<Rightarrow> task \<Rightarrow> ('e, unit) io" where
  "CleanMultipart x j t = cleanMultipart x j []"

section \<open>The sweep\<close>

text \<open>
  The contract between the sweep and a kind of rubbish: \<open>stored i s\<close>, the storage holds item
  \<open>i\<close>; \<open>listed i s\<close>, the database lists it. Erasing touches the storage only and forgetting the
  database only, and each only the item.
\<close>

locale rubbish =
  fixes erase :: "'i \<Rightarrow> ('e, unit) io"
    and forget :: "'i \<Rightarrow> ('e, unit) io"
    and stored :: "'p \<Rightarrow> 'e sys \<Rightarrow> bool"
    and listed :: "'k \<Rightarrow> 'e sys \<Rightarrow> bool"
    and key :: "'i \<Rightarrow> 'k \<Rightarrow> bool"
    and place :: "'i \<Rightarrow> 'p \<Rightarrow> bool"
    and wf :: "'e sys \<Rightarrow> bool"
  assumes erase_listed: "wf s \<Longrightarrow> erase i s = Some (r, t) \<Longrightarrow> listed k t = listed k s"
    and erase_stored: "wf s \<Longrightarrow> erase i s = Some (r, t) \<Longrightarrow> stored p t \<Longrightarrow> stored p s"
    and erase_only: "wf s \<Longrightarrow> erase i s = Some (r, t) \<Longrightarrow> stored p s \<Longrightarrow> \<not> stored p t \<Longrightarrow> place i p"
    and erased: "wf s \<Longrightarrow> erase i s = Some (Inr (), t) \<Longrightarrow> place i p \<Longrightarrow> \<not> stored p t"
    and forget_stored: "wf s \<Longrightarrow> forget i s = Some (r, t) \<Longrightarrow> stored p t = stored p s"
    and forget_listed: "wf s \<Longrightarrow> forget i s = Some (r, t) \<Longrightarrow> listed k t \<Longrightarrow> listed k s"
    and forget_only: "wf s \<Longrightarrow> forget i s = Some (r, t) \<Longrightarrow> listed k s \<Longrightarrow> \<not> listed k t \<Longrightarrow> key i k"
    and forgotten: "wf s \<Longrightarrow> forget i s = Some (Inr (), t) \<Longrightarrow> key i k \<Longrightarrow> \<not> listed k t"
    and erase_wf: "erase i s = Some (r, t) \<Longrightarrow> wf s \<Longrightarrow> wf t"
    and forget_wf: "forget i s = Some (r, t) \<Longrightarrow> wf s \<Longrightarrow> wf t"
begin

definition swept :: "'i set \<Rightarrow> 'e sys \<Rightarrow> 'e sys \<Rightarrow> bool" where
  "swept A s t \<longleftrightarrow> (wf s \<longrightarrow> wf t \<and>
     (\<forall>p. stored p t \<longrightarrow> stored p s) \<and> (\<forall>k. listed k t \<longrightarrow> listed k s) \<and>
     (\<forall>p. stored p s \<longrightarrow> \<not> stored p t \<longrightarrow> (\<exists>i \<in> A. place i p)) \<and>
     (\<forall>k. listed k s \<longrightarrow> \<not> listed k t \<longrightarrow> (\<exists>i \<in> A. key i k \<and> (\<forall>p. place i p \<longrightarrow> \<not> stored p t))))"

lemma swept_refl: "swept A s s"
  by (simp add: swept_def)

lemma swept_trans: "swept A s t \<Longrightarrow> swept A t u \<Longrightarrow> swept A s u"
  unfolding swept_def by metis

lemma swept_mono: "swept A s t \<Longrightarrow> A \<subseteq> B \<Longrightarrow> swept B s t"
  unfolding swept_def by (meson subset_iff)

lemma sweep_one:
  assumes "attempt (erase i) (\<lambda>r. case r of Inl err \<Rightarrow> ret () | Inr _ \<Rightarrow> forget i) s = Some (r, u)"
  shows "swept {i} s u"
proof -
  from assms obtain q t where e: "erase i s = Some (q, t)"
    and rest: "(case q of Inl err \<Rightarrow> ret () | Inr _ \<Rightarrow> forget i) t = Some (r, u)"
    by (rule attempt_E)
  show ?thesis
  proof (cases q)
    case (Inl err)
    then have "u = t" using rest by (simp add: ret_apply)
    then show ?thesis
      using erase_listed [OF _ e] erase_stored [OF _ e] erase_only [OF _ e] erase_wf [OF e] by (auto simp: swept_def)
  next
    case (Inr v)
    then have f: "forget i t = Some (r, u)" using rest by simp
    have gone: "wf s \<Longrightarrow> place i p \<Longrightarrow> \<not> stored p u" for p
      using erased [of s i t p] e Inr forget_stored [OF _ f] erase_wf [OF e] by simp
    show ?thesis
      unfolding swept_def
      using erase_listed [OF _ e] erase_stored [OF _ e] erase_only [OF _ e] erase_wf [OF e] forget_stored [OF _ f]
        forget_listed [OF _ f] forget_only [OF _ f] forget_wf [OF f] gone by (metis insertI1)
  qed
qed

text \<open>However the sweep ends, it has erased only items of the list, and what it has removed from
  the database is erased.\<close>

lemma sweep_safe: "sweep erase forget items s = Some (r, t) \<Longrightarrow> swept (set items) s t"
  unfolding sweep_def
proof (induction items arbitrary: s)
  case Nil
  then show ?case by (simp add: ret_apply swept_refl)
next
  case (Cons i items)
  let ?f = "\<lambda>i. attempt (erase i) (\<lambda>r. case r of Inl err \<Rightarrow> ret () | Inr _ \<Rightarrow> forget i)"
  have "bind (?f i) (\<lambda>_. for_each ?f items) s = Some (r, t)" using Cons.prems by simp
  then show ?case
  proof (cases rule: bind_E)
    case (stop err)
    then show ?thesis using swept_mono [OF sweep_one [OF stop(1)]] by simp
  next
    case (go a u)
    have "swept (set (i # items)) s u" using swept_mono [OF sweep_one [OF go(1)]] by simp
    moreover have "swept (set (i # items)) u t" using swept_mono [OF Cons.IH [OF go(2)]] by auto
    ultimately show ?thesis by (rule swept_trans)
  qed
qed

lemma sweep_removes:
  assumes "sweep erase forget items s = Some (r, t)" and "wf s"
  shows "wf t" and "stored p t \<Longrightarrow> stored p s" and "listed k t \<Longrightarrow> listed k s"
    and "stored p s \<Longrightarrow> \<not> stored p t \<Longrightarrow> \<exists>i \<in> set items. place i p"
    and "listed k s \<Longrightarrow> \<not> listed k t \<Longrightarrow> \<exists>i \<in> set items. key i k \<and> (\<forall>p. place i p \<longrightarrow> \<not> stored p t)"
  using sweep_safe [OF assms(1)] assms(2) by (simp_all add: swept_def)

text \<open>Where every item can be erased and the sweep succeeds, all of them are removed.\<close>

lemma sweep_complete:
  assumes "sweep erase forget items s = Some (Inr (), t)" and "wf s"
    and "\<And>i s. i \<in> set items \<Longrightarrow> wf s \<Longrightarrow> \<exists>s'. erase i s = Some (Inr (), s')"
  shows "\<forall>i \<in> set items. \<forall>k. key i k \<longrightarrow> \<not> listed k t"
  using assms unfolding sweep_def
proof (induction items arbitrary: s)
  case (Cons i items)
  let ?f = "\<lambda>i. attempt (erase i) (\<lambda>r. case r of Inl err \<Rightarrow> ret () | Inr _ \<Rightarrow> forget i)"
  from Cons.prems(1) obtain u where u: "?f i s = Some (Inr (), u)" "for_each ?f items u = Some (Inr (), t)"
    by (auto elim: bind_Inr_E)
  obtain s1 where e: "erase i s = Some (Inr (), s1)" using Cons.prems(2,3) by force
  then have f: "forget i s1 = Some (Inr (), u)" using u(1) by (simp add: attempt_def)
  have wf: "wf u" using erase_wf [OF e] forget_wf [OF f] Cons.prems(2) by blast
  have "\<forall>k. key i k \<longrightarrow> \<not> listed k u" using forgotten [OF _ f] erase_wf [OF e] Cons.prems(2) by blast
  moreover have "\<forall>k. listed k t \<longrightarrow> listed k u"
    using sweep_safe [of items u "Inr ()" t] u(2) wf unfolding sweep_def swept_def by blast
  ultimately show ?case using Cons.IH [OF u(2) wf] Cons.prems(3) by auto
qed simp

end

end
