(* ===== verification/WorkerCleanup.thy ===== *)
theory WorkerCleanup
  imports WorkerJobs
begin

text \<open>
  The cleanup jobs of \<^verbatim>\<open>internal/worker/jobs.go\<close>: the sweep on its three kinds of rubbish, and
  what a run of each job removes.
\<close>

section \<open>The part of a job before its sweep\<close>

text \<open>\<open>idle obs\<close>: neither the database nor what \<open>obs\<close> sees of the environment has changed.\<close>

definition idle :: "('e \<Rightarrow> 'a) \<Rightarrow> 'e sys \<Rightarrow> 'e sys \<Rightarrow> bool" where
  "idle obs s t \<longleftrightarrow> db t = db s \<and> obs (env t) = obs (env s)"

interpretation idle: io_preorder "idle obs" for obs :: "'e \<Rightarrow> 'a"
  by unfold_locales (simp_all add: idle_def)

definition sql_quiet :: "'e ext \<Rightarrow> ('e \<Rightarrow> 'a) \<Rightarrow> bool" where
  "sql_quiet x obs \<longleftrightarrow> (\<forall>e. obs (snd (sql x e)) = obs e)"

lemma sql_query_idle: "sql_quiet x obs \<Longrightarrow> io_rel (idle obs) (sql_query x f)"
  by (auto simp: io_rel_def sql_query_def sql_stmt_def idle_def sql_quiet_def split: prod.splits sql_reply.splits)
    (metis snd_conv)+

lemma CleanupPolicy_idle: "sql_quiet x obs \<Longrightarrow> io_rel (idle obs) (CleanupPolicy x ek dk n)"
  unfolding CleanupPolicy_def Settings_Map_def by (intro idle.respects_rules sql_query_idle)

lemma jobs_client_idle: "sql_quiet x obs \<Longrightarrow> io_rel (idle obs) (jobs_client x j)"
  unfolding jobs_client_def Settings_Map_def
  by (intro idle.respects_rules sql_query_idle idle.respects_if) (auto intro!: idle.respects_rules split: sum.split)

text \<open>The settings that the database holds, and the policy in them.\<close>

definition settings_of :: "tenant_db \<Rightarrow> settings" where
  "settings_of d = foldl (\<lambda>out r. out(s_key r \<mapsto> s_value r)) Map.empty (platform_settings d)"

definition policy_of :: "string \<Rightarrow> string \<Rightarrow> int \<Rightarrow> tenant_db \<Rightarrow> int \<times> bool" where
  "policy_of enabledKey daysKey n d = (pickInt (settings_of d) daysKey n, pickBool (settings_of d) enabledKey False)"

lemma CleanupPolicy_value:
  "CleanupPolicy x ek dk n s = Some (Inr p, s') \<Longrightarrow> p = policy_of ek dk n (db s)"
  by (auto simp: CleanupPolicy_def Settings_Map_def policy_of_def settings_of_def io_evals split: prod.splits sql_reply.splits)

text \<open>Settings can replace a usable configuration, never make it unusable.\<close>

lemma Ready_overlayS3: "Ready cfg \<Longrightarrow> Ready (overlayS3 cfg rows)"
  by (simp add: Ready_def overlayS3_def Let_def)

lemma jobs_client_ready: "jobs_client x j s = Some (r, s') \<Longrightarrow> Ready (S3FB j) \<Longrightarrow> \<exists>c. r = Inr (Some c)"
  by (auto simp: jobs_client_def Settings_Map_def io_evals Ready_overlayS3 split: if_splits prod.splits sql_reply.splits sum.splits)

text \<open>The first calls of a job, one at a time.\<close>

lemma idle_bind_E:
  assumes "idle obs s0 s" and "io_rel (idle obs) m" and "bind m k s = Some (r, t)"
  obtains (stop) err where "m s = Some (Inl err, t)" and "r = Inl err" and "idle obs s0 t"
  | (go) a s1 where "m s = Some (Inr a, s1)" and "idle obs s0 s1" and "k a s1 = Some (r, t)"
  using assms(3)
proof (cases rule: bind_E)
  case (stop err)
  then show ?thesis using that(1) idle.R_trans [OF assms(1) io_relD [OF assms(2)]] by blast
next
  case (go a s1)
  then show ?thesis using that(2) idle.R_trans [OF assms(1) io_relD [OF assms(2)]] by blast
qed

lemma with_client_E:
  assumes "with_client x j body s = Some (r, t)" and quiet: "sql_quiet x obs"
  obtains (still) "idle obs s t" "\<not> Ready (S3FB j)"
  | (ready) s3 s1 where "idle obs s s1" and "body s3 s1 = Some (r, t)"
  using idle.R_refl jobs_client_idle [OF quiet] assms(1) [unfolded with_client_def]
proof (cases rule: idle_bind_E)
  case (stop err)
  then show ?thesis using jobs_client_ready [OF stop(1)] by (intro still) auto
next
  case (go c s1)
  show ?thesis
  proof (cases c)
    case None
    then show ?thesis using go jobs_client_ready [OF go(1)] by (intro still) (auto simp: ret_apply)
  next
    case (Some s3)
    then show ?thesis using ready [OF go(2)] go(3) by simp
  qed
qed

text \<open>Every cleanup job is one of: nothing to do, or a sweep of what the query found.\<close>

lemma cleanup_cases:
  assumes "with_client x j (\<lambda>s3. if off then ret () else bind (CleanupPolicy x ek dk n) (\<lambda>(days, enabled).
      if \<not> shouldCleanupTrash enabled days then ret () else bind (query days) (rest s3))) s = Some (r, t)"
    and quiet: "sql_quiet x obs" and query: "\<And>days. io_rel (idle obs) (query days)"
  obtains (still) "idle obs s t" "r = Inr () \<Longrightarrow> Ready (S3FB j) \<Longrightarrow> \<not> off \<Longrightarrow> \<not> (snd (policy_of ek dk n (db s)) \<and> 1 \<le> fst (policy_of ek dk n (db s)))"
  | (sweep) s3 days items s1 s2 where "policy_of ek dk n (db s) = (days, True)" "1 \<le> days" "idle obs s s1" "idle obs s s2"
      "query days s1 = Some (Inr items, s2)" "rest s3 items s2 = Some (r, t)"
  using assms(1) quiet
proof (cases rule: with_client_E)
  case still
  then show ?thesis using that(1) by blast
next
  case (ready s3 s1)
  show ?thesis
  proof (cases off)
    case True
    then show ?thesis using ready by (intro that(1)) (simp_all add: ret_apply)
  next
    case False
    then have run: "bind (CleanupPolicy x ek dk n) (\<lambda>(days, enabled).
        if \<not> shouldCleanupTrash enabled days then ret () else bind (query days) (rest s3)) s1 = Some (r, t)"
      using ready(2) by simp
    from ready(1) CleanupPolicy_idle [OF quiet] run show ?thesis
    proof (cases rule: idle_bind_E)
      case (stop err)
      then show ?thesis using that(1) by simp
    next
      case (go p s2)
      have p: "p = policy_of ek dk n (db s)"
        using CleanupPolicy_value [OF go(1)] ready(1) by (simp add: idle_def)
      show ?thesis
      proof (cases "shouldCleanupTrash (snd p) (fst p)")
        case False
        then show ?thesis using go(2,3) p
          by (intro that(1)) (auto simp: shouldCleanupTrash_def ret_apply split: prod.splits)
      next
        case True
        then have on: "p = (fst p, True)" "1 \<le> fst p" by (simp_all add: shouldCleanupTrash_def prod_eq_iff)
        have rest: "bind (query (fst p)) (rest s3) s2 = Some (r, t)"
          using go(3) True by (simp add: case_prod_unfold)
        from go(2) query rest show ?thesis
          by (cases rule: idle_bind_E) (use that on p go(2) in auto)
      qed
    qed
  qed
qed

section \<open>The clock of the database\<close>

text \<open>
  What is relied on of time: \<open>tm e\<close> is the time in environment \<open>e\<close>. No call turns it back, and a
  statement does not see a \<^verbatim>\<open>now()\<close> that is after the time of its reply.
\<close>

definition time_contract :: "'e ext \<Rightarrow> ('e \<Rightarrow> time) \<Rightarrow> bool" where
  "time_contract x tm \<longleftrightarrow>
     (\<forall>e r e'. sql x e = (r, e') \<longrightarrow> tm e \<le> tm e' \<and> (\<forall>now. r = SqlOk now \<longrightarrow> now \<le> tm e')) \<and>
     (\<forall>e. tm e \<le> tm (snd (clock x e))) \<and>
     (\<forall>cfg e b k. tm e \<le> tm (snd (s3_DeleteObject x cfg e b k))) \<and>
     (\<forall>cfg e b k u. tm e \<le> tm (snd (s3_AbortMultipartUpload x cfg e b k u)))"

definition later :: "('e \<Rightarrow> time) \<Rightarrow> 'e sys \<Rightarrow> 'e sys \<Rightarrow> bool" where
  "later tm s t \<longleftrightarrow> tm (env s) \<le> tm (env t)"

interpretation later: io_preorder "later tm" for tm :: "'e \<Rightarrow> time"
  by unfold_locales (simp_all add: later_def)

lemma calls_later:
  assumes "time_contract x tm"
  shows "io_rel (later tm) (sql_exec x f)" and "io_rel (later tm) (time_Now x)"
    and "io_rel (later tm) (DeleteObject x c b k)" and "io_rel (later tm) (AbortMultipart x c b k u)"
  using assms
  by (auto simp: io_rel_def later_def time_contract_def sql_exec_def sql_stmt_def time_Now_def DeleteObject_def
      AbortMultipart_def ext_call_def split: prod.splits sql_reply.splits sum.splits) (metis snd_conv)+

lemma sweep_later:
  assumes "\<And>i. io_rel (later tm) (erase i)" and "\<And>i. io_rel (later tm) (forget i)"
  shows "io_rel (later tm) (sweep erase forget items)"
  unfolding sweep_def using assms by (auto intro!: later.respects_rules split: sum.split)

text \<open>A query has seen one time, which is not after the end of the job.\<close>

lemma query_now:
  assumes "wrap_err pre (sql_query x f) s = Some (Inr v, s')"
  obtains now where "sql x (env s) = (SqlOk now, env s')" "v = f now (db s)"
  using assms by (auto simp: io_evals split: prod.splits sql_reply.splits)

lemma now_later:
  assumes "sql x (env s) = (SqlOk now, env s1)" and "later tm s1 t" and "time_contract x tm"
  shows "now \<le> tm (env t)"
proof -
  have "now \<le> tm (env s1)" using assms(1,3) unfolding time_contract_def by blast
  then show ?thesis using assms(2) by (simp add: later_def)
qed

section \<open>Rows with an object behind them\<close>

text \<open>The content that the storage has, and the rows that the database has, as sets.\<close>

definition has_content :: "('e \<Rightarrow> 'o view) \<Rightarrow> string \<times> string \<times> 'o \<Rightarrow> 'e sys \<Rightarrow> bool" where
  "has_content view p s \<longleftrightarrow> view (env s) (fst p) (fst (snd p)) = Some (snd (snd p))"

definition has_row :: "(tenant_db \<Rightarrow> 'k \<Rightarrow> 'r option) \<Rightarrow> 'k \<times> 'r \<Rightarrow> 'e sys \<Rightarrow> bool" where
  "has_row lookup k s \<longleftrightarrow> lookup (db s) (fst k) = Some (snd k)"

lemma DeleteObject_content:
  assumes "s3_contract x (c_s3 c) decode view" and "DeleteObject x c b k s = Some (r, t)"
  shows "db t = db s" and "has_content view p t \<Longrightarrow> has_content view p s"
    and "has_content view p s \<Longrightarrow> \<not> has_content view p t \<Longrightarrow> (b, k) = (fst p, fst (snd p))"
    and "r = Inr () \<Longrightarrow> (b, k) = (fst p, fst (snd p)) \<Longrightarrow> \<not> has_content view p t"
  using DeleteObject_view [OF assms] by (auto simp: has_content_def view_set_def split: if_splits)

text \<open>
  \<open>removed lookup place view P s t\<close>: from \<open>s\<close> to \<open>t\<close> no row and no object is added or changed,
  every row that is gone satisfies \<open>P\<close> and the object at its place is gone too, and every object
  that is gone was at the place of a row with \<open>P\<close>.
\<close>

definition removed :: "(tenant_db \<Rightarrow> 'k \<Rightarrow> 'r option) \<Rightarrow> ('r \<Rightarrow> string \<times> string) \<Rightarrow> ('e \<Rightarrow> 'o view) \<Rightarrow>
    ('r \<Rightarrow> bool) \<Rightarrow> 'e sys \<Rightarrow> 'e sys \<Rightarrow> bool" where
  "removed lookup place view P s t \<longleftrightarrow>
    (\<forall>k row. lookup (db t) k = Some row \<longrightarrow> lookup (db s) k = Some row) \<and>
    (\<forall>k row. lookup (db s) k = Some row \<longrightarrow> lookup (db t) k = None \<longrightarrow>
       P row \<and> view (env t) (fst (place row)) (snd (place row)) = None) \<and>
    (\<forall>b key v. view (env t) b key = Some v \<longrightarrow> view (env s) b key = Some v) \<and>
    (\<forall>b key. view (env s) b key \<noteq> None \<longrightarrow> view (env t) b key = None \<longrightarrow>
       (\<exists>k row. lookup (db s) k = Some row \<and> P row \<and> place row = (b, key)))"

lemma removedD: "removed lookup place view P s t \<Longrightarrow> lookup (db s) k = Some row \<Longrightarrow> lookup (db t) k = None \<Longrightarrow> P row"
  by (simp add: removed_def)

lemma removed_mono: "removed lookup place view P s t \<Longrightarrow> (\<And>row. P row \<Longrightarrow> Q row) \<Longrightarrow> removed lookup place view Q s t"
  unfolding removed_def by blast

lemma removed_same: "db t = db s \<Longrightarrow> view (env t) = view (env s) \<Longrightarrow> removed lookup place view P s t"
  by (auto simp: removed_def)

lemma removed_idle: "idle view s t \<Longrightarrow> removed lookup place view P s t"
  by (auto simp: removed_def idle_def)

text \<open>
  The contract of a table whose rows stand for an object of the storage each: forgetting an item
  leaves the storage alone and removes the row of the item, or fails and removes nothing.
\<close>

locale object_rows =
  fixes x :: "'e ext" and s3 :: Client and decode :: "string \<Rightarrow> string" and view :: "'e \<Rightarrow> 'o view"
    and forget :: "'i \<Rightarrow> ('e, unit) io" and lookup :: "tenant_db \<Rightarrow> 'k \<Rightarrow> 'r option"
    and ky :: "'i \<Rightarrow> 'k" and pl :: "'i \<Rightarrow> string \<times> string"
  assumes forget_view: "s3_contract x (c_s3 s3) decode view \<Longrightarrow> io_rel (same_view view) (forget i)"
    and forget_db: "forget i s = Some (r, t) \<Longrightarrow>
      lookup (db t) = (lookup (db s))(ky i := None) \<or> (\<exists>err. r = Inl err) \<and> lookup (db t) = lookup (db s)"

sublocale object_rows \<subseteq> rubbish "\<lambda>i. DeleteObject x s3 (fst (pl i)) (snd (pl i))" forget
  "has_content view" "has_row lookup" "\<lambda>i k. ky i = fst k" "\<lambda>i p. pl i = (fst p, fst (snd p))"
  "\<lambda>s. s3_contract x (c_s3 s3) decode view"
proof unfold_locales
  fix i and s t :: "'e sys" and r and k :: "'k \<times> 'r" and p :: "string \<times> string \<times> 'o"
  assume contract: "s3_contract x (c_s3 s3) decode view"
  {
    assume run: "DeleteObject x s3 (fst (pl i)) (snd (pl i)) s = Some (r, t)"
    note del = DeleteObject_content [OF contract run]
    show "has_row lookup k t = has_row lookup k s" using del(1) by (simp add: has_row_def)
    show "has_content view p t \<Longrightarrow> has_content view p s" using del(2) .
    show "has_content view p s \<Longrightarrow> \<not> has_content view p t \<Longrightarrow> pl i = (fst p, fst (snd p))" using del(3) by simp
  next
    assume "DeleteObject x s3 (fst (pl i)) (snd (pl i)) s = Some (Inr (), t)" "pl i = (fst p, fst (snd p))"
    then show "\<not> has_content view p t" using DeleteObject_content(4) [OF contract] by simp
  next
    assume run: "forget i s = Some (r, t)"
    note del = forget_db [OF run]
    show "has_content view p t = has_content view p s"
      using io_relD [OF forget_view [OF contract] run] by (simp add: same_view_def has_content_def)
    show "has_row lookup k t \<Longrightarrow> has_row lookup k s" using del by (auto simp: has_row_def split: if_splits)
    show "has_row lookup k s \<Longrightarrow> \<not> has_row lookup k t \<Longrightarrow> ky i = fst k" using del by (auto simp: has_row_def split: if_splits)
  next
    assume "forget i s = Some (Inr (), t)" "ky i = fst k"
    then show "\<not> has_row lookup k t" using forget_db by (fastforce simp: has_row_def)
  }
qed

context object_rows
begin

lemma sweep_removed:
  assumes run: "sweep (\<lambda>i. DeleteObject x s3 (fst (pl i)) (snd (pl i))) forget items s2 = Some (r, t)"
    and contract: "s3_contract x (c_s3 s3) decode view" and "idle view s s2"
    and items: "\<And>i. i \<in> set items \<Longrightarrow> \<exists>row. lookup (db s) (ky i) = Some row \<and> P row \<and> place row = pl i"
  shows "removed lookup place view P s t"
proof -
  note swept = sweep_removes [OF run contract]
  have same: "db s2 = db s" "view (env s2) = view (env s)" using assms(3) by (simp_all add: idle_def)
  show ?thesis
    unfolding removed_def
  proof (intro conjI; intro allI impI)
    show "lookup (db s) k = Some row" if "lookup (db t) k = Some row" for k row
      using swept(3) [of "(k, row)"] that same(1) by (simp add: has_row_def)
    show "P row \<and> view (env t) (fst (place row)) (snd (place row)) = None"
      if gone: "lookup (db s) k = Some row" "lookup (db t) k = None" for k row
    proof -
      from swept(5) [of "(k, row)"] gone same(1) obtain i where i: "i \<in> set items" "ky i = k"
        "\<And>p. pl i = (fst p, fst (snd p)) \<Longrightarrow> \<not> has_content view p t" by (auto simp: has_row_def)
      then have "P row" "place row = pl i" using items [OF i(1)] gone(1) by simp_all
      then show ?thesis
        using i(3) [of "(fst (pl i), snd (pl i), the (view (env t) (fst (pl i)) (snd (pl i))))"]
        by (cases "view (env t) (fst (pl i)) (snd (pl i))") (simp_all add: has_content_def)
    qed
    show "view (env s) b key = Some v" if "view (env t) b key = Some v" for b key v
      using swept(2) [of "(b, key, v)"] that same(2) by (simp add: has_content_def)
    show "\<exists>k row. lookup (db s) k = Some row \<and> P row \<and> place row = (b, key)"
      if was: "view (env s) b key \<noteq> None" "view (env t) b key = None" for b key
    proof -
      obtain v where "view (env s) b key = Some v" using was(1) by auto
      then obtain i where "i \<in> set items" "pl i = (b, key)"
        using swept(4) [of "(b, key, v)"] was(2) same(2) by (auto simp: has_content_def)
      then show ?thesis using items by metis
    qed
  qed
qed

text \<open>Where the storage erases what it is asked to, a sweep that succeeds removes every item.\<close>

lemma sweep_all:
  assumes "sweep (\<lambda>i. DeleteObject x s3 (fst (pl i)) (snd (pl i))) forget items s = Some (Inr (), t)"
    and "s3_contract x (c_s3 s3) decode view" and "\<And>e b k. \<exists>e'. s3_DeleteObject x (c_s3 s3) e b k = (Inr (), e')"
    and "i \<in> set items"
  shows "lookup (db t) (ky i) = None"
proof -
  have "\<exists>s'. DeleteObject x s3 (fst (pl i)) (snd (pl i)) s = Some (Inr (), s')" for i s
    using assms(3) [of "env s" "fst (pl i)" "snd (pl i)"] by (auto simp: DeleteObject_def ext_call_def)
  then have "\<forall>i \<in> set items. \<forall>k. ky i = fst k \<longrightarrow> \<not> has_row lookup k t"
    by (intro sweep_complete [OF assms(1,2)])
  then show ?thesis using assms(4) by (cases "lookup (db t) (ky i)") (auto simp: has_row_def)
qed

end

section \<open>Objects in the trash\<close>

lemma Objects_Delete_result:
  assumes "Objects_Delete x bid key s = Some (r, t)"
  shows "(db t = delete_key (bid, key) (db s) \<or> (\<exists>err. r = Inl err) \<and> db t = db s)"
  using assms by (auto simp: Objects_Delete_def delete_key_def io_evals split: prod.splits sql_reply.splits)

interpretation trash_sweep: object_rows x s3 decode view "\<lambda>item. Objects_Delete x (t_BucketID item) (t_Key item)"
  lookup_object "\<lambda>item. (t_BucketID item, t_Key item)" "\<lambda>item. (t_BucketName item, t_Key item)"
  for x :: "'e ext" and s3 decode and view :: "'e \<Rightarrow> 'o view"
proof unfold_locales
  show "io_rel (same_view view) (Objects_Delete x (t_BucketID i) (t_Key i))" if "s3_contract x (c_s3 s3) decode view" for i
    unfolding Objects_Delete_def by (intro sameview.respects_rules sql_exec_view [OF that])
  show "lookup_object (db t) = (lookup_object (db s))((t_BucketID i, t_Key i) := None) \<or>
      (\<exists>err. r = Inl err) \<and> lookup_object (db t) = lookup_object (db s)"
    if "Objects_Delete x (t_BucketID i) (t_Key i) s = Some (r, t)" for i and s t :: "'e sys" and r
    using Objects_Delete_result [OF that] by (auto simp: lookup_delete_key fun_eq_iff)
qed

lemma s3_contract_quiet: "s3_contract x cfg decode view \<Longrightarrow> sql_quiet x view"
  by (simp add: s3_contract_def quiet_contract_def sql_quiet_def)

lemma expiredTrash_query:
  "Objects_expiredTrash x days bid s = Some (Inr items, s') \<Longrightarrow> \<exists>now e'. sql x (env s) = (SqlOk now, e') \<and> env s' = e' \<and> items =
     map (\<lambda>r. \<lparr>t_BucketID = o_bucket_id r, t_BucketName = o_bucket_name r, t_Key = o_object_key r\<rparr>)
       (filter (expired_trash_row days bid now) (object_records (db s)))"
  by (auto simp: Objects_expiredTrash_def io_evals split: prod.splits sql_reply.splits)

lemma expiredTrash_idle: "sql_quiet x obs \<Longrightarrow> io_rel (idle obs) (Objects_expiredTrash x days bid)"
  unfolding Objects_expiredTrash_def by (intro idle.respects_rules sql_query_idle)

lemma trash_query: "(if bid > 0 then Objects_ExpiredTrashInBucket x days bid else Objects_ExpiredTrash x days) =
    Objects_expiredTrash x days (max bid 0)"
  by (simp add: Objects_ExpiredTrashInBucket_def Objects_ExpiredTrash_def)

lemma lookup_in_set: "db_wf d \<Longrightarrow> r \<in> set (object_records d) \<Longrightarrow> lookup_object d (o_bucket_id r, o_object_key r) = Some r"
  using tab_find_in_set [of object_key "object_records d" r] by (simp add: lookup_object_def find_object_def db_wf_objects object_key_def)

definition trash_place :: "object_row \<Rightarrow> string \<times> string" where
  "trash_place row = (o_bucket_name row, o_object_key row)"

lemma trash_item:
  assumes "db_wf d" and "i \<in> set (map (\<lambda>r. \<lparr>t_BucketID = o_bucket_id r, t_BucketName = o_bucket_name r, t_Key = o_object_key r\<rparr>)
      (filter P (object_records d)))"
  shows "\<exists>row. lookup_object d (t_BucketID i, t_Key i) = Some row \<and> P row \<and> trash_place row = (t_BucketName i, t_Key i)"
  using assms lookup_in_set [OF assms(1)] by (auto simp: trash_place_def)

lemma trash_run:
  assumes "\<And>cfg. s3_contract x cfg decode view" and "db_wf (db s)" and "trash x j bid s = Some (r, t)"
  obtains (still) "db t = db s" "view (env t) = view (env s)"
  | (sweep) days now where "policy_of ''trash_cleanup_enabled'' ''trash_retention_days'' 0 (db s) = (days, True)" "1 \<le> days"
      "removed lookup_object trash_place view (expired_trash_row days (max bid 0) now) s t"
      "\<And>tm. time_contract x tm \<Longrightarrow> now \<le> tm (env t)"
proof -
  have quiet: "sql_quiet x view" using assms(1) by (rule s3_contract_quiet)
  from assms(3) [unfolded trash_def trash_query TrashPolicy_def] quiet expiredTrash_idle [OF quiet] show thesis
  proof (cases rule: cleanup_cases)
    case still
    then show ?thesis using that(1) by (simp add: idle_def)
  next
    case (sweep s3 days items s1 s2)
    obtain now where now: "sql x (env s1) = (SqlOk now, env s2)" and items: "items = map (\<lambda>r. \<lparr>t_BucketID = o_bucket_id r,
        t_BucketName = o_bucket_name r, t_Key = o_object_key r\<rparr>) (filter (expired_trash_row days (max bid 0) now) (object_records (db s)))"
      using expiredTrash_query [OF sweep(5)] sweep(3) by (auto simp: idle_def)
    have "removed lookup_object trash_place view (expired_trash_row days (max bid 0) now) s t"
      by (rule trash_sweep.sweep_removed [OF _ assms(1) sweep(4)]) (use sweep(6) in simp, rule trash_item [OF assms(2)], simp add: items)
    moreover have "now \<le> tm (env t)" if time: "time_contract x tm" for tm
    proof (rule now_later [OF now _ time])
      have "io_rel (later tm) (sweep (\<lambda>item. DeleteObject x s3 (t_BucketName item) (t_Key item))
          (\<lambda>item. Objects_Delete x (t_BucketID item) (t_Key item)) items)"
        unfolding Objects_Delete_def by (intro sweep_later later.respects_wrap_err calls_later [OF time])
      then show "later tm s2 t" using sweep(6) by (rule io_relD)
    qed
    ultimately show ?thesis using that(2) [OF sweep(1,2)] by blast
  qed
qed

text \<open>The records of trashed objects that nobody has seen or changed since \<open>T\<close>, said without the SQL text.\<close>

definition trashed_before :: "time \<Rightarrow> object_row \<Rightarrow> bool" where
  "trashed_before T row \<longleftrightarrow> (\<exists>orig. orig \<noteq> [] \<and> o_object_key row = ToTrashKey orig) \<and>
     (case o_last_seen_at row of None \<Rightarrow> o_updated_at row | Some seen \<Rightarrow> seen) < T"

lemma expired_trashed_before:
  assumes "expired_trash_row days bid now row" and "now \<le> end"
  shows "trashed_before (end - days * Day) row" and "0 < bid \<Longrightarrow> o_bucket_id row = bid"
proof -
  have "prefix TrashPrefix (o_object_key row)" "o_object_key row \<noteq> TrashPrefix"
    using assms(1) by (simp_all add: expired_trash_row_def sql_like_trash) (simp add: TrashPrefix_def)
  then have "\<exists>orig. orig \<noteq> [] \<and> o_object_key row = ToTrashKey orig"
    by (auto simp: prefix_def ToTrashKey_def)
  then show "trashed_before (end - days * Day) row"
    using assms by (auto simp: trashed_before_def expired_trash_row_def seen_or_updated_def split: option.splits)
  show "0 < bid \<Longrightarrow> o_bucket_id row = bid" using assms(1) by (simp add: expired_trash_row_def)
qed

text \<open>
  C6: The trash cleanup, however it ends, adds and changes no row and no object. A row that it
  removes belonged to the bucket asked for (any, for \<^verbatim>\<open>bucketID\<close> 0), was in the trash and, when the run
  ended, older than the retention that the settings of the database ask for, and its object is gone; an object that it
  erases was that of such a row. It does nothing at all unless the settings enable it with at least one day of
  retention. \<open>tm\<close> is the time, which no call turns back and \<^verbatim>\<open>now()\<close> is not ahead of.
\<close>

theorem trash_removes_only_expired:
  assumes "\<And>cfg. s3_contract x cfg decode view" and "time_contract x tm" and "db_wf (db s)"
    and "trash x j bid s = Some (r, t)"
    and "policy_of ''trash_cleanup_enabled'' ''trash_retention_days'' 0 (db s) = (days, enabled)"
  shows "removed lookup_object trash_place view (\<lambda>row. enabled \<and> 1 \<le> days \<and>
      (0 < bid \<longrightarrow> o_bucket_id row = bid) \<and> trashed_before (tm (env t) - days * Day) row) s t \<and>
    (enabled \<and> 1 \<le> days \<or> db t = db s \<and> view (env t) = view (env s))"
  using assms(1,3,4)
proof (cases rule: trash_run)
  case still
  then show ?thesis by (simp add: removed_same)
next
  case (sweep days' now)
  have on: "days' = days" "enabled" using sweep(1) assms(5) by simp_all
  have "(0 < bid \<longrightarrow> o_bucket_id row = bid) \<and> trashed_before (tm (env t) - days * Day) row"
    if "expired_trash_row days' (max bid 0) now row" for row
    using expired_trashed_before [OF that sweep(4) [OF assms(2)]] on(1) by auto
  then have "removed lookup_object trash_place view (\<lambda>row. enabled \<and> 1 \<le> days \<and>
      (0 < bid \<longrightarrow> o_bucket_id row = bid) \<and> trashed_before (tm (env t) - days * Day) row) s t"
    by (intro removed_mono [OF sweep(3)]) (use sweep(2) on in blast)
  then show ?thesis using sweep(2) on by simp
qed

text \<open>A worker, and a bucket whose trash has an object older than the 30 days that the settings ask for.\<close>

definition demo_jobs :: Jobs where
  "demo_jobs = \<lparr>has_Settings = True, has_Versions = True, has_Uploads = True, has_Stats = True, has_Log = True,
     S3FB = \<lparr>Endpoint = ''http://rgw/'', AccessKey = ''ak'', SecretKey = ''sk'', Region = [],
       UploadTTL = 0, DownloadTTL = 0, DownloadCDNURL = [], PreviewCDNURL = []\<rparr>\<rparr>"

definition demo_policies :: "setting_row list" where
  "demo_policies = map (\<lambda>(k, v). \<lparr>s_key = k, s_value = v, s_updated_at = 0\<rparr>)
     [(''trash_cleanup_enabled'', ''true''), (''trash_retention_days'', ''30''),
      (''version_cleanup_enabled'', ''on''), (''version_retention_days'', ''30''),
      (''multipart_cleanup_enabled'', ''1'')]"

definition demo_dirty :: "mem sys" where
  "demo_dirty = demo_sys\<lparr>db := demo_db\<lparr>platform_settings := demo_policies,
     object_records := [demo_object ''docs/a'' 0, demo_object ''.trash/old'' 0, demo_object ''.trash/new'' (20 * Day)]\<rparr>\<rparr>"

lemma demo_dirty_wf: "db_wf (db demo_dirty)"
  by (simp add: demo_dirty_def demo_policies_def demo_sys_def demo_db_def demo_object_def db_wf_def tab_wf_def
      object_key_def empty_db_def grant_key_def Bucket.defs)

lemma mem_time_contract: "time_contract (mem_ext decode) mem_now"
  by (auto simp: time_contract_def mem_ext_def mem_delete_def)

theorem trash_removes_only_expired_witness:
  "\<exists>t. trash demo_ext demo_jobs 1 demo_dirty = Some (Inr (), t) \<and> mem_now (env t) = 40 * Day \<and>
     lookup_object (db t) (1, ''.trash/old'') = None \<and>
     removed lookup_object trash_place mem_view (\<lambda>row. o_bucket_id row = 1 \<and> trashed_before (10 * Day) row) demo_dirty t"
proof -
  have "map_option (\<lambda>(r, t). r = Inr () \<and> mem_now (env t) = 40 * Day \<and> lookup_object (db t) (1, ''.trash/old'') = None)
      (trash demo_ext demo_jobs 1 demo_dirty) = Some True"
    by code_simp
  then obtain t where run: "trash demo_ext demo_jobs 1 demo_dirty = Some (Inr (), t)" and time: "mem_now (env t) = 40 * Day"
    and gone: "lookup_object (db t) (1, ''.trash/old'') = None" by auto
  have policy: "policy_of ''trash_cleanup_enabled'' ''trash_retention_days'' 0 (db demo_dirty) = (30, True)" by code_simp
  show ?thesis
    using trash_removes_only_expired [OF mem_s3_contract mem_time_contract demo_dirty_wf run policy] run time gone
    by (simp add: Day_def)
qed

text \<open>
  C15: The trash cleanup is complete: where the settings enable it, the storage erases what it is
  asked to and the run succeeds, no row is left in its scope that had expired when it started
  (\<open>T\<close> is a time that no statement of the run is before).
\<close>

theorem trash_cleanup_complete:
  assumes "\<And>cfg. s3_contract x cfg decode view" and "db_wf (db s)" and "trash x j bid s = Some (Inr (), t)"
    and "has_Settings j" and "Ready (S3FB j)"
    and "policy_of ''trash_cleanup_enabled'' ''trash_retention_days'' 0 (db s) = (days, True)" and "1 \<le> days"
    and "\<And>cfg e b k. \<exists>e'. s3_DeleteObject x cfg e b k = (Inr (), e')"
    and "\<And>e now e'. sql x e = (SqlOk now, e') \<Longrightarrow> T \<le> now"
    and "lookup_object (db t) k = Some row"
  shows "\<not> expired_trash_row days (max bid 0) T row"
proof
  assume exp: "expired_trash_row days (max bid 0) T row"
  have quiet: "sql_quiet x view" using assms(1) by (rule s3_contract_quiet)
  from assms(3) [unfolded trash_def trash_query TrashPolicy_def] quiet expiredTrash_idle [OF quiet] show False
  proof (cases rule: cleanup_cases)
    case still
    then show ?thesis using assms(4,5,6,7) by simp
  next
    case (sweep s3 days' items s1 s2)
    have days: "days' = days" using sweep(1) assms(6) by simp
    have same: "db s1 = db s" "db s2 = db s" using sweep(3,4) by (simp_all add: idle_def)
    obtain now e' where now: "sql x (env s1) = (SqlOk now, e')" and items: "items = map (\<lambda>r. \<lparr>t_BucketID = o_bucket_id r,
        t_BucketName = o_bucket_name r, t_Key = o_object_key r\<rparr>) (filter (expired_trash_row days (max bid 0) now) (object_records (db s)))"
      using expiredTrash_query [OF sweep(5)] same(1) days by auto
    have sweep: "sweep (\<lambda>i. DeleteObject x s3 (fst (t_BucketName i, t_Key i)) (snd (t_BucketName i, t_Key i)))
        (\<lambda>i. Objects_Delete x (t_BucketID i) (t_Key i)) items s2 = Some (Inr (), t)"
      using sweep(6) by simp
    have "lookup_object (db s) k = Some row"
      using trash_sweep.sweep_removes(3) [OF sweep assms(1), of "(k, row)"] assms(10) same(2) by (simp add: has_row_def)
    then have row: "row \<in> set (object_records (db s))" "k = (o_bucket_id row, o_object_key row)"
      using tab_find_SomeD by (fastforce simp: lookup_object_def find_object_def object_key_def)+
    have "expired_trash_row days (max bid 0) now row"
      using exp assms(9) [OF now] by (auto simp: expired_trash_row_def)
    then have "\<lparr>t_BucketID = o_bucket_id row, t_BucketName = o_bucket_name row, t_Key = o_object_key row\<rparr> \<in> set items"
      using row(1) by (auto simp: items)
    from trash_sweep.sweep_all [OF sweep assms(1,8) this] show ?thesis using assms(10) row(2) by simp
  qed
qed

text \<open>The in-memory service with a database that always says the same time.\<close>

definition dated_ext :: "time \<Rightarrow> mem ext" where
  "dated_ext now = demo_ext\<lparr>sql := (\<lambda>e. (SqlOk now, e))\<rparr>"

lemma dated_s3_contract: "s3_contract (dated_ext now) cfg (\<lambda>s. s) mem_view"
  using mem_s3_contract [of "\<lambda>s. s" cfg]
  by (simp add: dated_ext_def s3_contract_def head_contract_def delete_contract_def copy_contract_def quiet_contract_def)

theorem trash_cleanup_complete_witness:
  "\<exists>t row. trash (dated_ext (40 * Day)) demo_jobs 1 demo_dirty = Some (Inr (), t) \<and>
     lookup_object (db t) (1, ''.trash/new'') = Some row \<and> \<not> expired_trash_row 30 1 (40 * Day) row"
proof -
  have "map_option (\<lambda>(r, t). r = Inr () \<and> lookup_object (db t) (1, ''.trash/new'') \<noteq> None)
      (trash (dated_ext (40 * Day)) demo_jobs 1 demo_dirty) = Some True"
    by code_simp
  then obtain t row where run: "trash (dated_ext (40 * Day)) demo_jobs 1 demo_dirty = Some (Inr (), t)"
    and row: "lookup_object (db t) (1, ''.trash/new'') = Some row" by auto
  have policy: "policy_of ''trash_cleanup_enabled'' ''trash_retention_days'' 0 (db demo_dirty) = (30, True)" by code_simp
  have "\<not> expired_trash_row 30 (max 1 0) (40 * Day) row"
    by (rule trash_cleanup_complete [OF dated_s3_contract demo_dirty_wf run _ _ policy _ _ _ row])
      (auto simp: demo_jobs_def Ready_def dated_ext_def mem_ext_def mem_delete_def)
  then show ?thesis using run row by auto
qed

end
