(* ===== verification/WorkerRetention.thy ===== *)
theory WorkerRetention
  imports WorkerCleanup
begin

text \<open>
  The two other cleanup jobs of \<^verbatim>\<open>internal/worker/jobs.go\<close>: old versions of files, and multipart
  uploads that were never completed.
\<close>

section \<open>Versions\<close>

definition lookup_version :: "tenant_db \<Rightarrow> int \<Rightarrow> version_row option" where
  "lookup_version d = tab_find v_id (file_versions d)"

definition version_place :: "version_row \<Rightarrow> string \<times> string" where
  "version_place v = (v_bucket_name v, v_storage_key v)"

interpretation version_sweep: object_rows x s3 decode view "\<lambda>item. Versions_Delete x (VersionID item)"
  lookup_version VersionID "\<lambda>item. (VersionBucket item, StorageKey item)"
  for x :: "'e ext" and s3 decode and view :: "'e \<Rightarrow> 'o view"
proof unfold_locales
  show "io_rel (same_view view) (Versions_Delete x (VersionID i))" if "s3_contract x (c_s3 s3) decode view" for i
    unfolding Versions_Delete_def by (intro sameview.respects_rules sql_exec_view [OF that])
  show "lookup_version (db t) = (lookup_version (db s))(VersionID i := None) \<or>
      (\<exists>err. r = Inl err) \<and> lookup_version (db t) = lookup_version (db s)"
    if "Versions_Delete x (VersionID i) s = Some (r, t)" for i and s t :: "'e sys" and r
    using that by (auto simp: Versions_Delete_def sql_delete_version_def io_evals lookup_version_def fun_eq_iff
        tab_find_delete_key split: prod.splits sql_reply.splits)
qed

lemma version_query: "(if name \<noteq> [] then Versions_ExpiredInBucket x days name else Versions_Expired x days) =
    Versions_expired x days name"
  by (simp add: Versions_ExpiredInBucket_def Versions_Expired_def)

lemma Versions_expired_idle: "sql_quiet x obs \<Longrightarrow> io_rel (idle obs) (Versions_expired x days name)"
  unfolding Versions_expired_def by (intro idle.respects_rules sql_query_idle)

lemma Versions_expired_items:
  assumes "Versions_expired x days name s = Some (Inr items, s')" and "db_wf (db s)"
  shows "\<exists>now. sql x (env s) = (SqlOk now, env s') \<and> (\<forall>i \<in> set items. \<exists>v. lookup_version (db s) (VersionID i) = Some v \<and>
    expired_version_row days name now v \<and> version_place v = (VersionBucket i, StorageKey i))"
proof -
  obtain now where now: "sql x (env s) = (SqlOk now, env s')" and items: "items = map (scan_version (db s))
      (take 5000 (sort_key v_id (filter (expired_version_row days name now) (file_versions (db s)))))"
    using query_now [OF assms(1) [unfolded Versions_expired_def]] by metis
  show ?thesis
  proof (intro exI [of _ now] conjI ballI now)
    fix i
    assume "i \<in> set items"
    then obtain v where v: "v \<in> set (file_versions (db s))" "expired_version_row days name now v" "i = scan_version (db s) v"
      unfolding items by (auto dest!: in_set_takeD)
    then have "lookup_version (db s) (v_id v) = Some v"
      using tab_find_in_set assms(2) by (auto simp: lookup_version_def db_wf_def)
    then show "\<exists>v. lookup_version (db s) (VersionID i) = Some v \<and> expired_version_row days name now v \<and>
        version_place v = (VersionBucket i, StorageKey i)"
      using v by (auto simp: scan_version_def version_place_def)
  qed
qed

lemma versions_run:
  assumes "\<And>cfg. s3_contract x cfg decode view" and "db_wf (db s)" and "cleanVersions x j name s = Some (r, t)"
  obtains (still) "db t = db s" "view (env t) = view (env s)"
  | (sweep) days now where "policy_of ''version_cleanup_enabled'' ''version_retention_days'' 0 (db s) = (days, True)" "1 \<le> days"
      "removed lookup_version version_place view (expired_version_row days name now) s t"
      "\<And>tm. time_contract x tm \<Longrightarrow> now \<le> tm (env t)"
proof -
  have quiet: "sql_quiet x view" using assms(1) by (rule s3_contract_quiet)
  from assms(3) [unfolded cleanVersions_def version_query VersionPolicy_def] quiet Versions_expired_idle [OF quiet] show thesis
  proof (cases rule: cleanup_cases)
    case still
    then show ?thesis using that(1) by (simp add: idle_def)
  next
    case (sweep s3 days items s1 s2)
    have wf: "db_wf (db s1)" and same: "db s1 = db s" using assms(2) sweep(3) by (simp_all add: idle_def)
    obtain now where now: "sql x (env s1) = (SqlOk now, env s2)" and items: "\<And>i. i \<in> set items \<Longrightarrow>
        \<exists>v. lookup_version (db s) (VersionID i) = Some v \<and> expired_version_row days name now v \<and> version_place v = (VersionBucket i, StorageKey i)"
      using Versions_expired_items [OF sweep(5) wf] same by auto
    have "removed lookup_version version_place view (expired_version_row days name now) s t"
      by (rule version_sweep.sweep_removed [OF _ assms(1) sweep(4) items]) (use sweep(6) in simp)
    moreover have "now \<le> tm (env t)" if time: "time_contract x tm" for tm
    proof (rule now_later [OF now _ time])
      have "io_rel (later tm) (sweep (\<lambda>item. DeleteObject x s3 (VersionBucket item) (StorageKey item))
          (\<lambda>item. Versions_Delete x (VersionID item)) items)"
        unfolding Versions_Delete_def by (intro sweep_later later.respects_wrap_err calls_later [OF time])
      then show "later tm s2 t" using sweep(6) by (rule io_relD)
    qed
    ultimately show ?thesis using that(2) [OF sweep(1,2)] by blast
  qed
qed

text \<open>
  C19: The version cleanup removes only versions that are, when the run ends, older than the retention that the
  settings ask for, of the bucket asked for if one is, and each together with the object that stored it. It does nothing at all unless
  the settings enable it with at least one day of retention.
\<close>

theorem versions_removes_only_expired:
  assumes "\<And>cfg. s3_contract x cfg decode view" and "time_contract x tm" and "db_wf (db s)"
    and "cleanVersions x j name s = Some (r, t)"
    and "policy_of ''version_cleanup_enabled'' ''version_retention_days'' 0 (db s) = (days, enabled)"
  shows "removed lookup_version version_place view
      (\<lambda>v. enabled \<and> 1 \<le> days \<and> (name \<noteq> [] \<longrightarrow> v_bucket_name v = name) \<and> v_created_at v < tm (env t) - days * Day) s t \<and>
    (enabled \<and> 1 \<le> days \<or> db t = db s \<and> view (env t) = view (env s))"
  using assms(1,3,4)
proof (cases rule: versions_run)
  case still
  then show ?thesis by (simp add: removed_same)
next
  case (sweep days' now)
  have on: "days' = days" "enabled" using sweep(1) assms(5) by simp_all
  have "(name \<noteq> [] \<longrightarrow> v_bucket_name v = name) \<and> v_created_at v < tm (env t) - days * Day" if "expired_version_row days' name now v" for v
    using that sweep(4) [OF assms(2)] on(1) by (auto simp: expired_version_row_def)
  then have "removed lookup_version version_place view
      (\<lambda>v. enabled \<and> 1 \<le> days \<and> (name \<noteq> [] \<longrightarrow> v_bucket_name v = name) \<and> v_created_at v < tm (env t) - days * Day) s t"
    by (intro removed_mono [OF sweep(3)]) (use sweep(2) on in simp)
  then show ?thesis using sweep(2) on by simp
qed

definition demo_versions :: "mem sys" where
  "demo_versions = demo_dirty\<lparr>db := (db demo_dirty)\<lparr>file_versions := map (\<lambda>(i, key, at).
     \<lparr>v_id = i, v_bucket_name = ''media'', v_object_key = ''docs/a'', v_version_no = i, v_storage_key = key, v_size = 1,
      v_etag = None, v_created_by = 5, v_created_at = at, v_source = ''upload'', v_remark = None\<rparr>)
       [(1, ''.versions/1'', 0), (2, ''.versions/2'', 39 * Day)]\<rparr>\<rparr>"

lemma demo_versions_wf: "db_wf (db demo_versions)"
  using demo_dirty_wf by (simp add: demo_versions_def db_wf_def tab_wf_def)

theorem versions_removes_only_expired_witness:
  "\<exists>t. cleanVersions demo_ext demo_jobs ''media'' demo_versions = Some (Inr (), t) \<and> mem_now (env t) = 40 * Day \<and>
     map v_id (file_versions (db t)) = [2] \<and>
     removed lookup_version version_place mem_view (\<lambda>v. v_bucket_name v = ''media'' \<and> v_created_at v < 10 * Day) demo_versions t"
proof -
  have "map_option (\<lambda>(r, t). r = Inr () \<and> mem_now (env t) = 40 * Day \<and> map v_id (file_versions (db t)) = [2])
      (cleanVersions demo_ext demo_jobs ''media'' demo_versions) = Some True"
    by code_simp
  then obtain t where run: "cleanVersions demo_ext demo_jobs ''media'' demo_versions = Some (Inr (), t)"
    and time: "mem_now (env t) = 40 * Day" and gone: "map v_id (file_versions (db t)) = [2]" by auto
  have policy: "policy_of ''version_cleanup_enabled'' ''version_retention_days'' 0 (db demo_versions) = (30, True)" by code_simp
  show ?thesis
    using versions_removes_only_expired [OF mem_s3_contract mem_time_contract demo_versions_wf run policy] run time gone
    by (simp add: Day_def)
qed

section \<open>Multipart uploads\<close>

text \<open>
  What the storage documents of multipart uploads: \<open>alive e\<close> are the uploads, as bucket, key and
  id, that are neither completed nor aborted. A call that reports an error may have been executed.
\<close>

definition abort_contract :: "'e ext \<Rightarrow> ('e \<Rightarrow> (string \<times> string \<times> string) set) \<Rightarrow> bool" where
  "abort_contract x alive \<longleftrightarrow> sql_quiet x alive \<and> (\<forall>e. alive (snd (clock x e)) = alive e) \<and>
     (\<forall>cfg e b k u r e'. s3_AbortMultipartUpload x cfg e b k u = (r, e') \<longrightarrow>
        alive e' = alive e - {(b, k, u)} \<or> (\<exists>err. r = Inl err) \<and> alive e' = alive e)"

definition lookup_upload :: "tenant_db \<Rightarrow> int \<Rightarrow> upload_row option" where
  "lookup_upload d i = find (\<lambda>u. u_id u = i) (upload_tasks d)"

definition aborted_at :: "time \<Rightarrow> upload_row \<Rightarrow> upload_row" where
  "aborted_at at u = u\<lparr>u_status := StatusAbort, u_completed_at := Some at\<rparr>"

definition is_pending :: "int \<times> upload_row \<Rightarrow> 'e sys \<Rightarrow> bool" where
  "is_pending k s \<longleftrightarrow> has_row lookup_upload k s \<and> u_status (snd k) = StatusPending"

definition is_alive :: "('e \<Rightarrow> (string \<times> string \<times> string) set) \<Rightarrow> string \<times> string \<times> string \<Rightarrow> 'e sys \<Rightarrow> bool" where
  "is_alive alive p s \<longleftrightarrow> p \<in> alive (env s)"

definition upload_place :: "string \<Rightarrow> string \<Rightarrow> string option \<Rightarrow> string \<times> string \<times> string \<Rightarrow> bool" where
  "upload_place b k uid p \<longleftrightarrow> (\<exists>u. uid = Some u \<and> u \<noteq> [] \<and> p = (b, k, u))"

definition abort_item :: "'e ext \<Rightarrow> Client \<Rightarrow> upload_task \<Rightarrow> ('e, unit) io" where
  "abort_item x s3 item = (case UploadID item of
     None \<Rightarrow> ret ()
   | Some u \<Rightarrow> if u \<noteq> [] then AbortMultipart x s3 (TaskBucket item) (TaskKey item) u else ret ())"

lemma abort_item_effect:
  assumes "abort_contract x alive" and "abort_item x s3 i s = Some (r, t)"
  shows "db t = db s" and "is_alive alive p t \<Longrightarrow> is_alive alive p s"
    and "is_alive alive p s \<Longrightarrow> \<not> is_alive alive p t \<Longrightarrow> upload_place (TaskBucket i) (TaskKey i) (UploadID i) p"
    and "r = Inr () \<Longrightarrow> upload_place (TaskBucket i) (TaskKey i) (UploadID i) p \<Longrightarrow> \<not> is_alive alive p t"
proof -
  have cases: "t = s \<and> \<not> (\<exists>u. UploadID i = Some u \<and> u \<noteq> []) \<or> (\<exists>u. UploadID i = Some u \<and> u \<noteq> [] \<and> db t = db s \<and>
      (alive (env t) = alive (env s) - {(TaskBucket i, TaskKey i, u)} \<or> (\<exists>err. r = Inl err) \<and> alive (env t) = alive (env s)))"
  proof (cases "\<exists>u. UploadID i = Some u \<and> u \<noteq> []")
    case True
    then obtain u where u: "UploadID i = Some u" "u \<noteq> []" by blast
    obtain q e where q: "s3_AbortMultipartUpload x (c_s3 s3) (env s) (TaskBucket i) (TaskKey i) u = (q, e)" by fastforce
    have "alive e = alive (env s) - {(TaskBucket i, TaskKey i, u)} \<or> (\<exists>err. q = Inl err) \<and> alive e = alive (env s)"
      using assms(1) q by (simp add: abort_contract_def)
    moreover have "t = s\<lparr>env := e\<rparr> \<and> ((\<exists>err. q = Inl err) \<longrightarrow> (\<exists>err. r = Inl err))"
      using assms(2) u q by (cases q) (auto simp: abort_item_def AbortMultipart_def ext_call_def)
    ultimately show ?thesis using u by (intro disjI2 exI [of _ u]) auto
  next
    case False
    then show ?thesis using assms(2) by (auto simp: abort_item_def ret_apply split: option.splits if_splits)
  qed
  then show "db t = db s" by blast
  show "is_alive alive p t \<Longrightarrow> is_alive alive p s" using cases by (auto simp: is_alive_def)
  show "is_alive alive p s \<Longrightarrow> \<not> is_alive alive p t \<Longrightarrow> upload_place (TaskBucket i) (TaskKey i) (UploadID i) p"
    using cases by (auto simp: is_alive_def upload_place_def)
  show "\<not> is_alive alive p t" if ok: "r = Inr ()" and at: "upload_place (TaskBucket i) (TaskKey i) (UploadID i) p"
  proof -
    obtain u where "UploadID i = Some u" "u \<noteq> []" "p = (TaskBucket i, TaskKey i, u)" using at by (auto simp: upload_place_def)
    then show ?thesis using cases ok by (auto simp: is_alive_def)
  qed
qed

lemma aborted_not_pending: "u_status (aborted_at at u) \<noteq> StatusPending"
  by (simp add: aborted_at_def StatusAbort_def StatusPending_def)

lemma Finish_effect:
  assumes "Uploads_Finish x i StatusAbort at s = Some (r, t)"
  shows "lookup_upload (db t) = (lookup_upload (db s))(i := map_option (aborted_at at) (lookup_upload (db s) i)) \<or>
    (\<exists>err. r = Inl err) \<and> db t = db s"
proof -
  have "lookup_upload (sql_finish_upload i StatusAbort at d) =
      (lookup_upload d)(i := map_option (aborted_at at) (lookup_upload d i))" for d
  proof
    show "lookup_upload (sql_finish_upload i StatusAbort at d) j =
        ((lookup_upload d)(i := map_option (aborted_at at) (lookup_upload d i))) j" for j
      by (cases "lookup_upload d j")
        (auto simp: lookup_upload_def sql_finish_upload_def find_update_upload aborted_at_def dest: find_SomeD)
  qed
  then show ?thesis
    using assms by (auto simp: Uploads_Finish_def io_evals split: prod.splits sql_reply.splits)
qed

lemma Finish_alive: "sql_quiet x alive \<Longrightarrow> Uploads_Finish x i st at s = Some (r, t) \<Longrightarrow> alive (env t) = alive (env s)"
  by (auto simp: Uploads_Finish_def sql_exec_def sql_stmt_def sql_quiet_def split: prod.splits sql_reply.splits) (metis snd_conv)+

interpretation upload_sweep: rubbish "abort_item x s3" "\<lambda>item. Uploads_Finish x (TaskID item) StatusAbort at"
  "is_alive alive" is_pending "\<lambda>i k. TaskID i = fst k" "\<lambda>i p. upload_place (TaskBucket i) (TaskKey i) (UploadID i) p"
  "\<lambda>s. abort_contract x alive"
  for x :: "'e ext" and s3 at alive
proof unfold_locales
  fix i and s t :: "'e sys" and r and k :: "int \<times> upload_row" and p
  assume contract: "abort_contract x alive"
  then have quiet: "sql_quiet x alive" by (simp add: abort_contract_def)
  {
    assume run: "abort_item x s3 i s = Some (r, t)"
    note effect = abort_item_effect [OF contract run]
    show "is_pending k t = is_pending k s" using effect(1) by (simp add: is_pending_def has_row_def)
    show "is_alive alive p t \<Longrightarrow> is_alive alive p s" by (rule effect(2))
    show "is_alive alive p s \<Longrightarrow> \<not> is_alive alive p t \<Longrightarrow> upload_place (TaskBucket i) (TaskKey i) (UploadID i) p" by (rule effect(3))
  next
    assume "abort_item x s3 i s = Some (Inr (), t)" "upload_place (TaskBucket i) (TaskKey i) (UploadID i) p"
    then show "\<not> is_alive alive p t" using abort_item_effect(4) [OF contract] by blast
  next
    assume run: "Uploads_Finish x (TaskID i) StatusAbort at s = Some (r, t)"
    note effect = Finish_effect [OF run]
    show "is_alive alive p t = is_alive alive p s" using Finish_alive [OF quiet run] by (simp add: is_alive_def)
    show "is_pending k t \<Longrightarrow> is_pending k s"
      using effect by (auto simp: is_pending_def has_row_def split: if_splits) (metis aborted_not_pending)
    show "is_pending k s \<Longrightarrow> \<not> is_pending k t \<Longrightarrow> TaskID i = fst k"
      using effect by (auto simp: is_pending_def has_row_def split: if_splits)
  next
    assume "Uploads_Finish x (TaskID i) StatusAbort at s = Some (Inr (), t)" "TaskID i = fst k"
    then show "\<not> is_pending k t"
      using Finish_effect [of x "TaskID i" at s "Inr ()" t] by (auto simp: is_pending_def has_row_def) (metis aborted_not_pending)
  }
qed

text \<open>What the sweep does to the rows, item by item.\<close>

definition finished_by :: "time \<Rightarrow> int set \<Rightarrow> 'e sys \<Rightarrow> 'e sys \<Rightarrow> bool" where
  "finished_by at A s t \<longleftrightarrow> (\<forall>i. lookup_upload (db t) i = lookup_upload (db s) i \<or>
     i \<in> A \<and> lookup_upload (db t) i = map_option (aborted_at at) (lookup_upload (db s) i))"

lemma aborted_twice [simp]: "aborted_at at (aborted_at at u) = aborted_at at u"
  by (simp add: aborted_at_def)

interpretation finishedby: io_preorder "finished_by at A" for at A
proof unfold_locales
  show "finished_by at A s s" for s :: "'a sys" by (simp add: finished_by_def)
  show "finished_by at A s u" if st: "finished_by at A s t" and tu: "finished_by at A t u" for s t u :: "'a sys"
    unfolding finished_by_def
  proof
    have "map_option (aborted_at at) (map_option (aborted_at at) q) = map_option (aborted_at at) q" for q
      by (cases q) simp_all
    then show "lookup_upload (db u) i = lookup_upload (db s) i \<or>
        i \<in> A \<and> lookup_upload (db u) i = map_option (aborted_at at) (lookup_upload (db s) i)" for i
      using spec [OF st [unfolded finished_by_def], of i] spec [OF tu [unfolded finished_by_def], of i] by auto
  qed
qed

lemma sweep_finished:
  assumes "sweep (abort_item x s3) (\<lambda>item. Uploads_Finish x (TaskID item) StatusAbort at) items s = Some (r, t)"
    and contract: "abort_contract x alive"
  shows "finished_by at (TaskID ` set items) s t"
proof -
  have erase: "io_rel (finished_by at A) (abort_item x s3 i)" for A i
    using abort_item_effect(1) [OF contract] by (auto simp: io_rel_def finished_by_def)
  have forget: "io_rel (finished_by at A) (Uploads_Finish x (TaskID i) StatusAbort at)" if "TaskID i \<in> A" for A i
    by (rule io_relI) (drule Finish_effect, use that in \<open>auto simp: finished_by_def split: if_splits\<close>)
  have "io_rel (finished_by at (TaskID ` set items))
      (sweep (abort_item x s3) (\<lambda>item. Uploads_Finish x (TaskID item) StatusAbort at) items)"
    unfolding sweep_def
    by (intro finishedby.respects_rules erase) (auto intro: finishedby.respects_ret forget split: sum.split)
  then show ?thesis using assms(1) by (rule io_relD)
qed

text \<open>
  \<open>uploads_aborted alive P s t\<close>: from \<open>s\<close> to \<open>t\<close>, a task that has changed satisfies \<open>P\<close>, is now
  aborted with nothing else in it changed but the time of completion, and its upload is gone from the storage; no
  upload has appeared, and one that is gone was that of a task with \<open>P\<close>.
\<close>

definition uploads_aborted :: "('e \<Rightarrow> (string \<times> string \<times> string) set) \<Rightarrow> (upload_row \<Rightarrow> bool) \<Rightarrow> 'e sys \<Rightarrow> 'e sys \<Rightarrow> bool" where
  "uploads_aborted alive P s t \<longleftrightarrow>
    (\<forall>i. lookup_upload (db t) i \<noteq> lookup_upload (db s) i \<longrightarrow> (\<exists>row at. lookup_upload (db s) i = Some row \<and> P row \<and>
       lookup_upload (db t) i = Some (aborted_at at row) \<and>
       (\<forall>p. upload_place (u_bucket_name row) (u_object_key row) (u_upload_id row) p \<longrightarrow> p \<notin> alive (env t)))) \<and>
    alive (env t) \<subseteq> alive (env s) \<and>
    (\<forall>p \<in> alive (env s) - alive (env t). \<exists>i row. lookup_upload (db s) i = Some row \<and> P row \<and>
       upload_place (u_bucket_name row) (u_object_key row) (u_upload_id row) p)"

lemma stale_query: "(if name \<noteq> [] then Uploads_StaleMultipartInBucket x days name else Uploads_StaleMultipart x days) =
    Uploads_staleMultipart x days name"
  by (simp add: Uploads_StaleMultipartInBucket_def Uploads_StaleMultipart_def)

lemma staleMultipart_idle: "sql_quiet x obs \<Longrightarrow> io_rel (idle obs) (Uploads_staleMultipart x days name)"
  unfolding Uploads_staleMultipart_def by (intro idle.respects_rules sql_query_idle)

lemma staleMultipart_items:
  assumes "Uploads_staleMultipart x days name s = Some (Inr items, s')" and "db_wf (db s)"
  shows "\<exists>now. sql x (env s) = (SqlOk now, env s') \<and> (\<forall>i \<in> set items. \<exists>row. lookup_upload (db s) (TaskID i) = Some row \<and>
    stale_upload_row days name now row \<and> i = scan_upload row)"
proof -
  obtain now where now: "sql x (env s) = (SqlOk now, env s')" and items: "items = map scan_upload
      (take 5000 (sort_key u_id (filter (stale_upload_row days name now) (upload_tasks (db s)))))"
    using query_now [OF assms(1) [unfolded Uploads_staleMultipart_def]] by metis
  show ?thesis
  proof (intro exI [of _ now] conjI ballI now)
    fix i
    assume "i \<in> set items"
    then obtain row where row: "row \<in> set (upload_tasks (db s))" "stale_upload_row days name now row" "i = scan_upload row"
      unfolding items by (auto dest!: in_set_takeD)
    then have "lookup_upload (db s) (u_id row) = Some row"
      using tab_find_in_set [of u_id "upload_tasks (db s)" row] assms(2) by (simp add: lookup_upload_def tab_find_def db_wf_def)
    then show "\<exists>row. lookup_upload (db s) (TaskID i) = Some row \<and> stale_upload_row days name now row \<and> i = scan_upload row"
      using row by (auto simp: scan_upload_def)
  qed
qed

lemma sweep_uploads:
  assumes contract: "abort_contract x alive" and "idle alive s s2"
    and run: "sweep (abort_item x s3) (\<lambda>item. Uploads_Finish x (TaskID item) StatusAbort at) items s2 = Some (r, t)"
    and items: "\<forall>i \<in> set items. \<exists>row. lookup_upload (db s) (TaskID i) = Some row \<and> P row \<and> i = scan_upload row"
    and pending: "\<And>row. P row \<Longrightarrow> u_status row = StatusPending"
  shows "uploads_aborted alive P s t"
proof -
  have same: "db s2 = db s" "alive (env s2) = alive (env s)" using assms(2) by (simp_all add: idle_def)
  note swept = upload_sweep.sweep_removes [OF run contract]
  have place: "upload_place (TaskBucket (scan_upload row)) (TaskKey (scan_upload row)) (UploadID (scan_upload row)) p \<longleftrightarrow>
      upload_place (u_bucket_name row) (u_object_key row) (u_upload_id row) p" for row p
    by (simp add: scan_upload_def)
  show ?thesis
    unfolding uploads_aborted_def
  proof (intro conjI allI impI ballI)
    fix i
    assume changed: "lookup_upload (db t) i \<noteq> lookup_upload (db s) i"
    then have i: "i \<in> TaskID ` set items" and row': "lookup_upload (db t) i = map_option (aborted_at at) (lookup_upload (db s) i)"
      using sweep_finished [OF run contract] same(1) by (auto simp: finished_by_def)
    from i items obtain row where row: "lookup_upload (db s) i = Some row" "P row" by auto
    have "is_pending (i, row) s2" "\<not> is_pending (i, row) t"
      using row pending [OF row(2)] row' same(1) aborted_not_pending changed by (auto simp: is_pending_def has_row_def)
    from swept(5) [OF this] obtain j where j: "j \<in> set items" "TaskID j = i"
      "\<forall>p. upload_place (TaskBucket j) (TaskKey j) (UploadID j) p \<longrightarrow> \<not> is_alive alive p t" by auto
    then have "j = scan_upload row" using items row(1) by auto
    then show "\<exists>row at. lookup_upload (db s) i = Some row \<and> P row \<and> lookup_upload (db t) i = Some (aborted_at at row) \<and>
        (\<forall>p. upload_place (u_bucket_name row) (u_object_key row) (u_upload_id row) p \<longrightarrow> p \<notin> alive (env t))"
      using row row' j(3) place by (auto simp: is_alive_def)
  next
    show "alive (env t) \<subseteq> alive (env s)" using swept(2) same(2) by (auto simp: is_alive_def)
  next
    fix p
    assume "p \<in> alive (env s) - alive (env t)"
    then obtain j where j: "j \<in> set items" "upload_place (TaskBucket j) (TaskKey j) (UploadID j) p"
      using swept(4) [of p] same(2) by (auto simp: is_alive_def)
    from items j(1) obtain row where "lookup_upload (db s) (TaskID j) = Some row" "P row" "j = scan_upload row" by blast
    then show "\<exists>i row. lookup_upload (db s) i = Some row \<and> P row \<and> upload_place (u_bucket_name row) (u_object_key row) (u_upload_id row) p"
      using j(2) place [of row p] by (intro exI [of _ "TaskID j"] exI [of _ row]) simp
  qed
qed

lemma uploads_aborted_mono:
  "uploads_aborted alive P s t \<Longrightarrow> (\<And>row. P row \<Longrightarrow> Q row) \<Longrightarrow> uploads_aborted alive Q s t"
  unfolding uploads_aborted_def by metis

lemma uploads_aborted_same: "db t = db s \<Longrightarrow> alive (env t) = alive (env s) \<Longrightarrow> uploads_aborted alive P s t"
  by (simp add: uploads_aborted_def)

lemma abort_item_later:
  assumes "time_contract x tm"
  shows "io_rel (later tm) (abort_item x s3 i)"
  unfolding abort_item_def by (auto intro!: later.respects_ret calls_later [OF assms] split: option.split)

lemma multipart_run:
  assumes "abort_contract x alive" and "db_wf (db s)" and "cleanMultipart x j name s = Some (r, t)"
  obtains (still) "db t = db s" "alive (env t) = alive (env s)"
  | (sweep) days now where "policy_of ''multipart_cleanup_enabled'' ''multipart_stale_days'' 7 (db s) = (days, True)" "1 \<le> days"
      "uploads_aborted alive (stale_upload_row days name now) s t"
      "\<And>tm. time_contract x tm \<Longrightarrow> now \<le> tm (env t)"
proof -
  have quiet: "sql_quiet x alive" using assms(1) by (simp add: abort_contract_def)
  from assms(3) [unfolded cleanMultipart_def stale_query MultipartPolicy_def] quiet staleMultipart_idle [OF quiet] show thesis
  proof (cases rule: cleanup_cases)
    case still
    then show ?thesis using that(1) by (simp add: idle_def)
  next
    case (sweep s3 days items s1 s2)
    have wf: "db_wf (db s1)" and same: "db s1 = db s" using assms(2) sweep(3) by (simp_all add: idle_def)
    obtain now where now: "sql x (env s1) = (SqlOk now, env s2)" and items: "\<forall>i \<in> set items.
        \<exists>row. lookup_upload (db s) (TaskID i) = Some row \<and> stale_upload_row days name now row \<and> i = scan_upload row"
      using staleMultipart_items [OF sweep(5) wf] same by auto
    from sweep(6) obtain at s4 where clock: "time_Now x s2 = Some (Inr at, s4)"
      and run: "sweep (abort_item x s3) (\<lambda>item. Uploads_Finish x (TaskID item) StatusAbort at) items s4 = Some (r, t)"
      by (auto simp: bind_apply time_Now_def abort_item_def [abs_def] split: prod.splits)
    have "idle alive s2 s4" using clock assms(1)
      by (auto simp: time_Now_def idle_def abort_contract_def split: prod.splits) (metis snd_conv)+
    then have "idle alive s s4" using idle.R_trans [OF sweep(4)] by blast
    then have "uploads_aborted alive (stale_upload_row days name now) s t"
      by (rule sweep_uploads [OF assms(1) _ run items]) (simp add: stale_upload_row_def)
    moreover have "now \<le> tm (env t)" if time: "time_contract x tm" for tm
    proof (rule now_later [OF now _ time])
      have "io_rel (later tm) (sweep (abort_item x s3) (\<lambda>item. Uploads_Finish x (TaskID item) StatusAbort at) items)"
        unfolding Uploads_Finish_def by (intro sweep_later abort_item_later calls_later time)
      then have "later tm s4 t" using run by (rule io_relD)
      then show "later tm s2 t" by (rule later.R_trans [OF io_relD [OF calls_later(2) [OF time] clock]])
    qed
    ultimately show ?thesis using that(2) [OF sweep(1,2)] by blast
  qed
qed

text \<open>
  C20: The multipart cleanup touches only uploads that are pending and, when the run ends, past their expiry or older
  than the stale limit of the settings, of the bucket asked for if one is. Each of them that it touches ends as
  aborted, its upload no longer in the storage; no other upload is aborted. It does nothing at all
  unless the settings enable it with a limit of at least one day.
\<close>

theorem multipart_aborts_only_stale:
  assumes "abort_contract x alive" and "time_contract x tm" and "db_wf (db s)" and "cleanMultipart x j name s = Some (r, t)"
    and "policy_of ''multipart_cleanup_enabled'' ''multipart_stale_days'' 7 (db s) = (days, enabled)"
  shows "uploads_aborted alive (\<lambda>row. enabled \<and> 1 \<le> days \<and> u_upload_type row = ''multipart'' \<and> u_status row = ''pending'' \<and>
      (name \<noteq> [] \<longrightarrow> u_bucket_name row = name) \<and> (u_expired_at row < tm (env t) \<or> u_created_at row < tm (env t) - days * Day)) s t \<and>
    (enabled \<and> 1 \<le> days \<or> db t = db s \<and> alive (env t) = alive (env s))"
  using assms(1,3,4)
proof (cases rule: multipart_run)
  case still
  then show ?thesis by (simp add: uploads_aborted_same)
next
  case (sweep days' now)
  have on: "days' = days" "enabled" using sweep(1) assms(5) by simp_all
  have "u_upload_type row = ''multipart'' \<and> u_status row = ''pending'' \<and> (name \<noteq> [] \<longrightarrow> u_bucket_name row = name) \<and>
      (u_expired_at row < tm (env t) \<or> u_created_at row < tm (env t) - days * Day)" if "stale_upload_row days' name now row" for row
    using that sweep(4) [OF assms(2)] on(1) by (auto simp: stale_upload_row_def TypeMultipart_def StatusPending_def)
  then have "uploads_aborted alive (\<lambda>row. enabled \<and> 1 \<le> days \<and> u_upload_type row = ''multipart'' \<and> u_status row = ''pending'' \<and>
      (name \<noteq> [] \<longrightarrow> u_bucket_name row = name) \<and> (u_expired_at row < tm (env t) \<or> u_created_at row < tm (env t) - days * Day)) s t"
    by (intro uploads_aborted_mono [OF sweep(3)]) (use sweep(2) on in simp)
  then show ?thesis using sweep(2) on by simp
qed

text \<open>The in-memory service keeps a log of the aborted uploads; two others are alive at first.\<close>

definition mem_alive :: "mem \<Rightarrow> (string \<times> string \<times> string) set" where
  "mem_alive e = {(''media'', ''a'', ''u1''), (''media'', ''b'', ''u2'')} - set (mem_aborted e)"

lemma mem_abort_contract: "abort_contract demo_ext mem_alive"
  by (auto simp: abort_contract_def sql_quiet_def mem_ext_def mem_alive_def)

definition demo_uploads :: "mem sys" where
  "demo_uploads = demo_dirty\<lparr>db := (db demo_dirty)\<lparr>upload_tasks := map (\<lambda>(i, key, u, at).
     \<lparr>u_id = i, u_user_id = 5, u_bucket_name = ''media'', u_object_key = key, u_upload_type = ''multipart'',
      u_upload_id = Some u, u_size = None, u_content_type = None, u_status = ''pending'', u_expired_at = 50 * Day,
      u_created_at = at, u_completed_at = None\<rparr>)
       [(1, ''a'', ''u1'', 0), (2, ''b'', ''u2'', 39 * Day)]\<rparr>\<rparr>"

lemma demo_uploads_wf: "db_wf (db demo_uploads)"
  using demo_dirty_wf by (simp add: demo_uploads_def db_wf_def tab_wf_def)

theorem multipart_aborts_only_stale_witness:
  "\<exists>t. cleanMultipart demo_ext demo_jobs ''media'' demo_uploads = Some (Inr (), t) \<and> mem_now (env t) = 40 * Day \<and>
     map u_status (upload_tasks (db t)) = [''aborted'', ''pending''] \<and>
     uploads_aborted mem_alive (\<lambda>row. u_upload_type row = ''multipart'' \<and> u_status row = ''pending'' \<and> u_bucket_name row = ''media'' \<and>
       (u_expired_at row < 40 * Day \<or> u_created_at row < 33 * Day)) demo_uploads t"
proof -
  have "map_option (\<lambda>(r, t). r = Inr () \<and> mem_now (env t) = 40 * Day \<and> map u_status (upload_tasks (db t)) = [''aborted'', ''pending''])
      (cleanMultipart demo_ext demo_jobs ''media'' demo_uploads) = Some True"
    by code_simp
  then obtain t where run: "cleanMultipart demo_ext demo_jobs ''media'' demo_uploads = Some (Inr (), t)"
    and time: "mem_now (env t) = 40 * Day" and status: "map u_status (upload_tasks (db t)) = [''aborted'', ''pending'']" by auto
  have policy: "policy_of ''multipart_cleanup_enabled'' ''multipart_stale_days'' 7 (db demo_uploads) = (7, True)" by code_simp
  show ?thesis
    using multipart_aborts_only_stale [OF mem_abort_contract mem_time_contract demo_uploads_wf run policy] run time status
    by (simp add: Day_def)
qed

section \<open>Jobs for one bucket\<close>

text \<open>A payload that parses names a bucket, so that the job is never the one for all buckets.\<close>

lemma parseBucketJob_named: "parseBucketJob tk = Inr p \<Longrightarrow> bj_BucketName p \<noteq> []"
  by (auto simp: parseBucketJob_def TrimSpace_def split: option.splits if_splits)

lemma GetByName_found:
  assumes "Buckets_GetByName x name s = Some (Inr (Some b), t)"
  obtains r where "r \<in> set (buckets (db s))" "BucketName r = name" "ID b = ID r" "db t = db s"
proof -
  have "db t = db s" using io_relD [OF buckets_same_db(2) assms] by (simp add: same_db_def)
  moreover obtain r rs where r: "filter (\<lambda>b. BucketName b = name) (buckets (db s)) = r # rs" "b = Bucket.truncate r"
    using assms unfolding Buckets_GetByName_def
    by (auto dest!: sql_query_value simp: first_row_def eq_commute [of "Some b"] split: list.splits)
  moreover have "r \<in> {b \<in> set (buckets (db s)). BucketName b = name}"
    using r(1) by (metis list.set_intros(1) set_filter)
  ultimately show thesis using that [of r] by (auto simp: truncate_fields)
qed

lemma GetByName_idle: "sql_quiet x obs \<Longrightarrow> io_rel (idle obs) (Buckets_GetByName x name)"
  unfolding Buckets_GetByName_def by (intro idle.respects_rules sql_query_idle)

lemma TrashBucket_run:
  assumes "TrashBucket x j tk s = Some (r, t)" and "parseBucketJob tk = Inr p" and quiet: "sql_quiet x obs"
  obtains (failed) "idle obs s t"
  | (given) "1 \<le> bj_BucketID p" "trash x j (bj_BucketID p) s = Some (r, t)"
  | (found) row s1 where "bj_BucketID p < 1" "row \<in> set (buckets (db s))" "BucketName row = bj_BucketName p"
      "idle obs s s1" "trash x j (ID row) s1 = Some (r, t)"
proof (cases "bj_BucketID p < 1")
  case False
  then show ?thesis using assms(1,2) given by (simp add: TrashBucket_def)
next
  case True
  let ?get = "Buckets_GetByName x (bj_BucketName p)"
  obtain q s1 where q: "?get s = Some (q, s1)" using total_buckets(2) by (metis not_None_eq surj_pair total_def)
  note s1 = io_relD [OF GetByName_idle [OF quiet] q]
  show ?thesis
  proof (cases "\<exists>b. q = Inr (Some b)")
    case True
    then obtain b where b: "q = Inr (Some b)" by blast
    from GetByName_found [OF q [unfolded b]] obtain row where row: "row \<in> set (buckets (db s))"
      "BucketName row = bj_BucketName p" "ID b = ID row" by metis
    have "trash x j (ID row) s1 = Some (r, t)"
      using assms(1,2) \<open>bj_BucketID p < 1\<close> q b row(3) by (simp add: TrashBucket_def bind_apply ret_apply)
    then show ?thesis using found [OF \<open>bj_BucketID p < 1\<close> row(1,2) s1] by simp
  next
    case False
    then have "t = s1" using assms(1,2) \<open>bj_BucketID p < 1\<close> q
      by (cases q) (auto simp: TrashBucket_def bind_apply throw_apply split: option.splits)
    then show ?thesis using failed s1 by simp
  qed
qed

text \<open>
  C21: A cleanup task for one bucket stays in that bucket: whatever its payload, if it is
  accepted, a trash task removes rows only of the bucket whose id it carries, or, without a
  usable id, of the bucket whose name it carries, and a version or upload task
  touches only versions and uploads under the name it carries. Ids of buckets are positive.
\<close>

theorem bucket_jobs_confined:
  assumes "\<And>cfg. s3_contract x cfg decode view" and "abort_contract x alive" and "db_wf (db s)"
    and "\<And>b. b \<in> set (buckets (db s)) \<Longrightarrow> 0 < ID b" and "parseBucketJob tk = Inr p"
  shows "(TrashBucket x j tk s = Some (r, t) \<and> lookup_object (db s) k = Some row \<and> lookup_object (db t) k = None \<longrightarrow>
      (if 1 \<le> bj_BucketID p then o_bucket_id row = bj_BucketID p
       else \<exists>b \<in> set (buckets (db s)). BucketName b = bj_BucketName p \<and> ID b = o_bucket_id row)) \<and>
    (VersionsBucket x j tk s = Some (r, t) \<and> lookup_version (db s) i = Some v \<and> lookup_version (db t) i = None \<longrightarrow>
      v_bucket_name v = bj_BucketName p) \<and>
    (MultipartBucket x j tk s = Some (r, t) \<and> lookup_upload (db s) i = Some u \<and> lookup_upload (db t) i \<noteq> Some u \<longrightarrow>
      u_bucket_name u = bj_BucketName p)"
proof (intro conjI impI; (elim conjE)?)
  have quiet: "sql_quiet x view" using assms(1) by (rule s3_contract_quiet)
  have bucket: "o_bucket_id row = bid" if job: "trash x j bid s1 = Some (r, t)" "db s1 = db s" "0 < bid"
    "lookup_object (db s) k = Some row" "lookup_object (db t) k = None" for bid s1
  proof -
    have wf: "db_wf (db s1)" using assms(3) job(2) by simp
    from assms(1) wf job(1) show ?thesis
    proof (cases rule: trash_run)
      case still
      then show ?thesis using job by simp
    next
      case (sweep days now)
      from removedD [OF sweep(3), of k row] show ?thesis using job by (simp add: expired_trash_row_def)
    qed
  qed
  assume "TrashBucket x j tk s = Some (r, t)" and row: "lookup_object (db s) k = Some row" "lookup_object (db t) k = None"
  from this(1) assms(5) quiet show "if 1 \<le> bj_BucketID p then o_bucket_id row = bj_BucketID p
       else \<exists>b \<in> set (buckets (db s)). BucketName b = bj_BucketName p \<and> ID b = o_bucket_id row"
  proof (cases rule: TrashBucket_run)
    case failed
    then show ?thesis using row by (simp add: idle_def)
  next
    case given
    then show ?thesis using bucket [of "bj_BucketID p" s] row by simp
  next
    case (found b s1)
    then show ?thesis using bucket [of "ID b" s1] row assms(4) [of b] by (auto simp: idle_def intro!: bexI [of _ b])
  qed
next
  note named = parseBucketJob_named [OF assms(5)]
  assume "VersionsBucket x j tk s = Some (r, t)" and v: "lookup_version (db s) i = Some v" "lookup_version (db t) i = None"
  then have run: "cleanVersions x j (bj_BucketName p) s = Some (r, t)" using assms(5) by (simp add: VersionsBucket_def)
  from assms(1,3) run show "v_bucket_name v = bj_BucketName p"
  proof (cases rule: versions_run)
    case still
    then show ?thesis using v by simp
  next
    case (sweep days now)
    from removedD [OF sweep(3) v] show ?thesis using named by (simp add: expired_version_row_def)
  qed
next
  note named = parseBucketJob_named [OF assms(5)]
  assume "MultipartBucket x j tk s = Some (r, t)" and u: "lookup_upload (db s) i = Some u" "lookup_upload (db t) i \<noteq> Some u"
  then have run: "cleanMultipart x j (bj_BucketName p) s = Some (r, t)" using assms(5) by (simp add: MultipartBucket_def)
  from assms(2,3) run show "u_bucket_name u = bj_BucketName p"
  proof (cases rule: multipart_run)
    case still
    then show ?thesis using u by simp
  next
    case (sweep days now)
    then have "\<exists>row. lookup_upload (db s) i = Some row \<and> stale_upload_row days (bj_BucketName p) now row"
      unfolding uploads_aborted_def using u by metis
    then show ?thesis using named u(1) by (auto simp: stale_upload_row_def)
  qed
qed

definition demo_task_for :: "string \<Rightarrow> int \<Rightarrow> task" where
  "demo_task_for ty bid = \<lparr>task_type = ty, task_payload = Some (Marshal_BucketJob \<lparr>bj_BucketID = bid, bj_BucketName = ''media''\<rparr>)\<rparr>"

theorem bucket_jobs_confined_witness:
  "\<exists>t row. TrashBucket demo_ext demo_jobs (demo_task_for TaskTrashBucket 1) demo_dirty = Some (Inr (), t) \<and>
     lookup_object (db demo_dirty) (1, ''.trash/old'') = Some row \<and> lookup_object (db t) (1, ''.trash/old'') = None \<and> o_bucket_id row = 1"
proof -
  let ?run = "TrashBucket demo_ext demo_jobs (demo_task_for TaskTrashBucket 1) demo_dirty"
  have "map_option (\<lambda>(r, t). r = Inr () \<and> lookup_object (db t) (1, ''.trash/old'') = None) ?run = Some True" by code_simp
  then obtain t where run: "?run = Some (Inr (), t)" and gone: "lookup_object (db t) (1, ''.trash/old'') = None" by auto
  have "lookup_object (db demo_dirty) (1, ''.trash/old'') \<noteq> None" by code_simp
  then obtain row where row: "lookup_object (db demo_dirty) (1, ''.trash/old'') = Some row" by auto
  have parse: "parseBucketJob (demo_task_for TaskTrashBucket 1) = Inr \<lparr>bj_BucketID = 1, bj_BucketName = ''media''\<rparr>" by code_simp
  have "\<And>b. b \<in> set (buckets (db demo_dirty)) \<Longrightarrow> 0 < ID b"
    by (simp add: demo_dirty_def demo_sys_def demo_db_def demo_bucket_def Bucket.defs)
  from bucket_jobs_confined [OF mem_s3_contract mem_abort_contract demo_dirty_wf this parse,
    of demo_jobs "Inr ()" t "(1, ''.trash/old'')" row] show ?thesis
    using run gone row by auto
qed

end
