(* ===== verification/WorkerBatch.thy ===== *)
theory WorkerBatch
  imports WorkerRetention
begin

text \<open>
  \<^verbatim>\<open>internal/worker/batch.go\<close>: the batch tasks that the API enqueues. Each works through its
  keys or items, goes on after a failure, and records what happened in the audit log.
\<close>

section \<open>The handlers\<close>

definition jobs_audit :: "'e ext \<Rightarrow> Jobs \<Rightarrow> int \<Rightarrow> int \<Rightarrow> string \<Rightarrow> string \<Rightarrow> string \<Rightarrow> string \<Rightarrow> string \<Rightarrow> string \<Rightarrow> string \<Rightarrow> ('e, unit) io" where
  "jobs_audit x j userID accountID bucket key action status errMsg ip ua =
     (if \<not> has_Log j then ret () else RecordMeta x True userID accountID bucket key action status errMsg ip ua)"

text \<open>One turn of the loops of \<^verbatim>\<open>BatchDelete\<close>: a key that could not be expanded, and one that could.\<close>

definition report_failed :: "'e ext \<Rightarrow> Jobs \<Rightarrow> BatchDelete \<Rightarrow> opFailure \<Rightarrow> ('e, unit) io" where
  "report_failed x j p f = jobs_audit x j (bd_UserID p) (bd_AccountID p) (bd_BucketName p) (op_Key f) ''delete'' ''failure''
     (op_Error f) (bd_SourceIP p) (bd_UserAgent p)"

definition delete_one :: "'e ext \<Rightarrow> Jobs \<Rightarrow> Client \<Rightarrow> Bucket \<Rightarrow> BatchDelete \<Rightarrow> time \<Rightarrow> string \<Rightarrow> ('e, unit) io" where
  "delete_one x j s3 b p now key =
     attempt (ApplyDelete x s3 b (bd_UserID p) key (bd_Permanent p) now) (\<lambda>r. case r of
       Inl err \<Rightarrow> jobs_audit x j (bd_UserID p) (bd_AccountID p) (bd_BucketName p) key ''delete'' ''failure'' (CopyErr (Some err))
         (bd_SourceIP p) (bd_UserAgent p)
     | Inr _ \<Rightarrow> jobs_audit x j (bd_UserID p) (bd_AccountID p) (bd_BucketName p) key ''delete'' ''success'' []
         (bd_SourceIP p) (bd_UserAgent p))"

definition parse_delete :: "task \<Rightarrow> go_error + BatchDelete" where
  "parse_delete t = (case Unmarshal_BatchDelete (task_payload t) of
     None \<Rightarrow> Inl (ErrNew ''invalid batch delete payload'')
   | Some p \<Rightarrow> if TrimSpace (bd_BucketName p) = [] \<or> bd_Keys p = [] then Inl (ErrNew ''invalid batch delete payload'') else Inr p)"

definition Jobs_BatchDelete :: "'e ext \<Rightarrow> Jobs \<Rightarrow> task \<Rightarrow> ('e, unit) io" where
  "Jobs_BatchDelete x j t = with_client x j (\<lambda>s3.
     case parse_delete t of
       Inl err \<Rightarrow> throw err
     | Inr p \<Rightarrow> bind (Buckets_GetVisible x (bd_AccountID p) (bd_BucketName p)) (\<lambda>found. case found of
         None \<Rightarrow> throw (ErrNew (''bucket '' @ bd_BucketName p @ '' not found''))
       | Some b \<Rightarrow> bind (ExpandDeleteKeys x s3 b (bd_Keys p)) (\<lambda>(resolved, failed).
           bind (time_Now x) (\<lambda>now.
           bind (for_each (report_failed x j p) failed) (\<lambda>_.
           for_each (delete_one x j s3 b p now) resolved)))))"

definition parse_items :: "string \<Rightarrow> task \<Rightarrow> go_error + BatchItems" where
  "parse_items msg t = (case Unmarshal_BatchItems (task_payload t) of
     None \<Rightarrow> Inl (ErrNew msg)
   | Some p \<Rightarrow> if TrimSpace (bi_BucketName p) = [] \<or> bi_Items p = [] then Inl (ErrNew msg) else Inr p)"

definition audit_item :: "'e ext \<Rightarrow> Jobs \<Rightarrow> BatchItems \<Rightarrow> string \<Rightarrow> string \<Rightarrow> string \<Rightarrow> string \<Rightarrow> string \<Rightarrow> ('e, unit) io" where
  "audit_item x j p bucket key action status errMsg =
     jobs_audit x j (bi_UserID p) (bi_AccountID p) bucket key action status errMsg (bi_SourceIP p) (bi_UserAgent p)"

definition dest_name :: "Bucket \<Rightarrow> CopyItem \<Rightarrow> string" where
  "dest_name src it = (case DestBucketName it of
     None \<Rightarrow> BucketName src
   | Some n \<Rightarrow> if TrimSpace n \<noteq> [] then TrimSpace n else BucketName src)"

definition copy_one :: "'e ext \<Rightarrow> Jobs \<Rightarrow> Client \<Rightarrow> Bucket \<Rightarrow> BatchItems \<Rightarrow> time \<Rightarrow> CopyItem \<Rightarrow> ('e, unit) io" where
  "copy_one x j s3 src p now it =
     (let destName = dest_name src it in
      bind (Buckets_GetVisible x (bi_AccountID p) destName) (\<lambda>found. case found of
        None \<Rightarrow> audit_item x j p destName (SourceKey it) ''copy'' ''failure'' ''Bucket not found''
      | Some dest \<Rightarrow>
          attempt (ApplyCopy x s3 src dest (bi_UserID p) (SourceKey it) (DestKey it) now) (\<lambda>r. case r of
            Inl err \<Rightarrow> audit_item x j p (BucketName dest) (DestKey it) ''copy'' ''failure'' (CopyErr (Some err))
          | Inr _ \<Rightarrow> audit_item x j p (BucketName dest) (DestKey it) ''copy'' ''success'' [])))"

definition Jobs_BatchCopy :: "'e ext \<Rightarrow> Jobs \<Rightarrow> task \<Rightarrow> ('e, unit) io" where
  "Jobs_BatchCopy x j t = with_client x j (\<lambda>s3.
     case parse_items ''invalid batch copy payload'' t of
       Inl err \<Rightarrow> throw err
     | Inr p \<Rightarrow> bind (Buckets_GetVisible x (bi_AccountID p) (bi_BucketName p)) (\<lambda>found. case found of
         None \<Rightarrow> throw (ErrNew (''bucket '' @ bi_BucketName p @ '' not found''))
       | Some src \<Rightarrow> bind (time_Now x) (\<lambda>now. for_each (copy_one x j s3 src p now) (bi_Items p))))"

definition move_one :: "'e ext \<Rightarrow> Jobs \<Rightarrow> Client \<Rightarrow> Bucket \<Rightarrow> BatchItems \<Rightarrow> time \<Rightarrow> CopyItem \<Rightarrow> ('e, unit) io" where
  "move_one x j s3 b p now it =
     attempt (ApplyMove x s3 b (bi_UserID p) (SourceKey it) (DestKey it) now) (\<lambda>r. case r of
       Inl err \<Rightarrow> audit_item x j p (bi_BucketName p) (SourceKey it) ''move'' ''failure'' (CopyErr (Some err))
     | Inr _ \<Rightarrow> audit_item x j p (bi_BucketName p) (DestKey it) ''move'' ''success'' [])"

definition Jobs_BatchMove :: "'e ext \<Rightarrow> Jobs \<Rightarrow> task \<Rightarrow> ('e, unit) io" where
  "Jobs_BatchMove x j t = with_client x j (\<lambda>s3.
     case parse_items ''invalid batch move payload'' t of
       Inl err \<Rightarrow> throw err
     | Inr p \<Rightarrow> bind (Buckets_GetVisible x (bi_AccountID p) (bi_BucketName p)) (\<lambda>found. case found of
         None \<Rightarrow> throw (ErrNew (''bucket '' @ bi_BucketName p @ '' not found''))
       | Some b \<Rightarrow> bind (time_Now x) (\<lambda>now. for_each (move_one x j s3 b p now) (bi_Items p))))"

section \<open>Auditing changes nothing but the log\<close>

text \<open>What a property of the objects and their rows sees of a state.\<close>

definition same_objects :: "('e \<Rightarrow> 'o view) \<Rightarrow> 'e sys \<Rightarrow> 'e sys \<Rightarrow> bool" where
  "same_objects view s t \<longleftrightarrow> view (env t) = view (env s) \<and> (db t)\<lparr>audit_logs := []\<rparr> = (db s)\<lparr>audit_logs := []\<rparr>"

interpretation sameobjects: io_preorder "same_objects view" for view :: "'e \<Rightarrow> 'o view"
  by unfold_locales (simp_all add: same_objects_def)

lemma idle_same_objects: "idle view s t \<Longrightarrow> same_objects view s t"
  by (simp add: idle_def same_objects_def)

lemma same_objects_fields:
  assumes "same_objects view s t"
  shows "view (env t) = view (env s)" "lookup_object (db t) = lookup_object (db s)" "buckets (db t) = buckets (db s)"
    "account_bucket_grants (db t) = account_bucket_grants (db s)" "db_wf (db t) = db_wf (db s)"
proof -
  have eq: "(db t)\<lparr>audit_logs := []\<rparr> = (db s)\<lparr>audit_logs := []\<rparr>" using assms by (simp add: same_objects_def)
  have "lookup_object (d\<lparr>audit_logs := []\<rparr>) = lookup_object d" "db_wf (d\<lparr>audit_logs := []\<rparr>) = db_wf d" for d
    by (simp_all add: lookup_object_def find_object_def fun_eq_iff db_wf_def)
  then show "lookup_object (db t) = lookup_object (db s)" "db_wf (db t) = db_wf (db s)"
    using arg_cong [OF eq, of lookup_object] arg_cong [OF eq, of db_wf] by metis+
  show "buckets (db t) = buckets (db s)" "account_bucket_grants (db t) = account_bucket_grants (db s)"
    using arg_cong [OF eq, of buckets] arg_cong [OF eq, of account_bucket_grants] by simp_all
  show "view (env t) = view (env s)" using assms by (simp add: same_objects_def)
qed

lemma insert_audit_objects:
  assumes "sql_quiet x view"
  shows "io_rel (same_objects view) (sql_exec x (sql_insert_audit df u a b k ac st msg ip ua))"
proof (rule io_relI)
  fix s r t
  assume run: "sql_exec x (sql_insert_audit df u a b k ac st msg ip ua) s = Some (r, t)"
  have "view (snd (sql x (env s))) = view (env s)" using assms by (simp add: sql_quiet_def)
  then show "same_objects view s t"
    using run by (auto simp: sql_exec_def sql_stmt_def same_objects_def sql_insert_audit_def split: prod.splits sql_reply.splits)
qed

lemma jobs_audit_objects: "sql_quiet x view \<Longrightarrow> io_rel (same_objects view) (jobs_audit x j u a b k ac st msg ip ua)"
  unfolding jobs_audit_def RecordMeta_def audit_write_def Let_def
  by (intro sameobjects.respects_if sameobjects.respects_rules insert_audit_objects)

lemma jobs_audit_ok: "\<exists>t. jobs_audit x j u a b k ac st msg ip ua s = Some (Inr (), t)"
  using RecordMeta_result [of x True u a b k ac st msg ip ua s] by (auto simp: jobs_audit_def ret_apply)

lemma jobs_audit_same:
  assumes "sql_quiet x view" and "jobs_audit x j u a b k ac st msg ip ua s = Some (r, t)"
  shows "r = Inr () \<and> same_objects view s t"
  using jobs_audit_ok [of x j u a b k ac st msg ip ua s] io_relD [OF jobs_audit_objects [OF assms(1)] assms(2)] assms(2) by auto

section \<open>Batch delete\<close>

text \<open>
  \<open>deleted_keys view b K permanent s t\<close>: only keys of \<open>K\<close> in bucket \<open>b\<close> have changed, in the
  storage and in the records, and their trash keys unless the deletion is permanent; and then
  every object outside the trash is still there, under its key or its trash key.
\<close>

definition deleted_keys :: "('e \<Rightarrow> 'o view) \<Rightarrow> Bucket \<Rightarrow> string set \<Rightarrow> bool \<Rightarrow> 'e sys \<Rightarrow> 'e sys \<Rightarrow> bool" where
  "deleted_keys view b K permanent s t \<longleftrightarrow>
    (\<forall>B k. view (env t) B k \<noteq> view (env s) B k \<longrightarrow> B = BucketName b \<and> (k \<in> K \<or> \<not> permanent \<and> k \<in> ToTrashKey ` K)) \<and>
    (\<forall>i. lookup_object (db t) i \<noteq> lookup_object (db s) i \<longrightarrow> fst i = ID b \<and> (snd i \<in> K \<or> \<not> permanent \<and> snd i \<in> ToTrashKey ` K)) \<and>
    (\<not> permanent \<longrightarrow> (\<forall>k v. FromTrashKey k = None \<longrightarrow> view (env s) (BucketName b) k = Some v \<longrightarrow>
       view (env t) (BucketName b) k = Some v \<or> view (env t) (BucketName b) (ToTrashKey k) = Some v))"

lemma report_all:
  assumes "sql_quiet x view" and "for_each (report_failed x j p) failed s = Some (r, t)"
  shows "r = Inr () \<and> same_objects view s t"
proof
  have "io_rel (same_objects view) (for_each (report_failed x j p) failed)"
    by (intro sameobjects.respects_for_each) (simp add: report_failed_def jobs_audit_objects [OF assms(1)])
  then show "same_objects view s t" using assms(2) by (rule io_relD)
  show "r = Inr ()"
    using assms(2)
  proof (induction failed arbitrary: s)
    case (Cons f failed)
    obtain u where "report_failed x j p f s = Some (Inr (), u)" using jobs_audit_ok by (fastforce simp: report_failed_def)
    then show ?case using Cons by (simp add: bind_apply)
  qed (simp add: ret_apply)
qed

lemma report_then:
  assumes "sql_quiet x view" and "bind (for_each (report_failed x j p) F) (\<lambda>_. m) s = Some (r, s')"
  obtains s6 where "same_objects view s s6" and "for_each (report_failed x j p) F s = Some (Inr (), s6)" and "m s6 = Some (r, s')"
  using assms(2)
proof (cases rule: bind_E)
  case (stop err)
  then show ?thesis using report_all [OF assms(1) stop(1)] by simp
next
  case (go u t)
  then show ?thesis using report_all [OF assms(1) go(1)] that by simp
qed

lemma deleted_keys_same: "same_objects view s t \<Longrightarrow> deleted_keys view b K permanent s t"
  using same_objects_fields [of view s t] by (simp add: deleted_keys_def)

lemma deleted_keys_then_same:
  "deleted_keys view b K permanent s t \<Longrightarrow> same_objects view t u \<Longrightarrow> deleted_keys view b K permanent s u"
  using same_objects_fields [of view t u] by (simp add: deleted_keys_def)

lemma valid_not_trash: "ValidUserKey k \<Longrightarrow> k \<noteq> ToTrashKey k'"
  using ToTrashKey_invalid by blast

lemma same_then_deleted_keys:
  "same_objects view s u \<Longrightarrow> deleted_keys view b K permanent u t \<Longrightarrow> deleted_keys view b K permanent s t"
  using same_objects_fields [of view s u] by (simp add: deleted_keys_def)

lemma live_not_trash: "FromTrashKey k = None \<Longrightarrow> ValidUserKey k' \<Longrightarrow> k \<noteq> ToTrashKey k'"
  by (auto simp: ValidUserKey_def FromTrashKey_ToTrashKey split: if_splits)

lemma deleted_keys_step:
  assumes one: "deleted_keys view b {key} permanent s t" and rest: "deleted_keys view b K permanent t u"
    and key: "key \<notin> K" and valid: "\<And>k. k \<in> insert key K \<Longrightarrow> ValidUserKey k"
  shows "deleted_keys view b (insert key K) permanent s u"
proof -
  have kept: "view (env u) (BucketName b) k = Some v \<or> view (env u) (BucketName b) (ToTrashKey k) = Some v"
    if soft: "\<not> permanent" and live: "FromTrashKey k = None" and was: "view (env s) (BucketName b) k = Some v" for k v
  proof (cases "view (env t) (BucketName b) k = Some v")
    case True
    then show ?thesis using rest soft live by (simp add: deleted_keys_def)
  next
    case False
    then have trashed: "view (env t) (BucketName b) (ToTrashKey k) = Some v"
      using one soft live was False unfolding deleted_keys_def by blast
    have "k \<noteq> ToTrashKey key" using live_not_trash [OF live] valid by blast
    moreover have "view (env t) (BucketName b) k \<noteq> view (env s) (BucketName b) k" using False was by simp
    then have "k \<in> {key} \<or> k \<in> ToTrashKey ` {key}" using one unfolding deleted_keys_def by blast
    ultimately have "k = key" by auto
    moreover have "ToTrashKey k \<notin> K" using valid valid_not_trash by (metis insertCI)
    ultimately have "\<not> (ToTrashKey k \<in> K \<or> ToTrashKey k \<in> ToTrashKey ` K)" using key by auto
    then have "view (env u) (BucketName b) (ToTrashKey k) = view (env t) (BucketName b) (ToTrashKey k)"
      using rest unfolding deleted_keys_def by metis
    then show ?thesis using trashed by simp
  qed
  have "B = BucketName b \<and> (k \<in> insert key K \<or> \<not> permanent \<and> k \<in> ToTrashKey ` insert key K)"
    if "view (env u) B k \<noteq> view (env s) B k" for B k
    using one rest that unfolding deleted_keys_def by (metis image_insert insertCI singletonD image_empty insertE)
  moreover have "fst i = ID b \<and> (snd i \<in> insert key K \<or> \<not> permanent \<and> snd i \<in> ToTrashKey ` insert key K)"
    if "lookup_object (db u) i \<noteq> lookup_object (db s) i" for i
    using one rest that unfolding deleted_keys_def by (metis image_insert insertCI singletonD image_empty insertE)
  ultimately show ?thesis using kept unfolding deleted_keys_def by blast
qed

lemma ApplyDelete_permanent_stages:
  assumes con: "s3_contract x (c_s3 c) decode view" and run: "ApplyDelete x c b uid key True now s = Some (r, t)"
  shows "(view (env t) = view (env s) \<or> view (env t) = view_set (view (env s)) (BucketName b) key None) \<and>
    (db t = db s \<or> db t = delete_key (ID b, key) (db s) \<and> view (env t) (BucketName b) key = None)"
  using run unfolding ApplyDelete_def
proof (cases rule: bind_E)
  case (stop err)
  then show ?thesis using HeadObject_view [OF con stop(1)] by simp
next
  case (go meta t1)
  note t1 = HeadObject_view [OF con go(1)]
  have "bind (DeleteObject x c (BucketName b) key) (\<lambda>_. Objects_Delete x (ID b) key) t1 = Some (r, t)" using go(2) by simp
  then show ?thesis
  proof (cases rule: bind_E)
    case (stop err)
    then show ?thesis using DeleteObject_view [OF con stop(1)] t1 by auto
  next
    case (go u t2)
    have "view (env t2) = view_set (view (env s)) (BucketName b) key None" "db t2 = db s"
      using DeleteObject_view [OF con go(1)] t1 by auto
    moreover have "view (env t) = view (env t2)"
      using io_relD [OF trash_sweep.forget_view [OF con, of "\<lparr>t_BucketID = ID b, t_BucketName = [], t_Key = key\<rparr>"]] go(2)
      by (simp add: same_view_def)
    moreover have "db t = db t2 \<or> db t = delete_key (ID b, key) (db t2)" using Objects_Delete_result [OF go(2)] by blast
    ultimately show ?thesis by (auto simp: view_set_def)
  qed
qed

lemma ApplyDelete_keys:
  assumes con: "s3_contract x (c_s3 c) decode view" and plain: "plain_source decode (BucketName b) key"
    and run: "ApplyDelete x c b uid key permanent now s = Some (r, t)" and wf: "db_wf (db s)" and valid: "ValidUserKey key"
  shows "deleted_keys view b {key} permanent s t \<and> db_wf (db t)"
proof (cases permanent)
  case True
  then show ?thesis
    using ApplyDelete_permanent_stages [OF con, of b uid key now s r t] run wf
    by (auto simp: deleted_keys_def view_set_def lookup_delete_key db_wf_delete_key split: if_splits)
next
  case False
  then have "relocation_outcome (ID b) (BucketName b) key (ToTrashKey key) uid now (view (env s)) (db s) r (view (env t)) (db t)"
    using ApplyDelete_soft_stages [OF con plain] run by simp
  note rel = this and facts = relocation_keeps_content [OF this]
  have "db t = db s \<or> (\<exists>sz etag ct. db t = move_effect (ID b) (BucketName b) key (ToTrashKey key) sz etag ct uid now (db s))"
    using rel by (auto simp: relocation_outcome_def)
  then have rows: "i \<noteq> (ID b, key) \<Longrightarrow> i \<noteq> (ID b, ToTrashKey key) \<Longrightarrow> lookup_object (db t) i = lookup_object (db s) i"
    and "db_wf (db t)" for i
    using lookup_moved(3) [OF wf] db_wf_move_effect wf by metis+
  moreover have "fst i = ID b \<and> (snd i \<in> {key} \<or> \<not> permanent \<and> snd i \<in> ToTrashKey ` {key})"
    if "lookup_object (db t) i \<noteq> lookup_object (db s) i" for i
    using rows [of i] that False by (cases i) auto
  moreover have "B = BucketName b \<and> (k \<in> {key} \<or> \<not> permanent \<and> k \<in> ToTrashKey ` {key})"
    if "view (env t) B k \<noteq> view (env s) B k" for B k
    using facts(2) [of B k] that False by auto
  moreover have "view (env t) (BucketName b) k = Some v \<or> view (env t) (BucketName b) (ToTrashKey k) = Some v"
    if "FromTrashKey k = None" "view (env s) (BucketName b) k = Some v" for k v
  proof (cases "k = key")
    case True
    then show ?thesis using facts(1) [of v] that(2) by simp
  next
    case False
    have "k \<noteq> ToTrashKey key" using live_not_trash [OF that(1) valid] .
    then show ?thesis using facts(2) [of "BucketName b" k] False that(2) by auto
  qed
  ultimately show ?thesis unfolding deleted_keys_def by blast
qed

lemma delete_one_keys:
  assumes con: "s3_contract x (c_s3 s3) decode view" and plain: "plain_source decode (BucketName b) key"
    and run: "delete_one x j s3 b p now key s = Some (r, t)" and wf: "db_wf (db s)" and valid: "ValidUserKey key"
  shows "r = Inr () \<and> deleted_keys view b {key} (bd_Permanent p) s t \<and> db_wf (db t)"
proof -
  from run obtain q u where deletion: "ApplyDelete x s3 b (bd_UserID p) key (bd_Permanent p) now s = Some (q, u)"
    and audit: "(case q of Inl err \<Rightarrow> jobs_audit x j (bd_UserID p) (bd_AccountID p) (bd_BucketName p) key ''delete'' ''failure'' (CopyErr (Some err))
         (bd_SourceIP p) (bd_UserAgent p)
       | Inr _ \<Rightarrow> jobs_audit x j (bd_UserID p) (bd_AccountID p) (bd_BucketName p) key ''delete'' ''success'' []
         (bd_SourceIP p) (bd_UserAgent p)) u = Some (r, t)"
    unfolding delete_one_def by (rule attempt_E)
  note applied = ApplyDelete_keys [OF con plain deletion wf valid]
  have "r = Inr () \<and> same_objects view u t"
    using audit jobs_audit_same [OF s3_contract_quiet [OF con]] by (simp split: sum.splits)
  then show ?thesis using applied deleted_keys_then_same same_objects_fields(5) by blast
qed

lemma delete_all_keys:
  assumes con: "s3_contract x (c_s3 s3) decode view"
  shows "for_each (delete_one x j s3 b p now) keys s = Some (r, t) \<Longrightarrow> db_wf (db s) \<Longrightarrow> distinct keys \<Longrightarrow>
    \<forall>k \<in> set keys. ValidUserKey k \<and> plain_source decode (BucketName b) k \<Longrightarrow>
    r = Inr () \<and> deleted_keys view b (set keys) (bd_Permanent p) s t"
proof (induction keys arbitrary: s)
  case Nil
  then show ?case by (simp add: ret_apply deleted_keys_same sameobjects.R_refl)
next
  case (Cons key keys)
  then have "bind (delete_one x j s3 b p now key) (\<lambda>_. for_each (delete_one x j s3 b p now) keys) s = Some (r, t)" by simp
  then show ?case
  proof (cases rule: bind_E)
    case (stop err)
    then show ?thesis using delete_one_keys [OF con _ stop(1)] Cons.prems by simp
  next
    case (go u s1)
    have one: "deleted_keys view b {key} (bd_Permanent p) s s1" "db_wf (db s1)"
      using delete_one_keys [OF con _ go(1)] Cons.prems by simp_all
    have rest: "r = Inr () \<and> deleted_keys view b (set keys) (bd_Permanent p) s1 t"
      using Cons.IH [OF go(2) one(2)] Cons.prems by simp
    have "deleted_keys view b (insert key (set keys)) (bd_Permanent p) s t"
      by (rule deleted_keys_step [OF one(1)]) (use rest Cons.prems in auto)
    then show ?thesis using rest by simp
  qed
qed

lemma GetVisible_idle: "sql_quiet x obs \<Longrightarrow> io_rel (idle obs) (Buckets_GetVisible x u name)"
  unfolding Buckets_GetVisible_def by (intro idle.respects_rules sql_query_idle)

lemma time_Now_idle: "quiet_contract x cfg view \<Longrightarrow> io_rel (idle view) (time_Now x)"
  by (auto simp: io_rel_def time_Now_def idle_def quiet_contract_def split: prod.splits) (metis snd_conv)+

lemma time_Now_ok: "\<exists>now t. time_Now x s = Some (Inr now, t)"
  by (auto simp: time_Now_def split: prod.split)

lemma ListPrefixFlat_idle: "quiet_contract x (c_s3 c) view \<Longrightarrow> io_rel (idle view) (ListPrefixFlat x c bucket pfx token n)"
  by (auto simp: io_rel_def quiet_contract_def ListPrefixFlat_def list_page_def attempt_def bind_def ext_call_def ret_apply throw_apply idle_def Let_def
      split: option.splits sum.splits prod.splits) (metis snd_conv)+

lemma listPrefixKeys_idle:
  assumes "quiet_contract x (c_s3 c) view"
  shows "io_rel (idle view) (listPrefixKeys x c bucket pfx)"
proof -
  have step: "quiet_contract x (c_s3 c) view \<longrightarrow> idle view s (snd y)"
    if hyp: "\<And>x c bucket pfx keys token s y. loop x c bucket pfx keys token s = Some y \<Longrightarrow> quiet_contract x (c_s3 c) view \<longrightarrow> idle view s (snd y)"
      and run: "Option.bind (ListPrefixFlat x c bucket pfx token 1000 s) (\<lambda>(r, s').
        case r of Inl err \<Rightarrow> Some (Inl err, s')
        | Inr page \<Rightarrow> let keys' = keys @ filter (\<lambda>k. k \<noteq> []) (map l_Key (Objects page)) in
            if \<not> Truncated page \<or> Token page = [] then Some (Inr keys', s')
            else loop x c bucket pfx keys' (Token page) s') = Some y"
    for loop and x :: "'a ext" and c bucket pfx keys token s and y :: "(go_error + string list) \<times> 'a sys"
  proof
    assume quiet: "quiet_contract x (c_s3 c) view"
    from run obtain r s1 where page: "ListPrefixFlat x c bucket pfx token 1000 s = Some (r, s1)"
      by (auto simp: bind_eq_Some_conv)
    have one: "idle view s s1" by (rule io_relD [OF ListPrefixFlat_idle [OF quiet] page])
    have rest: "loop x c bucket pfx keys' token' s1 = Some y \<Longrightarrow> idle view s (snd y)" for keys' token'
      using hyp [THEN mp, OF _ quiet] one idle.R_trans by blast
    show "idle view s (snd y)"
      using run page one by (auto simp: Let_def split: sum.splits if_splits dest: rest)
  qed
  have "quiet_contract x (c_s3 c) view \<longrightarrow> idle view s (snd y)"
    if "listPrefixKeys_loop x c bucket pfx keys token s = Some y" for keys token s y
    apply (rule listPrefixKeys_loop.raw_induct [where P = "\<lambda>x c bucket pfx keys token s y. quiet_contract x (c_s3 c) view \<longrightarrow> idle view s (snd y)"
        and xa = "((((((x, c), bucket), pfx), keys), token), s)" and y = y, unfolded split_conv])
    subgoal premises prems for loop by (rule step [of loop, OF prems])
    by (rule that)
  then show ?thesis using assms by (force simp: io_rel_def listPrefixKeys_def)
qed

lemma ExpandDeleteKeys_idle:
  assumes "quiet_contract x (c_s3 c) view"
  shows "io_rel (idle view) (ExpandDeleteKeys x c b keys)"
proof -
  have "io_rel (idle view) (ExpandDeleteKeys_loop x c b keys seen resolved failed)" for seen resolved failed
  proof (induction keys arbitrary: seen resolved failed)
    case Nil
    then show ?case by (simp add: idle.respects_ret)
  next
    case (Cons key keys)
    then show ?case
      by (auto intro!: idle.respects_attempt listPrefixKeys_idle [OF assms] split: sum.split prod.split)
  qed
  then show ?thesis by (simp add: ExpandDeleteKeys_def)
qed

text \<open>The account of a payload may see the bucket.\<close>

definition visible_to :: "int \<Rightarrow> tenant_db \<Rightarrow> Bucket \<Rightarrow> bool" where
  "visible_to u d b \<longleftrightarrow> Status b = ''active'' \<and> (u, ID b) \<in> grant_key ` set (account_bucket_grants d) \<and>
     b \<in> Bucket.truncate ` set (buckets d)"

text \<open>
  The keys that a payload stands for, and the deletion as a whole: the payload named a visible bucket, and in
  it only these keys (and their trash keys) were touched.
\<close>

definition named_in :: "('e \<Rightarrow> 'o view) \<Rightarrow> BatchDelete \<Rightarrow> 'e sys \<Rightarrow> string set" where
  "named_in view p s = {k. named_by (\<lambda>k. view (env s) (bd_BucketName p) k \<noteq> None) (bd_Keys p) k}"

definition batch_deleted :: "('e \<Rightarrow> 'o view) \<Rightarrow> BatchDelete \<Rightarrow> 'e sys \<Rightarrow> 'e sys \<Rightarrow> bool" where
  "batch_deleted view p s t \<longleftrightarrow> (\<exists>b. BucketName b = bd_BucketName p \<and> visible_to (bd_AccountID p) (db s) b \<and>
     deleted_keys view b (named_in view p s) (bd_Permanent p) s t)"

text \<open>
  A key whose deletion is complete: no object and no row are left under it, and unless the deletion is
  permanent, the content and a row are under its trash key.
\<close>

definition key_deleted :: "('e \<Rightarrow> 'o view) \<Rightarrow> Bucket \<Rightarrow> bool \<Rightarrow> 'e sys \<Rightarrow> 'e sys \<Rightarrow> string \<Rightarrow> bool" where
  "key_deleted view b permanent s t k \<longleftrightarrow>
     view (env t) (BucketName b) k = None \<and> lookup_object (db t) (ID b, k) = None \<and>
     (\<not> permanent \<longrightarrow> view (env t) (BucketName b) (ToTrashKey k) = view (env s) (BucketName b) k \<and>
        lookup_object (db t) (ID b, ToTrashKey k) \<noteq> None)"

lemma deleted_keys_mono: "deleted_keys view b K permanent s t \<Longrightarrow> K \<subseteq> K' \<Longrightarrow> deleted_keys view b K' permanent s t"
  unfolding deleted_keys_def by blast

text \<open>When nothing fails, every key of the list that has an object is deleted.\<close>

lemma ApplyDelete_deletes:
  assumes con: "s3_contract x (c_s3 c) decode view" and plain: "plain_source decode (BucketName b) key"
    and run: "ApplyDelete x c b uid key permanent now s = Some (Inr (), t)" and wf: "db_wf (db s)"
  shows "key_deleted view b permanent s t key"
proof (cases permanent)
  case False
  then have rel: "relocation_outcome (ID b) (BucketName b) key (ToTrashKey key) uid now (view (env s)) (db s) (Inr ()) (view (env t)) (db t)"
    using ApplyDelete_soft_stages [OF con plain] run by simp
  note facts = relocation_keeps_content [OF rel]
  obtain sz etag ct where moved: "db t = move_effect (ID b) (BucketName b) key (ToTrashKey key) sz etag ct uid now (db s)"
    using facts(4) by blast
  show ?thesis
    using facts(3) lookup_moved(1,2) [OF wf moved] False by (simp add: key_deleted_def)
next
  case True
  obtain meta s1 where head: "HeadObject x c (BucketName b) key s = Some (Inr meta, s1)"
    and rest: "bind (DeleteObject x c (BucketName b) key) (\<lambda>_. Objects_Delete x (ID b) key) s1 = Some (Inr (), t)"
    using run True unfolding ApplyDelete_def by (auto elim: bind_Inr_E)
  from rest obtain s2 where del: "DeleteObject x c (BucketName b) key s1 = Some (Inr (), s2)"
    and row: "Objects_Delete x (ID b) key s2 = Some (Inr (), t)" by (auto elim: bind_Inr_E)
  have "view (env t) = view (env s2)"
    using io_relD [OF trash_sweep.forget_view [OF con, of "\<lparr>t_BucketID = ID b, t_BucketName = [], t_Key = key\<rparr>"]] row
    by (simp add: same_view_def)
  moreover have "view (env s2) (BucketName b) key = None" using DeleteObject_view [OF con del] by (simp add: view_set_def)
  moreover have "lookup_object (db t) (ID b, key) = None" using Objects_Delete_result [OF row] by (simp add: lookup_delete_key)
  ultimately show ?thesis using True by (simp add: key_deleted_def)
qed

lemma delete_one_deletes:
  assumes con: "s3_contract x (c_s3 s3) decode view" and ok: "never_fails x decode view"
    and plain: "plain_source decode (BucketName b) key" and there: "view (env s) (BucketName b) key \<noteq> None" and wf: "db_wf (db s)"
    and run: "delete_one x j s3 b p now key s = Some (r, t)"
  shows "key_deleted view b (bd_Permanent p) s t key"
proof -
  obtain u where deletion: "ApplyDelete x s3 b (bd_UserID p) key (bd_Permanent p) now s = Some (Inr (), u)"
    using ApplyDelete_succeeds [OF con ok plain there] by blast
  then have "same_objects view u t"
    using run jobs_audit_same [OF s3_contract_quiet [OF con]] by (simp add: delete_one_def attempt_def)
  then show ?thesis
    using ApplyDelete_deletes [OF con plain deletion wf] same_objects_fields(1,2) [of view u t]
    by (simp add: key_deleted_def)
qed

lemma key_deleted_stays:
  assumes "key_deleted view b permanent s t k" and "deleted_keys view b K permanent t u"
    and "k \<notin> K" and "\<And>k'. k' \<in> insert k K \<Longrightarrow> ValidUserKey k'"
  shows "key_deleted view b permanent s u k"
proof -
  have "k \<notin> ToTrashKey ` K" "ToTrashKey k \<notin> K" "ToTrashKey k \<notin> ToTrashKey ` K"
    using assms(3,4) valid_not_trash by fastforce+
  then have "view (env u) (BucketName b) k' = view (env t) (BucketName b) k' \<and> lookup_object (db u) (ID b, k') = lookup_object (db t) (ID b, k')"
    if "k' = k \<or> k' = ToTrashKey k" for k'
    using assms(2,3) that unfolding deleted_keys_def by (metis snd_conv)
  then show ?thesis using assms(1) by (simp add: key_deleted_def)
qed

lemma delete_all_complete:
  assumes con: "s3_contract x (c_s3 s3) decode view" and ok: "never_fails x decode view"
  shows "for_each (delete_one x j s3 b p now) keys s = Some (r, t) \<Longrightarrow> db_wf (db s) \<Longrightarrow> distinct keys \<Longrightarrow>
    \<forall>k \<in> set keys. ValidUserKey k \<and> plain_source decode (BucketName b) k \<Longrightarrow>
    k \<in> set keys \<Longrightarrow> view (env s) (BucketName b) k \<noteq> None \<Longrightarrow> key_deleted view b (bd_Permanent p) s t k"
proof (induction keys arbitrary: s)
  case (Cons key keys)
  then have "bind (delete_one x j s3 b p now key) (\<lambda>_. for_each (delete_one x j s3 b p now) keys) s = Some (r, t)" by simp
  then show ?case
  proof (cases rule: bind_E)
    case (stop err)
    then show ?thesis using delete_one_keys [OF con _ stop(1)] Cons.prems by simp
  next
    case (go u s1)
    have one: "deleted_keys view b {key} (bd_Permanent p) s s1" "db_wf (db s1)"
      using delete_one_keys [OF con _ go(1)] Cons.prems by simp_all
    have rest: "deleted_keys view b (set keys) (bd_Permanent p) s1 t"
      using delete_all_keys [OF con go(2) one(2)] Cons.prems by simp
    show ?thesis
    proof (cases "k = key")
      case True
      then have "key_deleted view b (bd_Permanent p) s s1 key"
        using delete_one_deletes [OF con ok _ _ _ go(1)] Cons.prems by simp
      then show ?thesis unfolding True by (rule key_deleted_stays [OF _ rest]) (use Cons.prems in auto)
    next
      case False
      then have "k \<in> set keys" "k \<noteq> ToTrashKey key" using Cons.prems(4,5) valid_not_trash by auto
      then have same: "view (env s1) (BucketName b) k = view (env s) (BucketName b) k"
        using one(1) False unfolding deleted_keys_def by fastforce
      then have "key_deleted view b (bd_Permanent p) s1 t k"
        using Cons.IH [OF go(2) one(2)] Cons.prems \<open>k \<in> set keys\<close> by simp
      then show ?thesis using same by (simp add: key_deleted_def)
    qed
  qed
qed simp

text \<open>The keys with an object that a payload stands for are in the list.\<close>

lemma named_resolved:
  assumes "\<forall>k \<in> set keys. key_outcome present resolved failed k"
    and "\<And>f. f \<in> set failed \<Longrightarrow> stands_for_nothing present (op_Key f)" and "named_by present keys k" and "present k"
  shows "k \<in> set resolved"
proof -
  have dir: "k \<in> set resolved" if "d \<in> set keys" "ValidUserKey d" "IsDirectoryKey d" "prefix d k" for d
  proof -
    have "d \<notin> op_Key ` set failed"
      using assms(2,4) that by (auto simp: stands_for_nothing_def)
    then show ?thesis using assms(1,4) that by (auto simp: key_outcome_def)
  qed
  show ?thesis
  proof (cases "k \<in> set keys \<and> \<not> IsDirectoryKey k")
    case True
    then show ?thesis using assms(1,3) by (auto simp: key_outcome_def named_by_def)
  next
    case False
    then show ?thesis using dir assms(3) unfolding named_by_def by blast
  qed
qed

text \<open>The part of the handler after the bucket was found.\<close>

definition delete_expanded :: "'e ext \<Rightarrow> Jobs \<Rightarrow> Client \<Rightarrow> BatchDelete \<Rightarrow> Bucket \<Rightarrow> ('e, unit) io" where
  "delete_expanded x j s3 p b = bind (ExpandDeleteKeys x s3 b (bd_Keys p)) (\<lambda>(resolved, failed).
     bind (time_Now x) (\<lambda>now. bind (for_each (report_failed x j p) failed) (\<lambda>_. for_each (delete_one x j s3 b p now) resolved)))"

lemma delete_expanded_run:
  assumes con: "\<And>cfg. s3_contract x cfg decode view" and list: "\<And>cfg. listing_contract x cfg all pos" and of: "listing_of view all"
    and wf: "db_wf (db s)" and s2: "idle view s s2" and b: "BucketName b = bd_BucketName p"
    and run: "delete_expanded x j s3 p b s2 = Some (r, s')"
    and plain: "\<forall>k \<in> named_in view p s. plain_source decode (bd_BucketName p) k"
  shows "r = Inr () \<and> deleted_keys view b (named_in view p s) (bd_Permanent p) s s'"
    and "never_fails x decode view \<Longrightarrow> k \<in> named_in view p s \<Longrightarrow> view (env s) (BucketName b) k \<noteq> None \<Longrightarrow>
      key_deleted view b (bd_Permanent p) s s' k"
proof -
  let ?present = "\<lambda>k. view (env s) (bd_BucketName p) k \<noteq> None"
  have quiet: "sql_quiet x view" and qc: "quiet_contract x cfg view" for cfg
    using s3_contract_quiet [OF con] con by (simp_all add: s3_contract_def)
  have present: "(\<lambda>k. view (env s2) (BucketName b) k \<noteq> None) = ?present" using s2 b by (simp add: idle_def)
  obtain K F s4 where expand: "ExpandDeleteKeys x s3 b (bd_Keys p) s2 = Some (Inr (K, F), s4)" and dist: "distinct K"
    and "\<forall>k \<in> set K. named_by ?present (bd_Keys p) k" and all: "\<forall>k \<in> set (bd_Keys p). key_outcome ?present K F k"
    using ExpandDeleteKeys_loop_result [OF list of, of "[]" s3 b "bd_Keys p" "[]" s2]
    unfolding present by (auto simp: ExpandDeleteKeys_def expansion_def)
  then have named: "set K \<subseteq> named_in view p s" by (auto simp: named_in_def)
  have s4: "idle view s s4" using io_relD [OF ExpandDeleteKeys_idle [OF qc] expand] idle.R_trans [OF s2] by blast
  have "bind (time_Now x) (\<lambda>now. bind (for_each (report_failed x j p) F) (\<lambda>_. for_each (delete_one x j s3 b p now) K)) s4 = Some (r, s')"
    using run by (simp add: delete_expanded_def bind_apply expand)
  moreover obtain now s5 where now: "time_Now x s4 = Some (Inr now, s5)" using time_Now_ok by blast
  ultimately have run5: "bind (for_each (report_failed x j p) F) (\<lambda>_. for_each (delete_one x j s3 b p now) K) s5 = Some (r, s')"
    by (simp add: bind_apply [of "time_Now x"])
  then obtain s6 where same6: "same_objects view s5 s6" and del: "for_each (delete_one x j s3 b p now) K s6 = Some (r, s')"
    by (rule report_then [OF quiet])
  have "idle view s s5" using io_relD [OF time_Now_idle [OF qc] now] idle.R_trans [OF s4] by blast
  then have s6: "same_objects view s s6" using same6 idle_same_objects sameobjects.R_trans by blast
  have wf6: "db_wf (db s6)" using same_objects_fields(5) [OF s6] wf by simp
  have valid: "\<forall>k \<in> set K. ValidUserKey k \<and> plain_source decode (BucketName b) k"
    using named plain b by (auto simp: named_in_def named_by_def)
  have "r = Inr () \<and> deleted_keys view b (set K) (bd_Permanent p) s6 s'"
    by (rule delete_all_keys [OF con del wf6 dist valid])
  then show "r = Inr () \<and> deleted_keys view b (named_in view p s) (bd_Permanent p) s s'"
    using same_then_deleted_keys [OF s6] deleted_keys_mono [OF _ named] by blast
  assume ok: "never_fails x decode view" and k: "k \<in> named_in view p s" "view (env s) (BucketName b) k \<noteq> None"
  have "f \<in> set F \<Longrightarrow> stands_for_nothing ?present (op_Key f)" for f
    using expand_failures [OF list of ok expand [unfolded ExpandDeleteKeys_def]] unfolding present by simp
  then have "k \<in> set K" using named_resolved [OF all] k b by (simp add: named_in_def)
  moreover have view6: "view (env s6) = view (env s)" using same_objects_fields(1) [OF s6] by blast
  ultimately have "key_deleted view b (bd_Permanent p) s6 s' k"
    using delete_all_complete [OF con ok del wf6 dist valid] k(2) by simp
  then show "key_deleted view b (bd_Permanent p) s s' k" using view6 by (simp add: key_deleted_def)
qed

text \<open>A batch finds its client, its payload and a visible bucket, or stops before it has done anything.\<close>

lemma GetVisible_answers:
  assumes "Buckets_GetVisible x u name s = Some (Inl err, t)" and "\<And>e. \<exists>now e'. sql x e = (SqlOk now, e')"
  shows False
proof -
  obtain now e where "sql x (env s) = (SqlOk now, e)" using assms(2) by blast
  then show False using assms(1) by (simp add: Buckets_GetVisible_def io_evals)
qed

lemma visible_bucket_E:
  assumes quiet: "sql_quiet x obs"
    and run: "with_client x j (\<lambda>s3. case parsed of Inl err \<Rightarrow> throw err
     | Inr p \<Rightarrow> bind (Buckets_GetVisible x (acc p) (bname p)) (\<lambda>found. case found of
         None \<Rightarrow> throw (missing p) | Some b \<Rightarrow> work s3 p b)) s = Some (r, s')"
  obtains (still) "idle obs s s'" "\<And>p b. (\<And>e. \<exists>now e'. sql x e = (SqlOk now, e')) \<Longrightarrow> Ready (S3FB j) \<Longrightarrow> parsed = Inr p \<Longrightarrow>
      BucketName b = bname p \<Longrightarrow> \<not> visible_to (acc p) (db s) b"
  | (found) s3 p b s1 where "parsed = Inr p" "idle obs s s1" "BucketName b = bname p" "visible_to (acc p) (db s) b"
      "work s3 p b s1 = Some (r, s')"
  using run quiet
proof (cases rule: with_client_E)
  case still
  then show ?thesis by (intro that(1)) auto
next
  case (ready s3 s1)
  show ?thesis
  proof (cases parsed)
    case (Inl err)
    then show ?thesis using ready by (intro that(1)) (auto simp: throw_apply)
  next
    case (Inr p)
    then have run: "bind (Buckets_GetVisible x (acc p) (bname p)) (\<lambda>found. case found of
        None \<Rightarrow> throw (missing p) | Some b \<Rightarrow> work s3 p b) s1 = Some (r, s')"
      using ready(2) by simp
    from ready(1) GetVisible_idle [OF quiet] run show ?thesis
    proof (cases rule: idle_bind_E)
      case (stop err)
      then show ?thesis using GetVisible_answers [OF stop(1)] by (intro that(1)) blast+
    next
      case (go found s2)
      note result = GetVisible_result [OF go(1)]
      show ?thesis
      proof (cases found)
        case None
        then have "BucketName b = bname p \<Longrightarrow> \<not> visible_to (acc p) (db s) b" for b
          using result ready(1) by (auto simp: idle_def visible_to_def truncate_fields)
        then show ?thesis using go(2,3) None Inr by (intro that(1)) (auto simp: throw_apply)
      next
        case (Some b)
        then show ?thesis using result go(2,3) ready(1) Inr
          by (intro that(2)) (simp_all add: idle_def visible_to_def)
      qed
    qed
  qed
qed

text \<open>Names of buckets are unique.\<close>

lemma visible_unique:
  assumes "db_wf d" and "visible_to u d b" and "visible_to u' d b'" and "BucketName b = BucketName b'"
  shows "b = b'"
proof -
  obtain row row' where rows: "row \<in> set (buckets d)" "b = Bucket.truncate row" "row' \<in> set (buckets d)" "b' = Bucket.truncate row'"
    using assms(2,3) by (auto simp: visible_to_def)
  have "tab_wf BucketName (buckets d)" using assms(1) by (simp add: db_wf_def)
  moreover have "BucketName row = BucketName row'" using rows(2,4) assms(4) by (simp add: truncate_fields)
  ultimately have "row = row'" using rows(1,3) by (auto simp: tab_wf_def distinct_map dest: inj_onD)
  then show ?thesis using rows(2,4) by simp
qed

text \<open>
  C4: A batch deletion touches nothing or works on a bucket that is active and granted to the
  account of the payload. There, whatever fails, no object and no row is changed but those of the keys that the payload
  stands for: the valid keys that it names, and the objects below the directories that it names, so nothing that lies in the
  trash or among the versions (their trash keys change too, unless the deletion is permanent). Unless
  the deletion is permanent, each object outside the trash is afterwards under its key or in the trash. And when nothing fails, every
  one of these keys that has an object is deleted: no object and no row are left under it, and unless the deletion is permanent
  its content and a row are under its trash key. (The keys must be such that URL decoding of a copy source leaves them alone.)
\<close>

theorem batch_delete_scope:
  assumes con: "\<And>cfg. s3_contract x cfg decode view" and list: "\<And>cfg. listing_contract x cfg all pos" and of: "listing_of view all"
    and wf: "db_wf (db s)" and run: "Jobs_BatchDelete x j t s = Some (r, s')"
    and plain: "\<And>p k. parse_delete t = Inr p \<Longrightarrow> k \<in> named_in view p s \<Longrightarrow> plain_source decode (bd_BucketName p) k"
  shows "(same_objects view s s' \<or> (\<exists>p. parse_delete t = Inr p \<and> batch_deleted view p s s' \<and> r = Inr ())) \<and>
    (never_fails x decode view \<and> Ready (S3FB j) \<and> parse_delete t = Inr p \<and>
      BucketName b = bd_BucketName p \<and> visible_to (bd_AccountID p) (db s) b \<longrightarrow>
      r = Inr () \<and> (\<forall>k \<in> named_in view p s. view (env s) (BucketName b) k \<noteq> None \<longrightarrow> key_deleted view b (bd_Permanent p) s s' k))"
  using s3_contract_quiet [OF con] run [unfolded Jobs_BatchDelete_def, folded delete_expanded_def]
proof (cases rule: visible_bucket_E)
  case still
  have "\<not> visible_to (bd_AccountID p) (db s) b"
    if ok: "never_fails x decode view" "Ready (S3FB j)" "parse_delete t = Inr p" "BucketName b = bd_BucketName p"
    by (rule still(2) [OF never_fails_sql [OF ok(1)] ok(2-4)])
  then show ?thesis using idle_same_objects [OF still(1)] by blast
next
  case (found s3 p' b' s1)
  have plain': "\<forall>k \<in> named_in view p' s. plain_source decode (bd_BucketName p') k"
    using plain [OF found(1)] by blast
  note deletion = delete_expanded_run [OF con list of wf found(2,3,5) plain']
  have "same_objects view s s' \<or> (\<exists>p. parse_delete t = Inr p \<and> batch_deleted view p s s' \<and> r = Inr ())"
    unfolding batch_deleted_def using found(1,3,4) deletion(1) by blast
  moreover have "key_deleted view b (bd_Permanent p) s s' k"
    if ok: "never_fails x decode view" "parse_delete t = Inr p" "BucketName b = bd_BucketName p" "visible_to (bd_AccountID p) (db s) b"
      and k: "k \<in> named_in view p s" "view (env s) (BucketName b) k \<noteq> None" for k
  proof -
    have p: "p' = p" using found(1) ok(2) by simp
    have "b' = b" using visible_unique [OF wf found(4) ok(4)] found(3) ok(3) p by simp
    then show ?thesis using deletion(2) [OF ok(1)] k p by simp
  qed
  ultimately show ?thesis using deletion(1) by blast
qed

definition demo_delete :: task where
  "demo_delete = \<lparr>task_type = TaskBatchDelete, task_payload = Some (Marshal_BatchDelete \<lparr>bd_AccountID = 9, bd_UserID = 5,
     bd_BucketName = ''media'', bd_Keys = [''docs/a'', ''.trash/old''], bd_Permanent = False, bd_SourceIP = [], bd_UserAgent = []\<rparr>)\<rparr>"

theorem batch_delete_scope_witness:
  "\<exists>s'. Jobs_BatchDelete demo_ext demo_jobs demo_delete demo_sys = Some (Inr (), s') \<and>
     key_deleted mem_view demo_bucket False demo_sys s' ''docs/a'' \<and> mem_view (env demo_sys) ''media'' ''docs/a'' \<noteq> None \<and>
     (\<exists>p. parse_delete demo_delete = Inr p \<and> batch_deleted mem_view p demo_sys s')"
proof -
  let ?run = "Jobs_BatchDelete demo_ext demo_jobs demo_delete demo_sys"
  let ?p = "\<lparr>bd_AccountID = 9, bd_UserID = 5, bd_BucketName = ''media'', bd_Keys = [''docs/a'', ''.trash/old''],
    bd_Permanent = False, bd_SourceIP = [], bd_UserAgent = []\<rparr>"
  have "map_option fst ?run = Some (Inr ())" by code_simp
  then obtain s' where run: "?run = Some (Inr (), s')" by auto
  have wf: "db_wf (db demo_sys)" by (simp add: demo_sys_def demo_db_wf)
  have parse: "parse_delete demo_delete = Inr ?p" by code_simp
  have ready: "Ready (S3FB demo_jobs)" by code_simp
  have grant: "BucketName demo_bucket = bd_BucketName ?p" "visible_to (bd_AccountID ?p) (db demo_sys) demo_bucket"
    by (simp_all add: visible_to_def demo_sys_def demo_db_def demo_bucket_def grant_key_def Bucket.defs)
  have there: "mem_view (env demo_sys) ''media'' ''docs/a'' \<noteq> None" by (simp add: mem_view_def demo_sys_def)
  have "ValidUserKey ''docs/a''" by code_simp
  then have named: "''docs/a'' \<in> named_in mem_view ?p demo_sys" by (simp add: named_in_def named_by_def)
  have plain: "plain_source (\<lambda>s. s) (bd_BucketName p) k" if "parse_delete demo_delete = Inr p" for p k
  proof -
    have "p = ?p" using that parse by simp
    then show ?thesis by (simp add: plain_source_def)
  qed
  from batch_delete_scope [OF mem_s3_contract mem_listing_contract mem_listing_of wf run plain, of ?p demo_bucket]
  have "same_objects mem_view demo_sys s' \<or> (\<exists>p. parse_delete demo_delete = Inr p \<and> batch_deleted mem_view p demo_sys s')"
    and all: "\<forall>k \<in> named_in mem_view ?p demo_sys. mem_view (env demo_sys) (BucketName demo_bucket) k \<noteq> None \<longrightarrow>
      key_deleted mem_view demo_bucket (bd_Permanent ?p) demo_sys s' k"
    using mem_never_fails ready parse grant by blast+
  moreover have gone: "key_deleted mem_view demo_bucket False demo_sys s' ''docs/a''"
    using bspec [OF all named] there by (simp add: demo_bucket_def)
  then have "\<not> same_objects mem_view demo_sys s'"
    using there same_objects_fields(1) [of mem_view demo_sys s'] by (auto simp: key_deleted_def demo_bucket_def)
  ultimately show ?thesis using run gone there by blast
qed

end
