(* ===== verification/WorkerMove.thy ===== *)
theory WorkerMove
  imports WorkerBatch
begin

text \<open>
  What the batch copies and moves of \<^verbatim>\<open>internal/worker/batch.go\<close> leave behind: relations
  between the states before and after that each item respects, and so the whole batch.
\<close>

section \<open>Moves\<close>

text \<open>
  Only keys of \<open>N\<close> in bucket \<open>b\<close> have changed, and no object is lost or has replaced another:
  every object of the bucket is still there under a key of its own.
\<close>

definition moved_within :: "('e \<Rightarrow> 'o view) \<Rightarrow> Bucket \<Rightarrow> string set \<Rightarrow> 'e sys \<Rightarrow> 'e sys \<Rightarrow> bool" where
  "moved_within view b N s t \<longleftrightarrow>
    (\<forall>B k. view (env t) B k \<noteq> view (env s) B k \<longrightarrow> B = BucketName b \<and> k \<in> N) \<and>
    (db_wf (db s) \<longrightarrow> db_wf (db t) \<and> (\<forall>i. lookup_object (db t) i \<noteq> lookup_object (db s) i \<longrightarrow> fst i = ID b \<and> snd i \<in> N)) \<and>
    (\<exists>f. inj_on f (dom (view (env s) (BucketName b))) \<and>
      (\<forall>k v. view (env s) (BucketName b) k = Some v \<longrightarrow> view (env t) (BucketName b) (f k) = Some v))"

lemma injection_trans:
  assumes "inj_on f (dom m) \<and> (\<forall>k v. m k = Some v \<longrightarrow> m' (f k) = Some v)"
    and "inj_on g (dom m') \<and> (\<forall>k v. m' k = Some v \<longrightarrow> m'' (g k) = Some v)"
  shows "inj_on (g \<circ> f) (dom m) \<and> (\<forall>k v. m k = Some v \<longrightarrow> m'' ((g \<circ> f) k) = Some v)"
proof -
  have "f ` dom m \<subseteq> dom m'" using assms(1) by fastforce
  then have "inj_on (g \<circ> f) (dom m)" using assms by (meson comp_inj_on inj_on_subset)
  then show ?thesis using assms by simp
qed

interpretation movedwithin: io_preorder "moved_within view b N" for view :: "'e \<Rightarrow> 'o view" and b :: Bucket and N :: "string set"
proof unfold_locales
  fix s t u :: "'e sys"
  show "moved_within view b N s s"
    unfolding moved_within_def by (intro conjI exI [of _ "\<lambda>k. k"]) simp_all
  assume st: "moved_within view b N s t" and tu: "moved_within view b N t u"
  let ?V = "\<lambda>s. view (env s) (BucketName b)"
  obtain f where f: "inj_on f (dom (?V s)) \<and> (\<forall>k v. ?V s k = Some v \<longrightarrow> ?V t (f k) = Some v)"
    using st by (auto simp: moved_within_def)
  obtain g where g: "inj_on g (dom (?V t)) \<and> (\<forall>k v. ?V t k = Some v \<longrightarrow> ?V u (g k) = Some v)"
    using tu by (auto simp: moved_within_def)
  have "\<forall>B k. view (env u) B k \<noteq> view (env s) B k \<longrightarrow> B = BucketName b \<and> k \<in> N"
    "db_wf (db s) \<longrightarrow> db_wf (db u) \<and> (\<forall>i. lookup_object (db u) i \<noteq> lookup_object (db s) i \<longrightarrow> fst i = ID b \<and> snd i \<in> N)"
    using st tu unfolding moved_within_def by metis+
  with injection_trans [OF f g] show "moved_within view b N s u"
    unfolding moved_within_def by blast
qed

lemma same_moved_within: "same_objects view s t \<Longrightarrow> moved_within view b N s t"
  using same_objects_fields [of view s t] movedwithin.R_refl [of view b N s] by (simp add: moved_within_def)

lemma inj_redirect: "m dest = None \<Longrightarrow> inj_on (\<lambda>k. if k = src \<and> gone then dest else k) (dom m)"
  by (rule inj_onI) (auto split: if_splits)

lemma ApplyMove_moved_within:
  assumes con: "s3_contract x (c_s3 c) decode view" and plain: "plain_source decode (BucketName b) src"
    and other: "src \<noteq> dest" and named: "{src, dest} \<subseteq> N"
  shows "io_rel (moved_within view b N) (ApplyMove x c b uid src dest now)"
proof (rule io_relI)
  fix s r t
  assume run: "ApplyMove x c b uid src dest now s = Some (r, t)"
  note stages = ApplyMove_stages [OF con plain run]
  show "moved_within view b N s t"
  proof (cases "view (env s) (BucketName b) dest = None")
    case False
    then have "view (env t) = view (env s)" "db t = db s" using stages(2) other by simp_all
    then show ?thesis using movedwithin.R_refl [of view b N s] by (simp add: moved_within_def)
  next
    case True
    note facts = relocation_keeps_content [OF stages(1)]
    let ?V = "view (env s) (BucketName b)" and ?V' = "view (env t) (BucketName b)"
    let ?f = "\<lambda>k. if k = src \<and> ?V' src \<noteq> ?V src then dest else k"
    have inj: "inj_on ?f (dom ?V)" using True by (rule inj_redirect [where m = ?V])
    have keep: "?V' (?f k) = Some v" if v: "?V k = Some v" for k v
    proof (cases "k = src")
      case True
      then show ?thesis using facts(1) [of v] v other by auto
    next
      case False
      moreover have "k \<noteq> dest" using v True by auto
      ultimately show ?thesis using facts(2) [of "BucketName b" k] v by simp
    qed
    have views: "B = BucketName b \<and> k \<in> N" if "view (env t) B k \<noteq> view (env s) B k" for B k
      using facts(2) [of B k] that named by auto
    have "db t = db s \<or> (\<exists>sz etag ct. db t = move_effect (ID b) (BucketName b) src dest sz etag ct uid now (db s))"
      using stages(1) by (auto simp: relocation_outcome_def)
    then have "db_wf (db t)" and rows: "i \<noteq> (ID b, src) \<Longrightarrow> i \<noteq> (ID b, dest) \<Longrightarrow> lookup_object (db t) i = lookup_object (db s) i"
      if "db_wf (db s)" for i
      using lookup_moved(3) [OF that] db_wf_move_effect that by metis+
    moreover have "fst i = ID b \<and> snd i \<in> N" if "db_wf (db s)" "lookup_object (db t) i \<noteq> lookup_object (db s) i" for i
      using rows [OF that(1), of i] that(2) named by (cases i) auto
    ultimately have "db_wf (db s) \<longrightarrow> db_wf (db t) \<and>
        (\<forall>i. lookup_object (db t) i \<noteq> lookup_object (db s) i \<longrightarrow> fst i = ID b \<and> snd i \<in> N)" by blast
    moreover have "\<exists>f. inj_on f (dom ?V) \<and> (\<forall>k v. ?V k = Some v \<longrightarrow> ?V' (f k) = Some v)"
      by (rule exI [of _ ?f], intro conjI allI impI inj keep)
    ultimately show ?thesis using views unfolding moved_within_def by blast
  qed
qed

lemma audit_item_same: "sql_quiet x view \<Longrightarrow> io_rel (same_objects view) (audit_item x j p bucket k a st msg)"
  unfolding audit_item_def by (rule jobs_audit_objects)

lemma move_one_moved_within:
  assumes con: "shared_contract K x (c_s3 s3) decode view" and own: "{(BucketName b, SourceKey it), (BucketName b, DestKey it)} \<subseteq> K"
    and plain: "plain_source decode (BucketName b) (SourceKey it)"
    and other: "SourceKey it \<noteq> DestKey it" and named: "{SourceKey it, DestKey it} \<subseteq> N"
  shows "io_rel (moved_within (own K view) b N) (move_one x j s3 b p now it)"
proof -
  have "sql_quiet x (own K view)" using con by (simp add: shared_contract_def quiet_contract_def sql_quiet_def)
  then have audit: "io_rel (moved_within (own K view) b N) (audit_item x j p bucket k a st msg)" for bucket k a st msg
    by (rule io_rel_mono [OF audit_item_same]) (rule same_moved_within)
  have "io_rel (moved_within (own K view) b N) (ApplyMove x s3 b uid (SourceKey it) (DestKey it) now)" for uid
    using ApplyMove_moved_within [OF only_for_contract [OF con] plain other named]
    unfolding only_for_ApplyMove [OF own plain] .
  then show ?thesis unfolding move_one_def
    by (intro movedwithin.respects_attempt) (auto intro: audit split: sum.split)
qed

text \<open>The start of the batch handlers: nothing happens, or the loop over the items runs in a visible bucket.\<close>

lemma batch_items_cases:
  assumes quiet: "\<And>cfg. quiet_contract x cfg view"
    and run: "with_client x j (\<lambda>s3. case parse_items msg t of Inl err \<Rightarrow> throw err
     | Inr p \<Rightarrow> bind (Buckets_GetVisible x (bi_AccountID p) (bi_BucketName p)) (\<lambda>found. case found of
         None \<Rightarrow> throw (missing p) | Some b \<Rightarrow> bind (time_Now x) (\<lambda>now. for_each (one s3 p b now) (bi_Items p)))) s = Some (r, s')"
  obtains (still) "idle view s s'"
  | (loop) s3 p b now s1 where "parse_items msg t = Inr p" "BucketName b = bi_BucketName p" "visible_to (bi_AccountID p) (db s) b"
      "idle view s s1" "for_each (one s3 p b now) (bi_Items p) s1 = Some (r, s')"
proof -
  have q: "sql_quiet x view" using quiet by (simp add: quiet_contract_def sql_quiet_def)
  from q run show ?thesis
  proof (cases rule: visible_bucket_E)
    case still
    then show ?thesis using that(1) by blast
  next
    case (found s3 p b s1)
    from found(2) time_Now_idle [OF quiet] found(5) show ?thesis
    proof (cases rule: idle_bind_E)
      case (stop err)
      then show ?thesis using that(1) by blast
    next
      case (go now s2)
      then show ?thesis using that(2) found(1,3,4) by blast
    qed
  qed
qed

text \<open>
  C3: A batch move loses nothing: whatever fails, every object of the bucket is afterwards
  still there, under a key of its own, and only objects and rows of the keys that the payload
  names in the visible bucket are concerned (no item moves an object to its own key, which
  destroys it). Others may meanwhile write any object outside \<open>K\<close>, which has the named ones in it. The sources must be
  such that the service leaves them alone when it URL-decodes the copy source.
\<close>

theorem batch_move_loses_nothing:
  assumes "\<And>cfg. shared_contract K x cfg decode view" and "db_wf (db s)" and "Jobs_BatchMove x j t s = Some (r, s')"
    and "\<And>p it. parse_items ''invalid batch move payload'' t = Inr p \<Longrightarrow> it \<in> set (bi_Items p) \<Longrightarrow>
      {(bi_BucketName p, SourceKey it), (bi_BucketName p, DestKey it)} \<subseteq> K \<and>
      SourceKey it \<noteq> DestKey it \<and> plain_source decode (bi_BucketName p) (SourceKey it)"
  shows "same_objects (own K view) s s' \<or> (\<exists>p b. parse_items ''invalid batch move payload'' t = Inr p \<and> BucketName b = bi_BucketName p \<and>
     visible_to (bi_AccountID p) (db s) b \<and> moved_within (own K view) b (SourceKey ` set (bi_Items p) \<union> DestKey ` set (bi_Items p)) s s')"
proof -
  have qc: "\<And>cfg. quiet_contract x cfg (own K view)" using assms(1) by (simp add: shared_contract_def)
  from qc assms(3) [unfolded Jobs_BatchMove_def] show ?thesis
  proof (cases rule: batch_items_cases)
    case still
    then show ?thesis using idle_same_objects by blast
  next
    case (loop s3 p b now s1)
    let ?N = "SourceKey ` set (bi_Items p) \<union> DestKey ` set (bi_Items p)"
    have "io_rel (moved_within (own K view) b ?N) (for_each (move_one x j s3 b p now) (bi_Items p))"
      by (rule movedwithin.respects_for_each, rule move_one_moved_within [OF assms(1)]) (use assms(4) loop(1,2) in auto)
    then have "moved_within (own K view) b ?N s1 s'" using loop(5) by (rule io_relD)
    then have "moved_within (own K view) b ?N s s'"
      using same_moved_within [OF idle_same_objects [OF loop(4)]] movedwithin.R_trans by blast
    then show ?thesis using loop(1,2,3) by blast
  qed
qed

definition demo_items :: "CopyItem list \<Rightarrow> task" where
  "demo_items its = \<lparr>task_type = TaskBatchMove, task_payload = Some (Marshal_BatchItems \<lparr>bi_AccountID = 9, bi_UserID = 5,
     bi_BucketName = ''media'', bi_Items = its, bi_SourceIP = [], bi_UserAgent = []\<rparr>)\<rparr>"

definition demo_moves :: "CopyItem list" where
  "demo_moves = [\<lparr>SourceKey = ''docs/a'', DestKey = ''docs/c'', DestBucketName = None\<rparr>,
     \<lparr>SourceKey = ''docs/b'', DestKey = ''docs/a'', DestBucketName = None\<rparr>]"

lemma demo_items_parse: "parse_items msg (demo_items demo_moves) = Inr \<lparr>bi_AccountID = 9, bi_UserID = 5,
     bi_BucketName = ''media'', bi_Items = demo_moves, bi_SourceIP = [], bi_UserAgent = []\<rparr>"
  by code_simp

lemma demo_items_fields:
  assumes "parse_items msg (demo_items demo_moves) = Inr p"
  shows "bi_BucketName p = ''media''" "bi_Items p = demo_moves" "bi_AccountID p = 9"
  using assms unfolding demo_items_parse by auto

theorem batch_move_loses_nothing_witness:
  "\<exists>s' b. Jobs_BatchMove demo_ext demo_jobs (demo_items demo_moves) demo_sys = Some (Inr (), s') \<and>
     mem_view (env s') ''media'' ''docs/c'' = Some (demo_content 1) \<and> mem_view (env s') ''media'' ''docs/a'' = Some (demo_content 2) \<and>
     moved_within mem_view b {''docs/a'', ''docs/b'', ''docs/c''} demo_sys s'"
proof -
  let ?run = "Jobs_BatchMove demo_ext demo_jobs (demo_items demo_moves) demo_sys"
  have "map_option (\<lambda>(r, t). r = Inr () \<and> mem_view (env t) ''media'' ''docs/c'' = Some (demo_content 1) \<and>
      mem_view (env t) ''media'' ''docs/a'' = Some (demo_content 2)) ?run = Some True" by code_simp
  then obtain s' where run: "?run = Some (Inr (), s')" and c: "mem_view (env s') ''media'' ''docs/c'' = Some (demo_content 1)"
    and a: "mem_view (env s') ''media'' ''docs/a'' = Some (demo_content 2)" by auto
  have wf: "db_wf (db demo_sys)" by (simp add: demo_sys_def demo_db_wf)
  have "mem_view (env demo_sys) ''media'' ''docs/a'' = Some (demo_content 1)" by (simp add: mem_view_def demo_sys_def)
  then have "\<not> same_objects mem_view demo_sys s'"
    using a same_objects_fields(1) [of mem_view demo_sys s'] by (auto simp: demo_content_def)
  moreover have "SourceKey it \<noteq> DestKey it \<and> plain_source (\<lambda>s. s) (bi_BucketName p) (SourceKey it)"
    if "parse_items ''invalid batch move payload'' (demo_items demo_moves) = Inr p" "it \<in> set (bi_Items p)" for p it
    using that(2) unfolding demo_items_fields [OF that(1)] by (auto simp: demo_moves_def plain_source_def)
  ultimately obtain p b where p: "parse_items ''invalid batch move payload'' (demo_items demo_moves) = Inr p"
    and moved: "moved_within mem_view b (SourceKey ` set (bi_Items p) \<union> DestKey ` set (bi_Items p)) demo_sys s'"
    using batch_move_loses_nothing [where K = UNIV, OF alone_shared [OF mem_s3_contract] wf run] by auto
  have "SourceKey ` set (bi_Items p) \<union> DestKey ` set (bi_Items p) = {''docs/a'', ''docs/b'', ''docs/c''}"
    unfolding demo_items_fields [OF p] by (auto simp: demo_moves_def)
  with moved show ?thesis using run a c by auto
qed

end
