(* ===== verification/WorkerCopy.thy ===== *)
theory WorkerCopy
  imports WorkerMove
begin

text \<open>
  What a batch copy of \<^verbatim>\<open>internal/worker/batch.go\<close> leaves behind.
\<close>

text \<open>
  No object has changed or gone; a new one has the key of an item, in a bucket that the account
  may see, and the content of an object of the source bucket. Rows change at such keys only.
\<close>

definition copy_target :: "BatchItems \<Rightarrow> Bucket \<Rightarrow> tenant_db \<Rightarrow> Bucket \<Rightarrow> string \<Rightarrow> bool" where
  "copy_target p src d dest k \<longleftrightarrow> visible_to (bi_AccountID p) d dest \<and>
     (\<exists>it \<in> set (bi_Items p). k = DestKey it \<and> BucketName dest = dest_name src it)"

definition copied_within :: "('e \<Rightarrow> 'o view) \<Rightarrow> BatchItems \<Rightarrow> Bucket \<Rightarrow> 'e sys \<Rightarrow> 'e sys \<Rightarrow> bool" where
  "copied_within view p src s t \<longleftrightarrow>
    (\<forall>B k v. view (env s) B k = Some v \<longrightarrow> view (env t) B k = Some v) \<and>
    (\<forall>B k v. view (env t) B k = Some v \<longrightarrow> view (env s) B k = Some v \<or>
       (\<exists>dest. B = BucketName dest \<and> copy_target p src (db s) dest k) \<and> (\<exists>k'. view (env s) (BucketName src) k' = Some v)) \<and>
    (db_wf (db s) \<longrightarrow> db_wf (db t) \<and> (\<forall>i. lookup_object (db t) i \<noteq> lookup_object (db s) i \<longrightarrow>
       (\<exists>dest. fst i = ID dest \<and> copy_target p src (db s) dest (snd i)))) \<and>
    buckets (db t) = buckets (db s) \<and> account_bucket_grants (db t) = account_bucket_grants (db s)"

lemma copy_target_same: "buckets d' = buckets d \<Longrightarrow> account_bucket_grants d' = account_bucket_grants d \<Longrightarrow>
    copy_target p src d' = copy_target p src d"
  by (simp add: copy_target_def visible_to_def fun_eq_iff)

interpretation copiedwithin: io_preorder "copied_within view p src" for view :: "'e \<Rightarrow> 'o view" and p src
proof unfold_locales
  fix s t u :: "'e sys"
  show "copied_within view p src s s" by (simp add: copied_within_def)
  assume st: "copied_within view p src s t" and tu: "copied_within view p src t u"
  have targets: "copy_target p src (db t) = copy_target p src (db s)"
    using st by (intro copy_target_same) (simp_all add: copied_within_def)
  have content: "view (env s) B k = Some v \<or>
       (\<exists>dest. B = BucketName dest \<and> copy_target p src (db s) dest k) \<and> (\<exists>k'. view (env s) (BucketName src) k' = Some v)"
    if v: "view (env u) B k = Some v" for B k v
  proof (cases "view (env t) B k = Some v")
    case True
    then show ?thesis using st unfolding copied_within_def by blast
  next
    case False
    then obtain k' where new: "\<exists>dest. B = BucketName dest \<and> copy_target p src (db s) dest k" and k': "view (env t) (BucketName src) k' = Some v"
      using tu v unfolding copied_within_def targets by blast
    have "\<exists>k'. view (env s) (BucketName src) k' = Some v"
      using st k' unfolding copied_within_def by blast
    then show ?thesis using new by blast
  qed
  have rows: "\<exists>dest. fst i = ID dest \<and> copy_target p src (db s) dest (snd i)"
    if "db_wf (db s)" "lookup_object (db u) i \<noteq> lookup_object (db s) i" for i
  proof (cases "lookup_object (db t) i = lookup_object (db s) i")
    case True
    then have "lookup_object (db u) i \<noteq> lookup_object (db t) i" "db_wf (db t)" using st that by (simp_all add: copied_within_def)
    then show ?thesis using tu unfolding copied_within_def targets by blast
  next
    case False
    then show ?thesis using st that(1) unfolding copied_within_def by blast
  qed
  have kept: "view (env u) B k = Some v" if "view (env s) B k = Some v" for B k v
    using st tu that by (simp add: copied_within_def)
  have wf: "db_wf (db u)" if "db_wf (db s)" using st tu that by (simp add: copied_within_def)
  have same: "buckets (db u) = buckets (db s)" "account_bucket_grants (db u) = account_bucket_grants (db s)"
    using st tu by (simp_all add: copied_within_def)
  have all: "\<forall>B k v. view (env s) B k = Some v \<longrightarrow> view (env u) B k = Some v"
    "\<forall>B k v. view (env u) B k = Some v \<longrightarrow> view (env s) B k = Some v \<or>
       (\<exists>dest. B = BucketName dest \<and> copy_target p src (db s) dest k) \<and> (\<exists>k'. view (env s) (BucketName src) k' = Some v)"
    "db_wf (db s) \<longrightarrow> db_wf (db u) \<and> (\<forall>i. lookup_object (db u) i \<noteq> lookup_object (db s) i \<longrightarrow>
       (\<exists>dest. fst i = ID dest \<and> copy_target p src (db s) dest (snd i)))"
    using kept content wf rows by blast+
  show "copied_within view p src s u" unfolding copied_within_def by (intro conjI all same)
qed

lemma same_copied_within: "same_objects view s t \<Longrightarrow> copied_within view p src s t"
  using same_objects_fields [of view s t] by (simp add: copied_within_def)

lemma idle_copied_within: "idle view s t \<Longrightarrow> copied_within view p src s t"
  by (rule same_copied_within [OF idle_same_objects])

lemma sql_upsert_other:
  assumes "db_wf d"
  shows "db_wf (sql_upsert bid name key sz etag ct uid now d)"
    and "i \<noteq> (bid, key) \<Longrightarrow> lookup_object (sql_upsert bid name key sz etag ct uid now d) i = lookup_object d i"
  using ups.wf_put [OF assms, of "(bid, key)" "\<lparr>uv_bucketName = name, uv_size = sz, uv_etag = etag, uv_contentType = ct,
      uv_userID = uid, uv_at = now\<rparr>"] ups.lookup_put [OF assms, of "(bid, key)" "\<lparr>uv_bucketName = name, uv_size = sz,
      uv_etag = etag, uv_contentType = ct, uv_userID = uid, uv_at = now\<rparr>" i]
  by (simp_all add: put_upsert_def)

lemma sql_upsert_buckets:
  "buckets (sql_upsert bid name key sz etag ct uid now d) = buckets d"
  "account_bucket_grants (sql_upsert bid name key sz etag ct uid now d) = account_bucket_grants d"
  by (simp_all add: sql_upsert_def)

lemma ApplyCopy_copied_within:
  assumes con: "s3_contract x (c_s3 c) decode view" and plain: "plain_source decode (BucketName src) (SourceKey it)"
    and it: "it \<in> set (bi_Items p)" "BucketName dest = dest_name src it" and see: "visible_to (bi_AccountID p) (db s) dest"
    and run: "ApplyCopy x c src dest uid (SourceKey it) (DestKey it) now s = Some (r, t)"
  shows "copied_within view p src s t"
proof -
  have target: "copy_target p src (db s) dest (DestKey it)" using it see by (auto simp: copy_target_def)
  from ApplyCopy_stages [OF con plain run] show ?thesis
  proof (elim disjE exE conjE)
    assume "view (env t) = view (env s)" "db t = db s"
    then show ?thesis by (simp add: copied_within_def)
  next
    fix v err
    assume "view (env s) (BucketName src) (SourceKey it) = Some v" "view (env s) (BucketName dest) (DestKey it) = None"
      "view (env t) = view_set (view (env s)) (BucketName dest) (DestKey it) (Some v)" "db t = db s"
    then show ?thesis using target by (auto simp: copied_within_def view_set_def)
  next
    fix v sz etag ct
    assume "view (env s) (BucketName src) (SourceKey it) = Some v" "view (env s) (BucketName dest) (DestKey it) = None"
      "view (env t) = view_set (view (env s)) (BucketName dest) (DestKey it) (Some v)"
      "db t = sql_upsert (ID dest) (BucketName dest) (DestKey it) sz etag ct uid now (db s)"
    moreover have "\<exists>dest. fst i = ID dest \<and> copy_target p src (db s) dest (snd i)"
      if "db_wf (db s)" "lookup_object (db t) i \<noteq> lookup_object (db s) i" for i
    proof -
      have "i = (ID dest, DestKey it)" using sql_upsert_other(2) [OF that(1)] that(2) calculation by metis
      then show ?thesis using target by auto
    qed
    ultimately show ?thesis using target sql_upsert_other(1) sql_upsert_buckets unfolding copied_within_def view_set_def
      by (intro conjI allI impI) (auto split: if_splits)
  qed
qed

lemma copy_one_copied_within:
  assumes con: "shared_contract K x (c_s3 s3) decode view"
    and own: "{(BucketName src, SourceKey it), (dest_name src it, DestKey it)} \<subseteq> K"
    and plain: "plain_source decode (BucketName src) (SourceKey it)" and it: "it \<in> set (bi_Items p)"
  shows "io_rel (copied_within (own K view) p src) (copy_one x j s3 src p now it)"
proof (rule io_relI)
  fix s r t
  have q: "sql_quiet x (own K view)" using con by (simp add: shared_contract_def quiet_contract_def sql_quiet_def)
  have audit: "io_rel (copied_within (own K view) p src) (audit_item x j p bucket k a st msg)" for bucket k a st msg
    using audit_item_same [OF q] by (rule io_rel_mono) (rule same_copied_within)
  assume "copy_one x j s3 src p now it s = Some (r, t)"
  then show "copied_within (own K view) p src s t" unfolding copy_one_def Let_def
  proof (cases rule: bind_E)
    case (stop err)
    then show ?thesis using io_relD [OF GetVisible_idle [OF q] stop(1)] idle_copied_within by blast
  next
    case (go found s1)
    have s1: "copied_within (own K view) p src s s1" "idle (own K view) s s1"
      using io_relD [OF GetVisible_idle [OF q] go(1)] idle_copied_within by blast+
    show ?thesis
    proof (cases found)
      case None
      then show ?thesis using go(2) io_relD [OF audit] copiedwithin.R_trans [OF s1(1)] by auto
    next
      case (Some dest)
      have dest: "BucketName dest = dest_name src it" "visible_to (bi_AccountID p) (db s1) dest"
        using GetVisible_result [OF go(1)] Some s1(2) by (simp_all add: idle_def visible_to_def)
      from go(2) Some obtain q2 s2 where copy: "ApplyCopy x s3 src dest (bi_UserID p) (SourceKey it) (DestKey it) now s1 = Some (q2, s2)"
        and rest: "(case q2 of Inl err \<Rightarrow> audit_item x j p (BucketName dest) (DestKey it) ''copy'' ''failure'' (CopyErr (Some err))
          | Inr _ \<Rightarrow> audit_item x j p (BucketName dest) (DestKey it) ''copy'' ''success'' []) s2 = Some (r, t)"
        by (auto elim: attempt_E)
      have "ApplyCopy (only_for K decode x) s3 src dest (bi_UserID p) (SourceKey it) (DestKey it) now s1 = Some (q2, s2)"
        using copy own only_for_ApplyCopy [OF _ plain] unfolding dest(1) [symmetric] by metis
      then have "copied_within (own K view) p src s1 s2"
        by (rule ApplyCopy_copied_within [OF only_for_contract [OF con] plain it dest])
      moreover have "copied_within (own K view) p src s2 t" using rest io_relD [OF audit] by (cases q2) simp_all
      ultimately show ?thesis using copiedwithin.R_trans s1(1) by blast
    qed
  qed
qed

text \<open>
  C22: A batch copy only adds: every object that was there is there unchanged, whatever fails.
  A new object has the key of an item, lies in a bucket that is active and granted to the account
  of the payload, and has the content of an object of the source bucket, which the account may
  see too; the rows that change are of such keys. Others may meanwhile write any object outside \<open>K\<close>,
  which has the sources and the destinations in it. The sources must be such that the service leaves them alone when it URL-decodes
  the copy source.
\<close>

theorem batch_copy_only_adds:
  assumes "\<And>cfg. shared_contract K x cfg decode view" and "Jobs_BatchCopy x j t s = Some (r, s')"
    and "\<And>p it. parse_items ''invalid batch copy payload'' t = Inr p \<Longrightarrow> it \<in> set (bi_Items p) \<Longrightarrow>
      (bi_BucketName p, SourceKey it) \<in> K \<and> plain_source decode (bi_BucketName p) (SourceKey it)"
    and "\<And>p it src. parse_items ''invalid batch copy payload'' t = Inr p \<Longrightarrow> it \<in> set (bi_Items p) \<Longrightarrow>
      BucketName src = bi_BucketName p \<Longrightarrow> (dest_name src it, DestKey it) \<in> K"
  shows "same_objects (own K view) s s' \<or> (\<exists>p src. parse_items ''invalid batch copy payload'' t = Inr p \<and> BucketName src = bi_BucketName p \<and>
     visible_to (bi_AccountID p) (db s) src \<and> copied_within (own K view) p src s s')"
proof -
  have qc: "\<And>cfg. quiet_contract x cfg (own K view)" using assms(1) by (simp add: shared_contract_def)
  from qc assms(2) [unfolded Jobs_BatchCopy_def] show ?thesis
  proof (cases rule: batch_items_cases)
    case still
    then show ?thesis using idle_same_objects by blast
  next
    case (loop s3 p src now s1)
    have "io_rel (copied_within (own K view) p src) (for_each (copy_one x j s3 src p now) (bi_Items p))"
      by (rule copiedwithin.respects_for_each, rule copy_one_copied_within [OF assms(1)]) (use assms(3,4) loop(1,2) in auto)
    then have "copied_within (own K view) p src s1 s'" using loop(5) by (rule io_relD)
    then have "copied_within (own K view) p src s s'"
      using idle_copied_within [OF loop(4)] copiedwithin.R_trans by blast
    then show ?thesis using loop(1,2,3) by blast
  qed
qed

text \<open>The first item is refused, since its destination exists.\<close>

definition demo_copies :: "CopyItem list" where
  "demo_copies = [\<lparr>SourceKey = ''docs/a'', DestKey = ''docs/b'', DestBucketName = None\<rparr>,
     \<lparr>SourceKey = ''docs/b'', DestKey = ''docs/c'', DestBucketName = Some '' media ''\<rparr>]"

lemma demo_copies_parse: "parse_items msg (demo_items demo_copies) = Inr \<lparr>bi_AccountID = 9, bi_UserID = 5,
     bi_BucketName = ''media'', bi_Items = demo_copies, bi_SourceIP = [], bi_UserAgent = []\<rparr>"
  by code_simp

theorem batch_copy_only_adds_witness:
  "\<exists>s' p src. Jobs_BatchCopy demo_ext demo_jobs (demo_items demo_copies) demo_sys = Some (Inr (), s') \<and>
     mem_view (env s') ''media'' ''docs/c'' = Some (demo_content 2) \<and> mem_view (env s') ''media'' ''docs/b'' = Some (demo_content 2) \<and>
     copied_within mem_view p src demo_sys s'"
proof -
  let ?run = "Jobs_BatchCopy demo_ext demo_jobs (demo_items demo_copies) demo_sys"
  have "map_option (\<lambda>(r, t). r = Inr () \<and> mem_view (env t) ''media'' ''docs/c'' = Some (demo_content 2) \<and>
      mem_view (env t) ''media'' ''docs/b'' = Some (demo_content 2)) ?run = Some True" by code_simp
  then obtain s' where run: "?run = Some (Inr (), s')" and c: "mem_view (env s') ''media'' ''docs/c'' = Some (demo_content 2)"
    and b: "mem_view (env s') ''media'' ''docs/b'' = Some (demo_content 2)" by auto
  have "mem_view (env demo_sys) ''media'' ''docs/c'' = None" by (simp add: mem_view_def demo_sys_def)
  then have "\<not> same_objects mem_view demo_sys s'"
    using c same_objects_fields(1) [of mem_view demo_sys s'] by auto
  moreover have "plain_source (\<lambda>s. s) (bi_BucketName p) (SourceKey it)"
    if "parse_items ''invalid batch copy payload'' (demo_items demo_copies) = Inr p" "it \<in> set (bi_Items p)" for p it
    using that(1) unfolding demo_copies_parse by (auto simp: plain_source_def)
  ultimately show ?thesis
    using batch_copy_only_adds [where K = UNIV, OF alone_shared [OF mem_s3_contract] run] run b c by auto
qed

end
