(* ===== verification/WorkerInventory.thy ===== *)
theory WorkerInventory
  imports WorkerCleanup
begin

text \<open>
  The inventory of \<^verbatim>\<open>internal/worker/jobs.go\<close> (\<^verbatim>\<open>scanBucket\<close>): what a scan makes of the records of
  a bucket, whether it ends well or not, and what that means for the trash.
\<close>

section \<open>The pages of a scan\<close>

text \<open>Neither statements nor the clock change what the storage lists.\<close>

definition scan_quiet :: "'e ext \<Rightarrow> ('e \<Rightarrow> string \<Rightarrow> string option \<Rightarrow> s3_object list) \<Rightarrow>
    ('e \<Rightarrow> string \<Rightarrow> string option \<Rightarrow> string option \<Rightarrow> nat) \<Rightarrow> bool" where
  "scan_quiet x all pos \<longleftrightarrow> (\<forall>e. all (snd (sql x e)) = all e \<and> pos (snd (sql x e)) = pos e \<and>
     all (snd (clock x e)) = all e \<and> pos (snd (clock x e)) = pos e)"

definition same_listing :: "('e \<Rightarrow> string \<Rightarrow> string option \<Rightarrow> s3_object list) \<Rightarrow>
    ('e \<Rightarrow> string \<Rightarrow> string option \<Rightarrow> string option \<Rightarrow> nat) \<Rightarrow> 'e sys \<Rightarrow> 'e sys \<Rightarrow> bool" where
  "same_listing all pos s t \<longleftrightarrow> all (env t) = all (env s) \<and> pos (env t) = pos (env s)"

interpretation samelisting: io_preorder "same_listing all pos" for all and pos
  by unfold_locales (simp_all add: same_listing_def)

lemma sql_exec_listing: "scan_quiet x all pos \<Longrightarrow> io_rel (same_listing all pos) (sql_exec x f)"
  by (auto simp: io_rel_def sql_exec_def sql_stmt_def same_listing_def scan_quiet_def split: prod.splits sql_reply.splits)
    (metis snd_conv)+

text \<open>The statement that a listed object becomes; objects without a key are passed over.\<close>

definition seen_entry :: "Bucket \<Rightarrow> time \<Rightarrow> ListedObject \<Rightarrow> (int \<times> string) \<times> seen_vals" where
  "seen_entry b T obj = ((ID b, l_Key obj), \<lparr>sv_bucketName = BucketName b, sv_size = l_Size obj, sv_etag = l_ETag obj,
     sv_storageClass = l_StorageClass obj, sv_seenAt = T\<rparr>)"

definition entries :: "Bucket \<Rightarrow> time \<Rightarrow> ListedObject list \<Rightarrow> ((int \<times> string) \<times> seen_vals) list" where
  "entries b T objs = map (seen_entry b T) (filter (\<lambda>obj. l_Key obj \<noteq> []) objs)"

lemma entries_append: "entries b T (xs @ ys) = entries b T xs @ entries b T ys"
  by (simp add: entries_def)

definition seen_result :: "((int \<times> string) \<times> seen_vals) list \<Rightarrow> go_error + unit \<Rightarrow> tenant_db \<Rightarrow> tenant_db \<Rightarrow> bool" where
  "seen_result kvs r d d' \<longleftrightarrow> (\<exists>ks. prefix ks kvs \<and> d' = seen.puts ks d \<and> (r = Inr () \<longrightarrow> ks = kvs))"

lemma seen_result_append:
  "seen_result (ks @ kvs) r d d'" if "seen_result kvs r (seen.puts ks d) d'"
  using that unfolding seen_result_def by (auto simp: seen.puts_append [symmetric]) (metis same_prefix_prefix)

lemma seen_result_error:
  assumes "seen_result ks (Inl err) d d'"
  shows "seen_result (ks @ kvs) (Inl err) d d'"
proof -
  obtain ls where "prefix ls ks" "d' = seen.puts ls d" using assms by (auto simp: seen_result_def)
  then show ?thesis unfolding seen_result_def by (intro exI [of _ ls]) simp
qed

lemma see_object_result:
  "\<exists>r s'. see_object x b T obj s = Some (r, s') \<and> seen_result (entries b T [obj]) r (db s) (db s')"
proof (cases "l_Key obj = []")
  case True
  then show ?thesis by (simp add: see_object_def entries_def seen_result_def ret_apply)
next
  case False
  then have entry: "entries b T [obj] = [seen_entry b T obj]" by (simp add: entries_def)
  have put: "sql_upsert_seen (ID b) (BucketName b) (l_Key obj) (l_Size obj) (l_ETag obj) (l_StorageClass obj) T d =
      seen.puts [seen_entry b T obj] d" for d
    by (simp add: seen_entry_def put_seen_def)
  have kept: "\<exists>ks. prefix ks [e] \<and> d = seen.puts ks d" for e d by (intro exI [of _ "[]"]) simp
  show ?thesis
    unfolding see_object_def Objects_UpsertSeen_def entry seen_result_def using False put kept
    by (auto simp: io_evals split: prod.split sql_reply.split)
qed

lemma see_objects_result:
  "\<exists>r s'. for_each (see_object x b T) objs s = Some (r, s') \<and> seen_result (entries b T objs) r (db s) (db s')"
proof (induction objs arbitrary: s)
  case Nil
  then show ?case by (simp add: ret_apply seen_result_def entries_def)
next
  case (Cons obj objs)
  obtain r s1 where one: "see_object x b T obj s = Some (r, s1)" "seen_result (entries b T [obj]) r (db s) (db s1)"
    using see_object_result by blast
  have split: "entries b T (obj # objs) = entries b T [obj] @ entries b T objs"
    using entries_append [of b T "[obj]" objs] by simp
  show ?case
  proof (cases r)
    case (Inl err)
    then show ?thesis using one split by (simp add: bind_apply seen_result_error)
  next
    case (Inr u)
    then have d: "db s1 = seen.puts (entries b T [obj]) (db s)" using one(2) by (auto simp: seen_result_def)
    obtain q s2 where "for_each (see_object x b T) objs s1 = Some (q, s2)" "seen_result (entries b T objs) q (db s1) (db s2)"
      using Cons.IH by blast
    then show ?thesis using one Inr split d by (simp add: bind_apply seen_result_append)
  qed
qed

lemma see_objects_listing: "scan_quiet x all pos \<Longrightarrow> io_rel (same_listing all pos) (for_each (see_object x b T) objs)"
  unfolding see_object_def Objects_UpsertSeen_def by (intro samelisting.respects_rules samelisting.respects_if sql_exec_listing)

text \<open>One turn of the loop: what is on the page has been recorded, and the rest of the listing is shorter.\<close>

definition listed_from :: "('e \<Rightarrow> string \<Rightarrow> string option \<Rightarrow> s3_object list) \<Rightarrow>
    ('e \<Rightarrow> string \<Rightarrow> string option \<Rightarrow> string option \<Rightarrow> nat) \<Rightarrow> string \<Rightarrow> string \<Rightarrow> 'e sys \<Rightarrow> ListedObject list" where
  "listed_from all pos bname t s = map listed (drop (pos (env s) bname None (opt_str t)) (all (env s) bname None))"

lemma listed_from_same: "same_listing all pos s s' \<Longrightarrow> listed_from all pos bname t s' = listed_from all pos bname t s"
  by (simp add: listed_from_def same_listing_def)

lemma listed_from_page:
  assumes "page_ok (all (env s) bname None) (\<lambda>t. pos (env s) bname None (opt_str t)) t pg"
  shows "if Truncated pg \<and> Token pg \<noteq> []
    then Objects pg \<noteq> [] \<and> listed_from all pos bname t s = Objects pg @ listed_from all pos bname (Token pg) s
    else listed_from all pos bname t s = Objects pg"
proof -
  let ?A = "all (env s) bname None" and ?at = "\<lambda>t. pos (env s) bname None (opt_str t)" and ?n = "length (Objects pg)"
  have "Objects pg = map listed (take ?n (drop (?at t) ?A))" using assms by (simp add: page_ok_def)
  then have "listed_from all pos bname t s = Objects pg @ map listed (drop (?at t + ?n) ?A)"
    unfolding listed_from_def by (metis append_take_drop_id drop_drop map_append add.commute)
  then show ?thesis using assms by (simp add: page_ok_def listed_from_def)
qed

lemma scan_turn:
  assumes list: "listing_contract x (c_s3 c) all pos" and quiet: "scan_quiet x all pos"
  obtains (stops) r s' where "scan_pages x c b T t s = Some (r, s')" "same_listing all pos s s'"
      "seen_result (entries b T (listed_from all pos (BucketName b) t s)) r (db s) (db s')"
  | (continues) pg :: ListPage and s' where "scan_pages x c b T t s = scan_pages x c b T (Token pg) s'" "same_listing all pos s s'"
      "Objects pg \<noteq> []" "listed_from all pos (BucketName b) t s = Objects pg @ listed_from all pos (BucketName b) (Token pg) s"
      "db s' = seen.puts (entries b T (Objects pg)) (db s)"
proof -
  let ?from = "\<lambda>t. listed_from all pos (BucketName b) t s"
  obtain r s1 where page: "list_page x c (BucketName b) [] t 1000 s = Some (r, s1)"
    using storage_total by (metis not_None_eq surj_pair total_def)
  note ok = list_page_ok [OF list page]
  have one: "same_listing all pos s s1" "db s1 = db s" using ok by (simp_all add: calm_def same_listing_def)
  show thesis
  proof (cases r)
    case (Inl err)
    then have "scan_pages x c b T t s = Some (Inl err, s1)" using page by (subst scan_pages.simps) (simp add: ListObjects_def)
    then show thesis using one by (intro stops) (auto simp: seen_result_def intro!: exI [of _ "[]"])
  next
    case (Inr pg)
    then have pok: "page_ok (all (env s) (BucketName b) None) (\<lambda>t. pos (env s) (BucketName b) None (opt_str t)) t pg"
      using ok by (simp add: opt_str_def)
    obtain q s2 where see: "for_each (see_object x b T) (Objects pg) s1 = Some (q, s2)"
      and rows: "seen_result (entries b T (Objects pg)) q (db s) (db s2)" using see_objects_result one(2) by metis
    have same: "same_listing all pos s s2"
      using io_relD [OF see_objects_listing [OF quiet] see] samelisting.R_trans [OF one(1)] by blast
    note run = page [folded ListObjects_def] Inr see
    note here = listed_from_page [of all s "BucketName b" pos t pg, OF pok]
    consider (failed) err where "q = Inl err" | (last) "q = Inr ()" "\<not> (Truncated pg \<and> Token pg \<noteq> [])"
      | (more) "q = Inr ()" "Truncated pg \<and> Token pg \<noteq> []" by (cases q) auto
    then show thesis
    proof cases
      case failed
      have "?from t = Objects pg @ drop (length (Objects pg)) (?from t)" using here by (auto split: if_splits)
      then have "seen_result (entries b T (?from t)) q (db s) (db s2)"
        using seen_result_error rows failed by (metis entries_append)
      moreover have "scan_pages x c b T t s = Some (q, s2)" using run failed by (subst scan_pages.simps) simp
      ultimately show thesis using same by (rule stops [rotated 2])
    next
      case last
      then have "?from t = Objects pg" using here by (simp only: if_False)
      moreover have "scan_pages x c b T t s = Some (Inr (), s2)" using run last by (subst scan_pages.simps) simp
      ultimately show thesis using same rows last(1) by (intro stops) simp_all
    next
      case more
      have "scan_pages x c b T t s = scan_pages x c b T (Token pg) s2" using run more by (subst scan_pages.simps) simp
      moreover have "db s2 = seen.puts (entries b T (Objects pg)) (db s)" using rows more(1) by (auto simp: seen_result_def)
      ultimately show thesis using same here more(2) by (intro continues [of pg s2]) simp_all
    qed
  qed
qed

text \<open>The loop over the pages ends, and has recorded a first part of the listing, all of it on success.\<close>

lemma scan_pages_result:
  assumes list: "listing_contract x (c_s3 c) all pos" and quiet: "scan_quiet x all pos"
  shows "\<exists>r s'. scan_pages x c b T t s = Some (r, s') \<and> same_listing all pos s s' \<and>
    seen_result (entries b T (listed_from all pos (BucketName b) t s)) r (db s) (db s')"
proof (induction "length (listed_from all pos (BucketName b) t s)" arbitrary: s t rule: less_induct)
  case (less s t)
  from assms show ?case
  proof (cases rule: scan_turn [where x = x and c = c and all = all and pos = pos and b = b and T = T and t = t and s = s])
    case stops
    then show ?thesis by blast
  next
    case (continues pg s1)
    note same = listed_from_same [OF continues(2)]
    have "length (listed_from all pos (BucketName b) (Token pg) s1) < length (listed_from all pos (BucketName b) t s)"
      using continues(3,4) by (simp add: same)
    from less.hyps [OF this] obtain r s' where rest: "scan_pages x c b T (Token pg) s1 = Some (r, s')" "same_listing all pos s1 s'"
      "seen_result (entries b T (listed_from all pos (BucketName b) (Token pg) s)) r (db s1) (db s')" unfolding same by blast
    have "seen_result (entries b T (listed_from all pos (BucketName b) t s)) r (db s) (db s')"
      using seen_result_append rest(3) continues(4,5) by (simp add: entries_append)
    then show ?thesis using continues(1) rest(1) samelisting.R_trans [OF continues(2) rest(2)] by simp
  qed
qed

section \<open>A whole scan\<close>

lemma lookup_mark_inventoried [simp]: "lookup_object (sql_mark_inventoried i t d) = lookup_object d"
  by (simp add: sql_mark_inventoried_def lookup_object_def find_object_def fun_eq_iff)

lemma PurgeUnseen_result:
  assumes "Objects_PurgeUnseen x bid T s = Some (r, t)"
  shows "db t = sql_purge_unseen bid T (db s) \<or> (\<exists>err. r = Inl err) \<and> db t = db s"
  using assms by (auto simp: Objects_PurgeUnseen_def io_evals split: prod.splits sql_reply.splits)

lemma mark_lookup:
  assumes "bind (time_Now x) (\<lambda>now. Buckets_MarkInventoried x i now) s = Some (r, t)"
  shows "lookup_object (db t) = lookup_object (db s)"
  using assms by (auto simp: Buckets_MarkInventoried_def io_evals split: prod.splits sql_reply.splits)

definition scanned :: "('e \<Rightarrow> string \<Rightarrow> string option \<Rightarrow> s3_object list) \<Rightarrow> Bucket \<Rightarrow> time \<Rightarrow> 'e sys \<Rightarrow> ((int \<times> string) \<times> seen_vals) list" where
  "scanned all b T s = entries b T (map listed (all (env s) (BucketName b) None))"

text \<open>The end of a scan, which drops what was not seen.\<close>

lemma scan_close_result:
  obtains r t where "bind (Objects_PurgeUnseen x bid T) (\<lambda>_. bind (time_Now x) (\<lambda>now. Buckets_MarkInventoried x bid now)) s = Some (r, t)"
    "r \<noteq> Inr () \<and> lookup_object (db t) = lookup_object (db s) \<or> lookup_object (db t) = lookup_object (sql_purge_unseen bid T (db s))"
proof -
  let ?mark = "bind (time_Now x) (\<lambda>now. Buckets_MarkInventoried x bid now)"
  have total: "total (Objects_PurgeUnseen x bid T)" "total ?mark"
    unfolding Objects_PurgeUnseen_def by (intro io_rules)+
  then obtain r2 s2 where purge: "Objects_PurgeUnseen x bid T s = Some (r2, s2)"
    by (metis not_None_eq surj_pair total_def)
  show thesis
  proof (cases r2)
    case (Inl err)
    then show thesis using PurgeUnseen_result [OF purge] by (intro that [of "Inl err" s2]) (auto simp: bind_apply purge)
  next
    case (Inr v)
    obtain r3 s3 where mark: "?mark s2 = Some (r3, s3)" using total(2) by (metis not_None_eq surj_pair total_def)
    have "db s2 = sql_purge_unseen bid T (db s)" using PurgeUnseen_result [OF purge] Inr by auto
    then show thesis using mark_lookup [OF mark] Inr
      by (intro that [of r3 s3]) (simp_all add: bind_apply [of "Objects_PurgeUnseen x bid T"] purge mark)
  qed
qed

lemma scanBucket_result:
  assumes list: "listing_contract x (c_s3 c) all pos" and quiet: "scan_quiet x all pos"
  obtains r t ks where "scanBucket x c b s = Some (r, t)" "prefix ks (scanned all b (fst (clock x (env s))) s)"
    "r \<noteq> Inr () \<and> lookup_object (db t) = lookup_object (seen.puts ks (db s)) \<or>
     ks = scanned all b (fst (clock x (env s))) s \<and>
       lookup_object (db t) = lookup_object (sql_purge_unseen (ID b) (fst (clock x (env s))) (seen.puts ks (db s)))"
proof -
  let ?T = "fst (clock x (env s))"
  obtain s0 where s0: "s0 = s\<lparr>env := snd (clock x (env s))\<rparr>" by simp
  have now: "time_Now x s = Some (Inr ?T, s0)" "db s0 = db s" "same_listing all pos s s0"
    using quiet by (simp_all add: s0 time_Now_def scan_quiet_def same_listing_def split: prod.split)
  obtain q s1 where "list_page x c (BucketName b) [] [] 1000 s0 = Some (q, s1)"
    using storage_total by (metis not_None_eq surj_pair total_def)
  then have start: "pos (env s0) (BucketName b) None (opt_str []) = 0"
    using list_page_ok [OF list] by (fastforce simp: opt_str_def)
  obtain r1 s1 ks where pages: "scan_pages x c b ?T [] s0 = Some (r1, s1)" and ks: "prefix ks (scanned all b ?T s)"
    "db s1 = seen.puts ks (db s)" "r1 = Inr () \<Longrightarrow> ks = scanned all b ?T s"
    using scan_pages_result [OF list quiet, of b ?T "[]" s0] start now(2,3)
    by (auto simp: seen_result_def scanned_def same_listing_def listed_from_def)
  show thesis
  proof (cases r1)
    case (Inl err)
    have run: "scanBucket x c b s = Some (Inl err, s1)"
      using now(1) pages Inl by (simp add: scanBucket_def bind_apply)
    show thesis by (rule that [OF run ks(1)]) (simp add: ks(2))
  next
    case (Inr u)
    obtain r t where close: "bind (Objects_PurgeUnseen x (ID b) ?T) (\<lambda>_. bind (time_Now x) (\<lambda>now. Buckets_MarkInventoried x (ID b) now)) s1 = Some (r, t)"
      "r \<noteq> Inr () \<and> lookup_object (db t) = lookup_object (db s1) \<or> lookup_object (db t) = lookup_object (sql_purge_unseen (ID b) ?T (db s1))"
      by (rule scan_close_result)
    have "scanBucket x c b s = Some (r, t)"
      using now(1) pages Inr close(1) by (simp add: scanBucket_def bind_apply [of "time_Now x" _ s] bind_apply [of "scan_pages x c b ?T []"])
    then show thesis using close(2) ks Inr by (intro that [OF _ ks(1)]) auto
  qed
qed

text \<open>The rows a scan writes carry the time it started.\<close>

lemma listed_key: "l_Key (listed obj) = key \<and> key \<noteq> [] \<longleftrightarrow> so_key obj = Some key \<and> key \<noteq> []"
  by (auto simp: listed_def split: option.splits)

lemma scanned_key: "k \<in> fst ` set (scanned all b T s) \<longleftrightarrow> fst k = ID b \<and> snd k \<noteq> [] \<and>
    (\<exists>obj \<in> set (all (env s) (BucketName b) None). so_key obj = Some (snd k))"
proof -
  have "k \<in> fst ` set (scanned all b T s) \<longleftrightarrow> (\<exists>obj \<in> set (all (env s) (BucketName b) None).
      fst k = ID b \<and> l_Key (listed obj) = snd k \<and> snd k \<noteq> [])"
    by (cases k) (auto simp: scanned_def entries_def seen_entry_def image_image)
  then show ?thesis using listed_key by blast
qed

lemma seen_puts_row:
  assumes "db_wf d" and "k \<in> fst ` set (scanned all b T s)"
  obtains row obj where "lookup_object (seen.puts (scanned all b T s) d) k = Some row" "o_last_seen_at row = Some T"
    "obj \<in> set (all (env s) (BucketName b) None)" "so_key obj = Some (snd k)"
    "o_size row = Some (l_Size (listed obj))" "o_etag row = l_ETag (listed obj)"
proof -
  from seen.lookup_puts_mem [OF assms] obtain v old where v: "(k, v) \<in> set (scanned all b T s)"
    and row: "lookup_object (seen.puts (scanned all b T s) d) k = Some (row_after_seen k v old)" by blast
  from v obtain obj where obj: "obj \<in> set (all (env s) (BucketName b) None)" "l_Key (listed obj) = snd k" "snd k \<noteq> []"
    "v = snd (seen_entry b T (listed obj))"
    by (auto simp: scanned_def entries_def seen_entry_def)
  have "so_key obj = Some (snd k)" using obj(2,3) by (auto simp: listed_def split: option.splits)
  then show thesis
    using that [OF row _ obj(1)] obj(4) by (simp add: row_after_seen_def seen_entry_def split: option.splits)
qed

text \<open>
  C5: The inventory never loses sight of an object. However a scan ends, a record that it removes
  belonged to the scanned bucket, and no object is stored under its key (records with an empty
  key aside); records of other buckets stay as they are, and the scan itself always ends.
\<close>

theorem inventory_keeps_objects:
  assumes "listing_contract x (c_s3 c) all pos" and "listing_of view all" and "scan_quiet x all pos" and "db_wf (db s)"
  shows "\<exists>r t. scanBucket x c b s = Some (r, t) \<and>
    (\<forall>k. fst k \<noteq> ID b \<longrightarrow> lookup_object (db t) k = lookup_object (db s) k) \<and>
    (\<forall>k. snd k \<noteq> [] \<longrightarrow> lookup_object (db s) k \<noteq> None \<longrightarrow> lookup_object (db t) k = None \<longrightarrow>
      fst k = ID b \<and> view (env s) (BucketName b) (snd k) = None)"
proof -
  let ?T = "fst (clock x (env s))"
  from assms(1,3) obtain r t ks where run: "scanBucket x c b s = Some (r, t)" and ks: "prefix ks (scanned all b ?T s)"
    and cases: "r \<noteq> Inr () \<and> lookup_object (db t) = lookup_object (seen.puts ks (db s)) \<or>
      ks = scanned all b ?T s \<and> lookup_object (db t) = lookup_object (sql_purge_unseen (ID b) ?T (seen.puts ks (db s)))"
    by (rule scanBucket_result)
  have wf: "db_wf (seen.puts ks (db s))" using assms(4) by (rule seen.wf_puts)
  have keys: "fst ` set ks \<subseteq> fst ` set (scanned all b ?T s)" using set_mono_prefix [OF ks] by blast
  have other: "lookup_object (db t) k = lookup_object (db s) k" if "fst k \<noteq> ID b" for k
  proof -
    have "k \<notin> fst ` set ks" using subsetD [OF keys, of k] scanned_key [of k all b ?T s] that by blast
    then have "lookup_object (seen.puts ks (db s)) k = lookup_object (db s) k" by (rule seen.lookup_puts_other [OF assms(4)])
    then show ?thesis using cases that by (auto simp: lookup_purge_unseen [OF seen.wf_puts [OF assms(4)]] split: option.split)
  qed
  have gone: "fst k = ID b \<and> view (env s) (BucketName b) (snd k) = None"
    if "snd k \<noteq> []" "lookup_object (db s) k \<noteq> None" "lookup_object (db t) k = None" for k
  proof -
    have "fst k = ID b" using other [of k] that by auto
    moreover have "lookup_object (seen.puts ks (db s)) k \<noteq> None"
      using that(2) seen.lookup_puts_None [OF assms(4)] by simp
    then have purged: "ks = scanned all b ?T s" "lookup_object (sql_purge_unseen (ID b) ?T (seen.puts ks (db s))) k = None"
      using cases that(3) by auto
    have "k \<notin> fst ` set (scanned all b ?T s)"
    proof
      assume "k \<in> fst ` set (scanned all b ?T s)"
      from seen_puts_row [OF assms(4) this] obtain row where
        "lookup_object (seen.puts (scanned all b ?T s) (db s)) k = Some row" "o_last_seen_at row = Some ?T" by metis
      then show False using purged by (simp add: lookup_purge_unseen [OF seen.wf_puts [OF assms(4)]])
    qed
    then have "\<not> (\<exists>obj \<in> set (all (env s) (BucketName b) None). so_key obj = Some (snd k))"
      using \<open>fst k = ID b\<close> that(1) by (simp add: scanned_key)
    then have "view (env s) (BucketName b) (snd k) = None"
      using assms(2) unfolding listing_of_def by (metis option.simps(4))
    ultimately show ?thesis by simp
  qed
  show ?thesis using run other gone by blast
qed

text \<open>A bucket whose records are out of date: one object is not recorded, one record has no object.\<close>

definition demo_stale :: "mem sys" where
  "demo_stale = demo_dirty\<lparr>db := (db demo_dirty)\<lparr>object_records := [demo_object ''docs/a'' 0, demo_object ''docs/gone'' 0,
     demo_object ''.trash/old'' 0]\<rparr>\<rparr>"

lemma demo_stale_wf: "db_wf (db demo_stale)"
  using demo_dirty_wf by (simp add: demo_stale_def db_wf_def tab_wf_def demo_object_def object_key_def)

lemma mem_scan_quiet: "scan_quiet (mem_ext decode) mem_all (\<lambda>_ _ _. mem_offset)"
  by (simp add: scan_quiet_def mem_ext_def)

theorem inventory_keeps_objects_witness:
  "\<exists>t. scanBucket demo_ext mem_client demo_bucket demo_stale = Some (Inr (), t) \<and>
     lookup_object (db t) (1, ''docs/gone'') = None \<and> mem_view (env demo_stale) ''media'' ''docs/gone'' = None"
proof -
  let ?run = "scanBucket demo_ext mem_client demo_bucket demo_stale"
  have "map_option (\<lambda>(r, t). r = Inr () \<and> lookup_object (db t) (1, ''docs/gone'') = None) ?run = Some True" by code_simp
  then obtain t where t: "?run = Some (Inr (), t)" "lookup_object (db t) (1, ''docs/gone'') = None" by auto
  have "lookup_object (db demo_stale) (1, ''docs/gone'') \<noteq> None" by code_simp
  moreover obtain t' where "?run = Some t'" and "snd (1 :: int, ''docs/gone'') \<noteq> [] \<longrightarrow>
      lookup_object (db demo_stale) (1, ''docs/gone'') \<noteq> None \<longrightarrow> lookup_object (db (snd t')) (1, ''docs/gone'') = None \<longrightarrow>
      fst (1 :: int, ''docs/gone'') = ID demo_bucket \<and> mem_view (env demo_stale) (BucketName demo_bucket) ''docs/gone'' = None"
    using inventory_keeps_objects [OF mem_listing_contract mem_listing_of mem_scan_quiet demo_stale_wf, of "\<lambda>s. s" mem_client demo_bucket]
    by force
  ultimately show ?thesis using t by (auto simp: demo_bucket_def)
qed

text \<open>
  C16: A scan that succeeds makes the records of the bucket those of the storage: every object that
  the storage lists has a record with its size and ETag and the time the scan started, and every other record
  of the bucket that stays was seen by someone else at that time or later.
\<close>

theorem inventory_exact:
  assumes "listing_contract x (c_s3 c) all pos" and "scan_quiet x all pos" and "db_wf (db s)"
    and "scanBucket x c b s = Some (Inr (), t)" and "clock x (env s) = (T, e)"
  shows "if key \<noteq> [] \<and> (\<exists>obj \<in> set (all (env s) (BucketName b) None). so_key obj = Some key)
    then \<exists>row obj. lookup_object (db t) (ID b, key) = Some row \<and> o_last_seen_at row = Some T \<and>
      obj \<in> set (all (env s) (BucketName b) None) \<and> so_key obj = Some key \<and>
      o_size row = Some (l_Size (listed obj)) \<and> o_etag row = l_ETag (listed obj)
    else lookup_object (db t) (ID b, key) = (case lookup_object (db s) (ID b, key) of None \<Rightarrow> None
      | Some row \<Rightarrow> (case o_last_seen_at row of None \<Rightarrow> None | Some at \<Rightarrow> if at < T then None else Some row))"
proof -
  from assms(1,2) obtain r t' ks where "scanBucket x c b s = Some (r, t')"
    and cases: "r \<noteq> Inr () \<and> lookup_object (db t') = lookup_object (seen.puts ks (db s)) \<or>
      ks = scanned all b (fst (clock x (env s))) s \<and>
      lookup_object (db t') = lookup_object (sql_purge_unseen (ID b) (fst (clock x (env s))) (seen.puts ks (db s)))"
    by (rule scanBucket_result)
  then have rows: "lookup_object (db t) = lookup_object (sql_purge_unseen (ID b) T (seen.puts (scanned all b T s) (db s)))"
    using assms(4,5) by auto
  note purge = lookup_purge_unseen [OF seen.wf_puts [OF assms(3)]]
  show ?thesis
  proof (cases "(ID b, key) \<in> fst ` set (scanned all b T s)")
    case True
    from seen_puts_row [OF assms(3) True] obtain row obj where
      "lookup_object (seen.puts (scanned all b T s) (db s)) (ID b, key) = Some row" "o_last_seen_at row = Some T"
      "obj \<in> set (all (env s) (BucketName b) None)" "so_key obj = Some (snd (ID b, key))"
      "o_size row = Some (l_Size (listed obj))" "o_etag row = l_ETag (listed obj)" by metis
    then show ?thesis using True by (auto simp: rows purge scanned_key)
  next
    case False
    then show ?thesis
      using seen.lookup_puts_other [OF assms(3) False]
      by (auto simp: rows purge scanned_key split: option.split)
  qed
qed

theorem inventory_exact_witness:
  "\<exists>t row. scanBucket demo_ext mem_client demo_bucket demo_stale = Some (Inr (), t) \<and>
     lookup_object (db t) (1, ''docs/b'') = Some row \<and> o_last_seen_at row = Some (40 * Day)"
proof -
  let ?run = "scanBucket demo_ext mem_client demo_bucket demo_stale"
  have "map_option (\<lambda>(r, t). r = Inr ()) ?run = Some True" by code_simp
  then obtain t where t: "?run = Some (Inr (), t)" by auto
  have "\<exists>obj \<in> set (mem_all (env demo_stale) (BucketName demo_bucket) None). so_key obj = Some ''docs/b''" by code_simp
  with inventory_exact [OF mem_listing_contract mem_scan_quiet demo_stale_wf t, of "40 * Day" "env demo_stale" "''docs/b''"]
  show ?thesis using t by (auto simp: mem_ext_def demo_stale_def demo_dirty_def demo_sys_def demo_bucket_def)
qed

section \<open>The inventory and the trash\<close>

text \<open>After a scan no record of the bucket was last seen before the scan.\<close>

lemma scanned_rows:
  assumes "scanBucket x c b s = Some (Inr (), t)" and "clock x (env s) = (T, e)"
    and "row \<in> set (object_records (db t))" and "o_bucket_id row = ID b"
  shows "T \<le> seen_or_updated row"
proof -
  from assms(1) obtain s0 where "bind (scan_pages x c b T []) (\<lambda>_. bind (Objects_PurgeUnseen x (ID b) T) (\<lambda>_.
      bind (time_Now x) (\<lambda>now. Buckets_MarkInventoried x (ID b) now))) s0 = Some (Inr (), t)"
    unfolding scanBucket_def by (rule bind_Inr_E) (use assms(2) in \<open>simp add: time_Now_def\<close>)
  then obtain s1 where "bind (Objects_PurgeUnseen x (ID b) T) (\<lambda>_.
      bind (time_Now x) (\<lambda>now. Buckets_MarkInventoried x (ID b) now)) s1 = Some (Inr (), t)" by (rule bind_Inr_E)
  then obtain s2 where purge: "Objects_PurgeUnseen x (ID b) T s1 = Some (Inr (), s2)"
    and mark: "bind (time_Now x) (\<lambda>now. Buckets_MarkInventoried x (ID b) now) s2 = Some (Inr (), t)"
    by (rule bind_Inr_E) simp
  have "object_records (db t) = object_records (db s2)"
    using mark by (auto simp: Buckets_MarkInventoried_def sql_mark_inventoried_def io_evals split: prod.splits sql_reply.splits)
  moreover have "db s2 = sql_purge_unseen (ID b) T (db s1)" using PurgeUnseen_result [OF purge] by auto
  ultimately show ?thesis
    using assms(3,4) by (auto simp: sql_purge_unseen_def tab_delete_def seen_or_updated_def split: option.splits)
qed

text \<open>
  C17: The inventory starts the retention of trashed objects anew. It stamps every record of the bucket,
  those in the trash included, and the retention counts from that stamp: a trash cleanup of the
  bucket that runs within the retention time of a successful scan removes nothing, however long
  ago the objects were deleted. With the scheduler's inventory every 15 minutes, no trash expires.
\<close>

theorem inventory_postpones_trash:
  assumes "scanBucket x c b s = Some (Inr (), t)" and "clock x (env s) = (T, e)" and "0 < ID b"
    and "policy_of ''trash_cleanup_enabled'' ''trash_retention_days'' 0 (db t) = (days, enabled)"
    and "db u = db t" and "\<And>e now e'. sql x e = (SqlOk now, e') \<Longrightarrow> now \<le> T + days * Day"
    and "trash x j (ID b) u = Some (r, v)"
  shows "db v = db u"
proof -
  have quiet: "sql_quiet x (\<lambda>_. ())" by (simp add: sql_quiet_def)
  from assms(7) [unfolded trash_def trash_query TrashPolicy_def] quiet expiredTrash_idle [OF quiet] show ?thesis
  proof (cases rule: cleanup_cases)
    case still
    then show ?thesis by (simp add: idle_def)
  next
    case (sweep s3 days' items s1 s2)
    have days: "days' = days" using sweep(1) assms(4,5) by simp
    have same: "db s1 = db u" "db s2 = db u" using sweep(3,4) by (simp_all add: idle_def)
    obtain now e' where now: "sql x (env s1) = (SqlOk now, e')" and items: "items = map (\<lambda>r. \<lparr>t_BucketID = o_bucket_id r,
        t_BucketName = o_bucket_name r, t_Key = o_object_key r\<rparr>) (filter (expired_trash_row days (max (ID b) 0) now) (object_records (db u)))"
      using expiredTrash_query [OF sweep(5)] same(1) days by auto
    have "\<not> expired_trash_row days (max (ID b) 0) now row" if "row \<in> set (object_records (db u))" for row
      using scanned_rows [OF assms(1,2), of row] that assms(3,5) assms(6) [OF now] by (auto simp: expired_trash_row_def)
    then have "items = []" using items by (simp add: filter_empty_conv)
    then show ?thesis using sweep(6) same(2) by (simp add: sweep_def ret_apply)
  qed
qed

text \<open>
  An object deleted 40 days ago under a retention of 30 days: without an inventory the cleanup
  removes it, after one it does not, not even 30 days later.
\<close>

theorem inventory_postpones_trash_witness:
  "\<exists>t v w. trash (dated_ext (70 * Day)) demo_jobs 1 demo_stale = Some (Inr (), w) \<and> lookup_object (db w) (1, ''.trash/old'') = None \<and>
     scanBucket (dated_ext (70 * Day)) mem_client demo_bucket demo_stale = Some (Inr (), t) \<and>
     trash (dated_ext (70 * Day)) demo_jobs 1 t = Some (Inr (), v) \<and> db v = db t"
proof -
  let ?scan = "scanBucket (dated_ext (70 * Day)) mem_client demo_bucket demo_stale"
  have "map_option (\<lambda>(r, w). r = Inr () \<and> lookup_object (db w) (1, ''.trash/old'') = None)
      (trash (dated_ext (70 * Day)) demo_jobs 1 demo_stale) = Some True" by code_simp
  then obtain w where w: "trash (dated_ext (70 * Day)) demo_jobs 1 demo_stale = Some (Inr (), w)"
    "lookup_object (db w) (1, ''.trash/old'') = None" by auto
  have "map_option (\<lambda>(r, t). r = Inr () \<and> policy_of ''trash_cleanup_enabled'' ''trash_retention_days'' 0 (db t) = (30, True) \<and>
      map_option fst (trash (dated_ext (70 * Day)) demo_jobs 1 t) = Some (Inr ())) ?scan = Some True" by code_simp
  then obtain t v where t: "?scan = Some (Inr (), t)" and policy: "policy_of ''trash_cleanup_enabled'' ''trash_retention_days'' 0 (db t) = (30, True)"
    and v: "trash (dated_ext (70 * Day)) demo_jobs 1 t = Some (Inr (), v)" by auto
  have "clock (dated_ext (70 * Day)) (env demo_stale) = (40 * Day, env demo_stale)"
    by (simp add: dated_ext_def mem_ext_def demo_stale_def demo_dirty_def demo_sys_def)
  from inventory_postpones_trash [OF t this _ policy refl, of demo_jobs "Inr ()" v] have "db v = db t"
    using v by (auto simp: demo_bucket_def dated_ext_def)
  then show ?thesis using t v w by blast
qed

end
