(* ===== verification/StatsCount.thy ===== *)
theory StatsCount
  imports ObjectKey Calendar "HOL-Library.AList"
begin

text \<open>
  \<^verbatim>\<open>internal/stats/request.go\<close>: which actions count, the counters, and the time windows. The
  counters are \<^verbatim>\<open>int64\<close>: sums wrap around. A counter that has taken a list of requests is
  shown to hold the totals over the list.
\<close>

section \<open>The code\<close>

definition periodHours :: "(string \<times> int) list" where
  "periodHours = [(''24h'', 24), (''7d'', 168), (''30d'', 720)]"

definition dailyRollupDays :: int where
  "dailyRollupDays = 30"

definition putActions :: "string list" where
  "putActions = [''upload'']"

definition getActions :: "string list" where
  "getActions = [''download'', ''preview'', ''version_download'', ''share_access'']"

definition deleteActions :: "string list" where
  "deleteActions = [''delete'', ''purge'', ''version_delete'']"

definition excludedActs :: "string list" where
  "excludedActs = [''login_failed'', ''password_change'']"

definition adminActions :: "string list" where
  "adminActions = [
     ''user_create'', ''user_delete'', ''user_update'', ''modify_user_role'',
     ''create_tenant'', ''delete_tenant'', ''disable_tenant'', ''enable_tenant'', ''update_tenant'',
     ''modify_quota'', ''bucket_create'', ''bucket_import'', ''bucket_delete'', ''modify_bucket'',
     ''modify_bucket_quota'', ''modify_access_logging'', ''modify_bucket_policy'', ''modify_bucket_cors'',
     ''modify_permission'', ''modify_lifecycle'', ''force_unlock_file'',
     ''restart_rgw'', ''rolling_restart_rgw'', ''update_system_settings'',
     ''request_tenant_api_access'', ''approve_tenant_api_access'', ''reject_tenant_api_access'',
     ''disable_tenant_api_access'', ''create_application'', ''update_application'', ''delete_application'',
     ''create_access_key'', ''disable_access_key'', ''issue_sts_credentials'']"

record counter =
  uploadBytes :: int
  downloadBytes :: int
  requestCount :: int
  getCount :: int
  putCount :: int
  deleteCount :: int
  errorCount :: int
  active :: "int set"

record userCounter =
  username :: "string option"
  uploadCount :: int
  downloadCount :: int
  uc_deleteCount :: int
  accessCount :: int
  uc_uploadBytes :: int
  uc_downloadBytes :: int

definition zero_counter :: counter where
  "zero_counter = \<lparr>uploadBytes = 0, downloadBytes = 0, requestCount = 0, getCount = 0, putCount = 0,
     deleteCount = 0, errorCount = 0, active = {}\<rparr>"

definition isObjectRequest :: "string \<Rightarrow> bool" where
  "isObjectRequest action = (\<not> action \<in> set adminActions \<and> \<not> action \<in> set excludedActs)"

definition firstLevelPrefix :: "string \<Rightarrow> string" where
  "firstLevelPrefix key =
     (if key = [] \<or> HasPrefix key ''.trash/'' then []
      else let i = IndexByte key (CHR ''/'') in
        if i < 0 then [] else take (nat (i + 1)) key)"

definition counter_add :: "string \<Rightarrow> string \<Rightarrow> int \<Rightarrow> int option \<Rightarrow> counter \<Rightarrow> counter" where
  "counter_add action status sz actor c =
     (let c = c\<lparr>requestCount := wrap64 (requestCount c + 1)\<rparr>;
          c = (if status \<noteq> ''success'' then c\<lparr>errorCount := wrap64 (errorCount c + 1)\<rparr> else c);
          c = (if action \<in> set getActions
               then c\<lparr>getCount := wrap64 (getCount c + 1), downloadBytes := wrap64 (downloadBytes c + sz)\<rparr>
               else if action \<in> set putActions
               then c\<lparr>putCount := wrap64 (putCount c + 1), uploadBytes := wrap64 (uploadBytes c + sz)\<rparr>
               else if action \<in> set deleteActions
               then c\<lparr>deleteCount := wrap64 (deleteCount c + 1)\<rparr>
               else c)
      in case actor of None \<Rightarrow> c | Some a \<Rightarrow> c\<lparr>active := insert a (active c)\<rparr>)"

definition user_add :: "string \<Rightarrow> int \<Rightarrow> string \<Rightarrow> userCounter \<Rightarrow> userCounter" where
  "user_add action sz key c =
     (let c = (if action \<in> set putActions
               then c\<lparr>uploadCount := wrap64 (uploadCount c + 1), uc_uploadBytes := wrap64 (uc_uploadBytes c + sz)\<rparr>
               else if action \<in> set getActions
               then c\<lparr>downloadCount := wrap64 (downloadCount c + 1), uc_downloadBytes := wrap64 (uc_downloadBytes c + sz)\<rparr>
               else if action \<in> set deleteActions
               then c\<lparr>uc_deleteCount := wrap64 (uc_deleteCount c + 1)\<rparr>
               else c)
      in if key \<noteq> []
         then if action \<in> set putActions then c\<lparr>accessCount := wrap64 (accessCount c + 1)\<rparr>
              else if action \<in> set getActions then c\<lparr>accessCount := wrap64 (accessCount c + 1)\<rparr>
              else c
         else c)"

definition inWindow :: "time \<Rightarrow> time \<Rightarrow> int \<Rightarrow> bool" where
  "inWindow at now hours = (\<not> at < now - hours * Hour)"

text \<open>\<open>None\<close> is \<^verbatim>\<open>nil\<close>.\<close>

definition rfc3339 :: "time option \<Rightarrow> string option" where
  "rfc3339 t = (case t of None \<Rightarrow> None | Some t \<Rightarrow> Some (Format_RFC3339 t))"

text \<open>The requests it counts: \<^verbatim>\<open>auditRow\<close> of \<^verbatim>\<open>aggregate.go\<close>.\<close>

record auditRow =
  userID :: "int option"
  accountID :: "int option"
  bucket :: "string option"
  key :: "string option"
  action :: string
  status :: string
  at :: time
  sz :: int

abbreviation add_row :: "auditRow \<Rightarrow> counter \<Rightarrow> counter" where
  "add_row l \<equiv> counter_add (action l) (status l) (sz l) (userID l)"

abbreviation add_user_row :: "auditRow \<Rightarrow> userCounter \<Rightarrow> userCounter" where
  "add_user_row l \<equiv> user_add (action l) (sz l) (case key l of None \<Rightarrow> [] | Some k \<Rightarrow> k)"

section \<open>What a counter holds\<close>

text \<open>The totals over a list of requests, computed the direct way.\<close>

definition rows_of :: "string list \<Rightarrow> auditRow list \<Rightarrow> auditRow list" where
  "rows_of acts ls = filter (\<lambda>l. action l \<in> set acts) ls"

definition number :: "'a list \<Rightarrow> int" where
  "number ls = wrap64 (int (length ls))"

definition total_size :: "auditRow list \<Rightarrow> int" where
  "total_size ls = wrap64 (sum_list (map sz ls))"

definition tally :: "auditRow list \<Rightarrow> counter" where
  "tally ls = \<lparr>uploadBytes = total_size (rows_of putActions ls), downloadBytes = total_size (rows_of getActions ls),
     requestCount = number ls, getCount = number (rows_of getActions ls), putCount = number (rows_of putActions ls),
     deleteCount = number (rows_of deleteActions ls), errorCount = number (filter (\<lambda>l. status l \<noteq> ''success'') ls),
     active = {u. Some u \<in> userID ` set ls}\<rparr>"

definition user_tally :: "string option \<Rightarrow> auditRow list \<Rightarrow> userCounter" where
  "user_tally name ls = \<lparr>username = name, uploadCount = number (rows_of putActions ls),
     downloadCount = number (rows_of getActions ls), uc_deleteCount = number (rows_of deleteActions ls),
     accessCount = number (filter (\<lambda>l. key l \<noteq> None \<and> key l \<noteq> Some []) (rows_of (putActions @ getActions) ls)),
     uc_uploadBytes = total_size (rows_of putActions ls), uc_downloadBytes = total_size (rows_of getActions ls)\<rparr>"

lemma wrap64_add_right [simp]: "wrap64 (a + wrap64 b) = wrap64 (a + b)"
  using wrap64_add_left [of b a] by (simp add: add.commute)

lemma actions_disjoint:
  "a \<in> set getActions \<Longrightarrow> a \<notin> set putActions \<and> a \<notin> set deleteActions"
  "a \<in> set putActions \<Longrightarrow> a \<notin> set deleteActions"
  by (auto simp: getActions_def putActions_def deleteActions_def)

lemma rows_of_append: "rows_of acts (ls @ [l]) = rows_of acts ls @ (if action l \<in> set acts then [l] else [])"
  by (simp add: rows_of_def)

lemma number_append: "number (ls @ [l]) = wrap64 (number ls + 1)"
  by (simp add: number_def add.commute)

lemma total_size_append: "total_size (ls @ [l]) = wrap64 (total_size ls + sz l)"
  by (simp add: total_size_def)

lemma wrap64_0 [simp]: "wrap64 0 = 0"
  by (simp add: wrap64_def)

text \<open>What the four kinds of action do to a counter.\<close>

lemma kind_cases:
  obtains (get) "a \<in> set getActions" "a \<notin> set putActions" "a \<notin> set deleteActions"
  | (put) "a \<notin> set getActions" "a \<in> set putActions" "a \<notin> set deleteActions"
  | (delete) "a \<notin> set getActions" "a \<notin> set putActions" "a \<in> set deleteActions"
  | (other) "a \<notin> set getActions" "a \<notin> set putActions" "a \<notin> set deleteActions"
  using actions_disjoint [of a] by blast

lemmas tally_simps = rows_of_append number_append total_size_append

lemma counter_add_tally: "add_row l (tally ls) = tally (ls @ [l])"
proof -
  have "insert u {v. Some v \<in> userID ` set ls} = {v. v = u \<or> Some v \<in> userID ` set ls}" for u by auto
  then show ?thesis
    by (cases "action l" rule: kind_cases; cases "userID l"; cases "status l = ''success''")
      (simp_all add: counter_add_def tally_def tally_simps Let_def)
qed

lemma counter_tally: "fold add_row ls zero_counter = tally ls"
proof (induction ls rule: rev_induct)
  case Nil
  then show ?case by (simp add: tally_def zero_counter_def rows_of_def number_def total_size_def)
next
  case (snoc l ls)
  then show ?case by (simp add: counter_add_tally)
qed

lemma user_add_tally: "add_user_row l (user_tally name ls) = user_tally name (ls @ [l])"
  by (cases "action l" rule: kind_cases; cases "key l")
    (simp_all add: user_add_def user_tally_def tally_simps Let_def)

lemma user_counter_tally: "fold add_user_row ls \<lparr>username = name, uploadCount = 0, downloadCount = 0, uc_deleteCount = 0,
    accessCount = 0, uc_uploadBytes = 0, uc_downloadBytes = 0\<rparr> = user_tally name ls"
proof (induction ls rule: rev_induct)
  case Nil
  then show ?case by (simp add: user_tally_def rows_of_def number_def total_size_def)
next
  case (snoc l ls)
  then show ?case by (simp add: user_add_tally)
qed

end
