(* ===== verification/StatsAggregate.thy ===== *)
theory StatsAggregate
  imports StatsCount BucketStore
begin

text \<open>
  \<^verbatim>\<open>internal/stats/aggregate.go\<close>: the request statistics are computed from the audit log of the
  last 30 days in one pass and replace the tables in one transaction. A Go map is an
  association list in the order of insertion; Go leaves the order of iteration open, and no
  property here depends on it.
\<close>

section \<open>Loading\<close>

text \<open>The left join with \<^verbatim>\<open>object_records\<close>: a log has a row per record of its bucket name and key, or one row of size 0.\<close>

definition join_row :: "audit_row \<Rightarrow> int \<Rightarrow> auditRow" where
  "join_row a n = \<lparr>userID = a_tenant_user_id a, accountID = a_account_id a, bucket = a_bucket_name a, key = a_object_key a,
     action = a_action a, status = a_status a, at = a_created_at a, sz = n\<rparr>"

definition records_of :: "tenant_db \<Rightarrow> audit_row \<Rightarrow> object_row list" where
  "records_of d a = filter (\<lambda>r. a_bucket_name a = Some (o_bucket_name r) \<and> a_object_key a = Some (o_object_key r)) (object_records d)"

definition join_rows :: "tenant_db \<Rightarrow> audit_row \<Rightarrow> auditRow list" where
  "join_rows d a = (if records_of d a = [] then [join_row a 0] else map (\<lambda>r. join_row a (coalesce0 (o_size r))) (records_of d a))"

definition log_rows :: "time \<Rightarrow> tenant_db \<Rightarrow> auditRow list" where
  "log_rows since d = concat (map (join_rows d) (filter (\<lambda>a. since \<le> a_created_at a) (audit_logs d)))"

definition loadLogs :: "'e ext \<Rightarrow> time \<Rightarrow> ('e, auditRow list) io" where
  "loadLogs x since = wrap_err ''load audit logs'' (sql_query x (\<lambda>_. log_rows since))"

definition go_map :: "('k \<times> 'v) list \<Rightarrow> ('k \<times> 'v) list" where
  "go_map kvs = fold (\<lambda>(k, v). AList.update k v) kvs []"

definition loadBucketNames :: "'e ext \<Rightarrow> ('e, (int \<times> string) list) io" where
  "loadBucketNames x = wrap_err ''load buckets'' (sql_query x (\<lambda>_ d. go_map (map (\<lambda>b. (ID b, BucketName b)) (buckets d))))"

definition loadUsernames :: "'e ext \<Rightarrow> ('e, (int \<times> string) list) io" where
  "loadUsernames x = wrap_err ''load users'' (sql_query x (\<lambda>_ d. go_map (map (\<lambda>u. (usr_id u, usr_username u)) (tenant_users d))))"

section \<open>Counting\<close>

text \<open>The maps that the loop over the logs fills.\<close>

record aggregate =
  platform :: "(string \<times> counter) list"
  daily :: "(time \<times> counter) list"
  accounts :: "((int \<times> string) \<times> counter) list"
  bucketStats :: "((int \<times> string) \<times> counter) list"
  users :: "((int \<times> int \<times> string) \<times> userCounter) list"
  prefix_counts :: "((int \<times> string \<times> string) \<times> int) list"
  bucketAccount :: "(int \<times> int option) list"

definition setBucketAccount :: "int \<Rightarrow> int option \<Rightarrow> (int \<times> int option) list \<Rightarrow> (int \<times> int option) list" where
  "setBucketAccount bucketID account m = (case account of
     None \<Rightarrow> m
   | Some a \<Rightarrow> (case map_of m bucketID of
       None \<Rightarrow> AList.update bucketID (Some a) m
     | Some cur \<Rightarrow> (case cur of
         None \<Rightarrow> m
       | Some c \<Rightarrow> if c \<noteq> a then AList.update bucketID None m else m)))"

definition new_user :: "(int \<times> string) list \<Rightarrow> int \<Rightarrow> userCounter" where
  "new_user names u = \<lparr>username = map_of names u, uploadCount = 0, downloadCount = 0, uc_deleteCount = 0,
     accessCount = 0, uc_uploadBytes = 0, uc_downloadBytes = 0\<rparr>"

text \<open>One turn of the loop over the periods, with \<open>bid\<close> the bucket of the log, if it still exists.\<close>

definition count_period :: "time \<Rightarrow> (int \<times> string) list \<Rightarrow> auditRow \<Rightarrow> int option \<Rightarrow> string \<times> int \<Rightarrow> aggregate \<Rightarrow> aggregate" where
  "count_period now names l bid = (\<lambda>(period, hours) g.
     if \<not> inWindow (at l) now hours then g
     else let
       g = g\<lparr>platform := AList.map_entry period (add_row l) (platform g)\<rparr>;
       g = (case accountID l of None \<Rightarrow> g
            | Some acc \<Rightarrow> g\<lparr>accounts := AList.map_default (acc, period) (add_row l zero_counter) (add_row l) (accounts g)\<rparr>);
       g = (case bid of None \<Rightarrow> g
            | Some b \<Rightarrow> g\<lparr>bucketStats := AList.map_default (b, period) (add_row l zero_counter) (add_row l) (bucketStats g)\<rparr>);
       g = (case (accountID l, userID l) of
              (Some acc, Some u) \<Rightarrow> g\<lparr>users := AList.map_default (u, acc, period) (add_user_row l (new_user names u)) (add_user_row l) (users g)\<rparr>
            | _ \<Rightarrow> g)
     in (case (bid, key l) of
           (Some b, Some k) \<Rightarrow>
             if action l \<in> set putActions \<or> action l \<in> set getActions
             then g\<lparr>prefix_counts := AList.map_default (b, firstLevelPrefix k, period) 1 (\<lambda>n. wrap64 (n + 1)) (prefix_counts g),
                    bucketAccount := setBucketAccount b (accountID l) (bucketAccount g)\<rparr>
             else g
         | _ \<Rightarrow> g))"

text \<open>\<open>day_of t\<close> is \<^verbatim>\<open>time.Date(t.Year(), t.Month(), t.Day(), 0, 0, 0, 0, time.UTC)\<close>.\<close>

definition day_of :: "time \<Rightarrow> time" where
  "day_of t = t div Day * Day"

definition day_cut :: "time \<Rightarrow> time" where
  "day_cut now = day_of (now - dailyRollupDays * Day)"

definition bucket_id_of :: "(int \<times> string) list \<Rightarrow> auditRow \<Rightarrow> int option" where
  "bucket_id_of bnames l = (case bucket l of None \<Rightarrow> None | Some n \<Rightarrow> map_of (go_map (map prod.swap bnames)) n)"

definition count_log :: "time \<Rightarrow> (int \<times> string) list \<Rightarrow> (int \<times> string) list \<Rightarrow> auditRow \<Rightarrow> aggregate \<Rightarrow> aggregate" where
  "count_log now bnames names l g =
     (if \<not> isObjectRequest (action l) then g
      else let
        g = fold (count_period now names l (bucket_id_of bnames l)) periodHours g;
        day = day_of (at l)
      in if \<not> day < day_cut now
         then g\<lparr>daily := AList.map_default day (add_row l zero_counter) (add_row l) (daily g)\<rparr>
         else g)"

definition no_requests :: aggregate where
  "no_requests = \<lparr>platform = map (\<lambda>(p, _). (p, zero_counter)) periodHours, daily = [], accounts = [], bucketStats = [],
     users = [], prefix_counts = [], bucketAccount = []\<rparr>"

definition count_logs :: "time \<Rightarrow> (int \<times> string) list \<Rightarrow> (int \<times> string) list \<Rightarrow> auditRow list \<Rightarrow> aggregate" where
  "count_logs now bnames names logs = fold (count_log now bnames names) logs no_requests"

section \<open>Storing\<close>

definition counts_of :: "counter \<Rightarrow> time \<Rightarrow> stat_row" where
  "counts_of c now = \<lparr>st_request_count = requestCount c, st_upload_bytes = uploadBytes c, st_download_bytes = downloadBytes c,
     st_get_count = getCount c, st_put_count = putCount c, st_delete_count = deleteCount c, st_collected_at = now\<rparr>"

definition platform_row :: "time \<Rightarrow> string \<times> counter \<Rightarrow> platform_stat" where
  "platform_row now = (\<lambda>(period, c). stat_row.extend (counts_of c now)
     \<lparr>ps_period = period, ps_error_count = errorCount c, ps_active_users = int (card (active c))\<rparr>)"

definition daily_row :: "time \<Rightarrow> time \<times> counter \<Rightarrow> daily_stat" where
  "daily_row now = (\<lambda>(day, c). stat_row.extend (counts_of c now) \<lparr>ds_stat_date = day, ds_error_count = errorCount c\<rparr>)"

definition account_row :: "time \<Rightarrow> (int \<times> string) \<times> counter \<Rightarrow> account_stat" where
  "account_row now = (\<lambda>((acc, period), c). stat_row.extend (counts_of c now)
     \<lparr>as_account_id = acc, as_period = period, as_error_count = errorCount c, as_active_users = int (card (active c))\<rparr>)"

text \<open>\<open>bucketAccount[id]\<close> of a missing key is the zero value \<^verbatim>\<open>nil\<close>.\<close>

definition account_of :: "aggregate \<Rightarrow> int \<Rightarrow> int option" where
  "account_of g b = (case map_of (bucketAccount g) b of None \<Rightarrow> None | Some a \<Rightarrow> a)"

definition bucket_row :: "time \<Rightarrow> aggregate \<Rightarrow> string \<Rightarrow> (int \<times> string) \<times> counter \<Rightarrow> bucket_stat" where
  "bucket_row now g name = (\<lambda>((b, period), c). stat_row.extend (counts_of c now)
     \<lparr>bs_bucket_id = b, bs_period = period, bs_account_id = account_of g b, bs_bucket_name = name\<rparr>)"

definition user_row_of :: "time \<Rightarrow> (int \<times> int \<times> string) \<times> userCounter \<Rightarrow> user_stat" where
  "user_row_of now = (\<lambda>((u, acc, period), c). \<lparr>us_user_id = u, us_account_id = acc, us_period = period, us_username = username c,
     us_upload_count = uploadCount c, us_download_count = downloadCount c, us_delete_count = uc_deleteCount c,
     us_access_count = accessCount c, us_upload_bytes = uc_uploadBytes c, us_download_bytes = uc_downloadBytes c, us_collected_at = now\<rparr>)"

definition prefix_row :: "time \<Rightarrow> aggregate \<Rightarrow> (int \<times> string \<times> string) \<times> int \<Rightarrow> prefix_stat" where
  "prefix_row now g = (\<lambda>((b, pfx, period), n). \<lparr>xs_bucket_id = b, xs_prefix = pfx, xs_period = period,
     xs_account_id = account_of g b, xs_access_count = n, xs_collected_at = now\<rparr>)"

definition clear_tables :: "(tenant_db \<Rightarrow> tenant_db) list" where
  "clear_tables = [prefix_request_stats_update (\<lambda>_. []), user_request_stats_update (\<lambda>_. []), bucket_request_stats_update (\<lambda>_. []),
     account_request_stats_update (\<lambda>_. []), daily_platform_request_stats_update (\<lambda>_. []), platform_request_stats_update (\<lambda>_. [])]"

text \<open>A loop of statements, each with the same text for its error.\<close>

definition exec_all :: "'e ext \<Rightarrow> string \<Rightarrow> ('r \<Rightarrow> tenant_db \<Rightarrow> tenant_db) \<Rightarrow> 'r list \<Rightarrow> ('e, unit) io" where
  "exec_all x msg stmt rows = for_each (\<lambda>r. wrap_err msg (sql_exec x (\<lambda>_. stmt r))) rows"

text \<open>A bucket, or the bucket of a prefix, that is not in the table is passed over.\<close>

definition insert_bucket_stat :: "'e ext \<Rightarrow> time \<Rightarrow> (int \<times> string) list \<Rightarrow> aggregate \<Rightarrow> (int \<times> string) \<times> counter \<Rightarrow> ('e, unit) io" where
  "insert_bucket_stat x now bnames g kc = (case map_of bnames (fst (fst kc)) of
     None \<Rightarrow> ret ()
   | Some name \<Rightarrow> wrap_err ''bucket stats'' (sql_exec x (\<lambda>_. bucket_request_stats_update (\<lambda>t. t @ [bucket_row now g name kc]))))"

definition insert_prefix_stat :: "'e ext \<Rightarrow> time \<Rightarrow> (int \<times> string) list \<Rightarrow> aggregate \<Rightarrow> (int \<times> string \<times> string) \<times> int \<Rightarrow> ('e, unit) io" where
  "insert_prefix_stat x now bnames g kn = (case map_of bnames (fst (fst kn)) of
     None \<Rightarrow> ret ()
   | Some _ \<Rightarrow> wrap_err ''prefix stats'' (sql_exec x (\<lambda>_. prefix_request_stats_update (\<lambda>t. t @ [prefix_row now g kn]))))"

definition store_stats :: "'e ext \<Rightarrow> time \<Rightarrow> (int \<times> string) list \<Rightarrow> aggregate \<Rightarrow> ('e, unit) io" where
  "store_stats x now bnames g =
     bind (exec_all x ''clear request stats'' (\<lambda>q. q) clear_tables) (\<lambda>_.
     bind (exec_all x ''platform stats'' (\<lambda>r. platform_request_stats_update (\<lambda>t. t @ [platform_row now r])) (platform g)) (\<lambda>_.
     bind (exec_all x ''daily stats'' (\<lambda>r. daily_platform_request_stats_update (\<lambda>t. t @ [daily_row now r])) (daily g)) (\<lambda>_.
     bind (exec_all x ''account stats'' (\<lambda>r. account_request_stats_update (\<lambda>t. t @ [account_row now r])) (accounts g)) (\<lambda>_.
     bind (for_each (insert_bucket_stat x now bnames g) (bucketStats g)) (\<lambda>_.
     bind (exec_all x ''user stats'' (\<lambda>r. user_request_stats_update (\<lambda>t. t @ [user_row_of now r])) (users g)) (\<lambda>_.
     for_each (insert_prefix_stat x now bnames g) (prefix_counts g)))))))"

record AggregateResult =
  Periods :: nat
  Accounts :: nat
  res_Buckets :: nat
  Users :: nat
  Prefixes :: nat
  Daily :: nat
  CollectedAt :: time

definition AggregateRequests :: "'e ext \<Rightarrow> time \<Rightarrow> ('e, AggregateResult) io" where
  "AggregateRequests x now =
     bind (loadLogs x (now - 720 * Hour)) (\<lambda>logs.
     bind (loadBucketNames x) (\<lambda>bnames.
     bind (loadUsernames x) (\<lambda>names.
     let g = count_logs now bnames names logs in
     bind (sql_transaction x (\<lambda>m. m) (\<lambda>m. m) (store_stats x now bnames g)) (\<lambda>_.
     ret \<lparr>Periods = length periodHours, Accounts = card (fst ` fst ` set (accounts g)),
       res_Buckets = card (fst ` fst ` set (filter (\<lambda>kc. map_of bnames (fst (fst kc)) \<noteq> None) (bucketStats g))),
       Users = length (users g), Prefixes = length (prefix_counts g), Daily = length (daily g), CollectedAt = now\<rparr>))))"

section \<open>Facts about storing\<close>

lemma exec_all_result:
  "exec_all x msg stmt rows s = Some (Inr (), t) \<Longrightarrow> db t = fold stmt rows (db s)"
proof (induction rows arbitrary: s)
  case (Cons r rows)
  then obtain u where "wrap_err msg (sql_exec x (\<lambda>_. stmt r)) s = Some (Inr (), u)" and "exec_all x msg stmt rows u = Some (Inr (), t)"
    by (auto simp: exec_all_def elim: bind_Inr_E)
  moreover from this(1) have "db u = stmt r (db s)"
    by (auto simp: io_evals split: prod.splits sql_reply.splits)
  ultimately show ?case using Cons.IH by simp
qed (simp add: exec_all_def ret_apply)

text \<open>
  The contract of a table of the database that is filled row by row: updates of the field compose.
\<close>

locale table_field =
  fixes upd :: "('r list \<Rightarrow> 'r list) \<Rightarrow> tenant_db \<Rightarrow> tenant_db"
  assumes upd_upd: "upd f (upd g d) = upd (\<lambda>t. f (g t)) d"
    and upd_id: "upd (\<lambda>t. t) d = d"
begin

lemma rows_appended:
  assumes "\<And>r s t. r \<in> set rows \<Longrightarrow> ins r s = Some (Inr (), t) \<Longrightarrow> db t = upd (\<lambda>t. t @ f r) (db s)"
  shows "for_each ins rows s = Some (Inr (), t) \<Longrightarrow> db t = upd (\<lambda>t. t @ concat (map f rows)) (db s)"
  using assms
proof (induction rows arbitrary: s)
  case (Cons r rows)
  then obtain u where u: "ins r s = Some (Inr (), u)" "for_each ins rows u = Some (Inr (), t)"
    by (auto elim: bind_Inr_E)
  have "db t = upd (\<lambda>t. t @ concat (map f rows)) (db u)" using Cons.IH [OF u(2)] Cons.prems(2) by simp
  moreover have "db u = upd (\<lambda>t. t @ f r) (db s)" using Cons.prems(2) u(1) by simp
  ultimately show ?case by (simp add: upd_upd)
qed (simp add: ret_apply upd_id)

lemma exec_all_append:
  assumes "exec_all x msg (\<lambda>r. upd (\<lambda>t. t @ [f r])) rows s = Some (Inr (), t)"
  shows "db t = upd (\<lambda>t. t @ map f rows) (db s)"
proof -
  have "db t = upd (\<lambda>t. t @ concat (map (\<lambda>r. [f r]) rows)) (db s)"
    using assms unfolding exec_all_def
    by (rule rows_appended [rotated]) (auto simp: io_evals split: prod.splits sql_reply.splits)
  then show ?thesis by simp
qed

end

interpretation platform_table: table_field platform_request_stats_update by unfold_locales (simp_all add: comp_def)
interpretation daily_table: table_field daily_platform_request_stats_update by unfold_locales (simp_all add: comp_def)
interpretation account_table: table_field account_request_stats_update by unfold_locales (simp_all add: comp_def)
interpretation bucket_table: table_field bucket_request_stats_update by unfold_locales (simp_all add: comp_def)
interpretation user_table: table_field user_request_stats_update by unfold_locales (simp_all add: comp_def)
interpretation prefix_table: table_field prefix_request_stats_update by unfold_locales (simp_all add: comp_def)

definition bucket_rows :: "time \<Rightarrow> (int \<times> string) list \<Rightarrow> aggregate \<Rightarrow> (int \<times> string) \<times> counter \<Rightarrow> bucket_stat list" where
  "bucket_rows now bnames g kc = (case map_of bnames (fst (fst kc)) of None \<Rightarrow> [] | Some name \<Rightarrow> [bucket_row now g name kc])"

definition prefix_rows :: "time \<Rightarrow> (int \<times> string) list \<Rightarrow> aggregate \<Rightarrow> (int \<times> string \<times> string) \<times> int \<Rightarrow> prefix_stat list" where
  "prefix_rows now bnames g kn = (case map_of bnames (fst (fst kn)) of None \<Rightarrow> [] | Some _ \<Rightarrow> [prefix_row now g kn])"

text \<open>The tables after a successful run: nothing of the old ones, and everything that was counted.\<close>

definition replace_stats :: "time \<Rightarrow> (int \<times> string) list \<Rightarrow> aggregate \<Rightarrow> tenant_db \<Rightarrow> tenant_db" where
  "replace_stats now bnames g d = d\<lparr>platform_request_stats := map (platform_row now) (platform g),
     daily_platform_request_stats := map (daily_row now) (daily g), account_request_stats := map (account_row now) (accounts g),
     bucket_request_stats := concat (map (bucket_rows now bnames g) (bucketStats g)),
     user_request_stats := map (user_row_of now) (users g),
     prefix_request_stats := concat (map (prefix_rows now bnames g) (prefix_counts g))\<rparr>"

lemma store_stats_result:
  assumes "store_stats x now bnames g s = Some (Inr (), t)"
  shows "db t = replace_stats now bnames g (db s)"
proof -
  from assms obtain s1 s2 s3 s4 s5 s6 where
    clear: "exec_all x ''clear request stats'' (\<lambda>q. q) clear_tables s = Some (Inr (), s1)" and
    plat: "exec_all x ''platform stats'' (\<lambda>r. platform_request_stats_update (\<lambda>t. t @ [platform_row now r])) (platform g) s1 = Some (Inr (), s2)" and
    day: "exec_all x ''daily stats'' (\<lambda>r. daily_platform_request_stats_update (\<lambda>t. t @ [daily_row now r])) (daily g) s2 = Some (Inr (), s3)" and
    acc: "exec_all x ''account stats'' (\<lambda>r. account_request_stats_update (\<lambda>t. t @ [account_row now r])) (accounts g) s3 = Some (Inr (), s4)" and
    bkt: "for_each (insert_bucket_stat x now bnames g) (bucketStats g) s4 = Some (Inr (), s5)" and
    usr: "exec_all x ''user stats'' (\<lambda>r. user_request_stats_update (\<lambda>t. t @ [user_row_of now r])) (users g) s5 = Some (Inr (), s6)" and
    pfx: "for_each (insert_prefix_stat x now bnames g) (prefix_counts g) s6 = Some (Inr (), t)"
    unfolding store_stats_def by (elim bind_Inr_E) (simp only: unit_all_eq1)
  have bkt': "db s5 = bucket_request_stats_update (\<lambda>t. t @ concat (map (bucket_rows now bnames g) (bucketStats g))) (db s4)"
    by (rule bucket_table.rows_appended [OF _ bkt])
      (auto simp: insert_bucket_stat_def bucket_rows_def io_evals split: option.splits prod.splits sql_reply.splits)
  have pfx': "db t = prefix_request_stats_update (\<lambda>t. t @ concat (map (prefix_rows now bnames g) (prefix_counts g))) (db s6)"
    by (rule prefix_table.rows_appended [OF _ pfx])
      (auto simp: insert_prefix_stat_def prefix_rows_def io_evals split: option.splits prod.splits sql_reply.splits)
  show ?thesis
    using exec_all_result [OF clear] platform_table.exec_all_append [OF plat] daily_table.exec_all_append [OF day]
      account_table.exec_all_append [OF acc] bkt' user_table.exec_all_append [OF usr] pfx'
    by (simp add: replace_stats_def clear_tables_def)
qed

lemma load_result:
  assumes "wrap_err msg (sql_query x (\<lambda>_. f)) s = Some (r, t)"
  shows "db t = db s \<and> (\<forall>v. r = Inr v \<longrightarrow> v = f (db s))"
  using assms by (auto simp: io_evals split: prod.splits sql_reply.splits)

text \<open>What a run counts: the names of buckets and users, and the totals, in the database it starts from.\<close>

definition bucket_names :: "tenant_db \<Rightarrow> (int \<times> string) list" where
  "bucket_names d = go_map (map (\<lambda>b. (ID b, BucketName b)) (buckets d))"

definition user_names :: "tenant_db \<Rightarrow> (int \<times> string) list" where
  "user_names d = go_map (map (\<lambda>u. (usr_id u, usr_username u)) (tenant_users d))"

definition counted :: "time \<Rightarrow> tenant_db \<Rightarrow> aggregate" where
  "counted now d = count_logs now (bucket_names d) (user_names d) (log_rows (now - 720 * Hour) d)"

lemma Aggregate_run:
  assumes "AggregateRequests x now s = Some (r, t)"
  shows "db t = db s \<and> r \<notin> range Inr \<or> db t = replace_stats now (bucket_names (db s)) (counted now (db s)) (db s)"
  using assms unfolding AggregateRequests_def
proof (cases rule: bind_E)
  case (stop err)
  then show ?thesis using load_result [OF stop(1) [unfolded loadLogs_def]] by auto
next
  case (go logs s1)
  note s1 = load_result [OF go(1) [unfolded loadLogs_def]]
  from go(2) show ?thesis
  proof (cases rule: bind_E)
    case (stop err)
    then show ?thesis using s1 load_result [OF stop(1) [unfolded loadBucketNames_def]] by auto
  next
    case (go bnames s2)
    note s2 = load_result [OF go(1) [unfolded loadBucketNames_def]]
    from go(2) show ?thesis
    proof (cases rule: bind_E)
      case (stop err)
      then show ?thesis using s1 s2 load_result [OF stop(1) [unfolded loadUsernames_def]] by auto
    next
      case (go names s3)
      note s3 = load_result [OF go(1) [unfolded loadUsernames_def]]
      have g: "count_logs now bnames names logs = counted now (db s)" "bnames = bucket_names (db s)" "db s3 = db s"
        using s1 s2 s3 by (simp_all add: counted_def bucket_names_def user_names_def)
      let ?tx = "sql_transaction x (\<lambda>m. m) (\<lambda>m. m) (store_stats x now bnames (count_logs now bnames names logs))"
      have store: "store_stats x now bnames (count_logs now bnames names logs) = store_stats x now (bucket_names (db s)) (counted now (db s))"
        unfolding g(1) by (simp only: g(2))
      have tx: "db u = db s \<and> q \<notin> range Inr \<or> db u = replace_stats now (bucket_names (db s)) (counted now (db s)) (db s)"
        if "?tx s3 = Some (q, u)" for q u
        using that [unfolded store] by (cases rule: sql_transaction_plain_E) (auto simp: g(3) dest: store_stats_result)
      from go(2) show ?thesis unfolding Let_def
        by (cases rule: bind_E) (use tx in \<open>auto simp: ret_apply\<close>)
    qed
  qed
qed

section \<open>Facts about counting\<close>

text \<open>
  The contract of a map of accumulators, as all maps of the loop are: a log is added under some
  keys, each once, to what is there or to an initial value.
\<close>

locale accumulator =
  fixes keys :: "'l \<Rightarrow> 'k list" and add :: "'l \<Rightarrow> 'c \<Rightarrow> 'c" and zero :: "'k \<Rightarrow> 'c"
  assumes distinct_keys: "distinct (keys l)"
begin

definition hit :: "'l \<Rightarrow> ('k \<times> 'c) list \<Rightarrow> ('k \<times> 'c) list" where
  "hit l m = fold (\<lambda>k. AList.map_default k (add l (zero k)) (add l)) (keys l) m"

lemma lookup_defaults:
  "distinct ks \<Longrightarrow> map_of (fold (\<lambda>k. AList.map_default k (add l (zero k)) (add l)) ks m) k =
     (if k \<in> set ks then Some (add l (case map_of m k of None \<Rightarrow> zero k | Some c \<Rightarrow> c)) else map_of m k)"
  by (induction ks arbitrary: m) (auto simp: AList.map_of_map_default split: option.split)

lemma lookup_hit: "map_of (hit l m) k =
    (if k \<in> set (keys l) then Some (add l (case map_of m k of None \<Rightarrow> zero k | Some c \<Rightarrow> c)) else map_of m k)"
  unfolding hit_def by (rule lookup_defaults [OF distinct_keys])

lemma lookup_hits: "map_of (fold hit ls []) k =
    (let mine = filter (\<lambda>l. k \<in> set (keys l)) ls in if mine = [] then None else Some (fold add mine (zero k)))"
  by (induction ls rule: rev_induct) (auto simp: lookup_hit Let_def split: option.split)

lemma distinct_hits: "distinct (map fst m) \<Longrightarrow> distinct (map fst (fold hit ls m))"
proof (induction ls arbitrary: m)
  case (Cons l ls)
  have "distinct (map fst (fold (\<lambda>k. AList.map_default k (add l (zero k)) (add l)) ks m))" if "distinct (map fst m)" for ks m
    using that by (induction ks arbitrary: m) (simp_all add: AList.distinct_map_default)
  then show ?case using Cons unfolding fold.simps comp_def hit_def by blast
qed simp

end

text \<open>The periods whose window a request is in, and the keys it counts under.\<close>

definition windows :: "time \<Rightarrow> auditRow \<Rightarrow> string list" where
  "windows now l = map fst (filter (\<lambda>p. inWindow (at l) now (snd p)) periodHours)"

definition account_keys :: "time \<Rightarrow> auditRow \<Rightarrow> (int \<times> string) list" where
  "account_keys now l = (if isObjectRequest (action l)
     then (case accountID l of None \<Rightarrow> [] | Some a \<Rightarrow> map (Pair a) (windows now l)) else [])"

definition bucket_keys :: "time \<Rightarrow> (int \<times> string) list \<Rightarrow> auditRow \<Rightarrow> (int \<times> string) list" where
  "bucket_keys now bnames l = (if isObjectRequest (action l)
     then (case bucket_id_of bnames l of None \<Rightarrow> [] | Some b \<Rightarrow> map (Pair b) (windows now l)) else [])"

definition user_keys :: "time \<Rightarrow> auditRow \<Rightarrow> (int \<times> int \<times> string) list" where
  "user_keys now l = (if isObjectRequest (action l)
     then (case (accountID l, userID l) of (Some a, Some u) \<Rightarrow> map (\<lambda>p. (u, a, p)) (windows now l) | _ \<Rightarrow> []) else [])"

definition prefix_keys :: "time \<Rightarrow> (int \<times> string) list \<Rightarrow> auditRow \<Rightarrow> (int \<times> string \<times> string) list" where
  "prefix_keys now bnames l = (if isObjectRequest (action l) \<and> (action l \<in> set putActions \<or> action l \<in> set getActions)
     then (case (bucket_id_of bnames l, key l) of (Some b, Some k) \<Rightarrow> map (\<lambda>p. (b, firstLevelPrefix k, p)) (windows now l) | _ \<Rightarrow> []) else [])"

definition day_keys :: "time \<Rightarrow> auditRow \<Rightarrow> time list" where
  "day_keys now l = (if isObjectRequest (action l) \<and> \<not> day_of (at l) < day_cut now then [day_of (at l)] else [])"

lemma distinct_windows: "distinct (windows now l)"
  by (simp add: windows_def periodHours_def)

lemma distinct_day_keys: "distinct (day_keys now l)"
  by (simp add: day_keys_def)

interpretation account_counts: accumulator "account_keys now" add_row "\<lambda>_. zero_counter" for now
  by unfold_locales (simp add: account_keys_def distinct_windows distinct_map inj_on_def split: option.split)

interpretation bucket_counts: accumulator "bucket_keys now bnames" add_row "\<lambda>_. zero_counter" for now bnames
  by unfold_locales (simp add: bucket_keys_def distinct_windows distinct_map inj_on_def split: option.split)

interpretation user_counts: accumulator "user_keys now" add_user_row "\<lambda>k. new_user names (fst k)" for now names
  by unfold_locales (simp add: user_keys_def distinct_windows distinct_map inj_on_def split: option.split)

interpretation prefix_numbers: accumulator "prefix_keys now bnames" "\<lambda>_ n. wrap64 (n + 1)" "\<lambda>_. 0" for now bnames
  by unfold_locales (simp add: prefix_keys_def distinct_windows distinct_map inj_on_def split: option.split)

interpretation day_counts: accumulator "day_keys now" add_row "\<lambda>_. zero_counter" for now
  by unfold_locales (rule distinct_day_keys)

text \<open>Each map of the loop is such a map of accumulators.\<close>

lemma fold_field:
  assumes "\<And>p g. sel (f p g) = (if Q p then h p (sel g) else sel g)"
  shows "sel (fold f ps g) = fold h (filter Q ps) (sel g)"
  using assms by (induction ps arbitrary: g) simp_all

lemma fold_none:
  assumes "\<And>p g. sel (f p g) = sel g"
  shows "sel (fold f ps g) = sel g"
  using assms by (induction ps arbitrary: g) simp_all

lemma count_period_fields:
  "accounts (count_period now names l bid p g) = (if inWindow (at l) now (snd p)
     then (case accountID l of None \<Rightarrow> accounts g
           | Some a \<Rightarrow> AList.map_default (a, fst p) (add_row l zero_counter) (add_row l) (accounts g)) else accounts g)"
  "bucketStats (count_period now names l bid p g) = (if inWindow (at l) now (snd p)
     then (case bid of None \<Rightarrow> bucketStats g
           | Some b \<Rightarrow> AList.map_default (b, fst p) (add_row l zero_counter) (add_row l) (bucketStats g)) else bucketStats g)"
  "platform (count_period now names l bid p g) = (if inWindow (at l) now (snd p)
     then AList.map_entry (fst p) (add_row l) (platform g) else platform g)"
  "users (count_period now names l bid p g) = (if inWindow (at l) now (snd p)
     then (case (accountID l, userID l) of (Some a, Some u) \<Rightarrow>
         AList.map_default (u, a, fst p) (add_user_row l (new_user names u)) (add_user_row l) (users g) | _ \<Rightarrow> users g) else users g)"
  "prefix_counts (count_period now names l bid p g) = (if inWindow (at l) now (snd p)
     then (case (bid, key l) of (Some b, Some k) \<Rightarrow> if action l \<in> set putActions \<or> action l \<in> set getActions
         then AList.map_default (b, firstLevelPrefix k, fst p) 1 (\<lambda>n. wrap64 (n + 1)) (prefix_counts g) else prefix_counts g
       | _ \<Rightarrow> prefix_counts g) else prefix_counts g)"
  "bucketAccount (count_period now names l bid p g) = (if inWindow (at l) now (snd p)
     then (case (bid, key l) of (Some b, Some k) \<Rightarrow> if action l \<in> set putActions \<or> action l \<in> set getActions
         then setBucketAccount b (accountID l) (bucketAccount g) else bucketAccount g
       | _ \<Rightarrow> bucketAccount g) else bucketAccount g)"
  "daily (count_period now names l bid p g) = daily g"
  by (cases p; cases bid; cases "key l"; cases "accountID l"; cases "userID l"; simp add: count_period_def Let_def)+

lemma fold_skip [simp]: "fold (\<lambda>_ m. m) ps m = m"
  by (induction ps) simp_all

lemma count_periods_fields:
  fixes now names l bid g
  defines "g' \<equiv> fold (count_period now names l bid) periodHours g"
  shows "accounts g' = (case accountID l of None \<Rightarrow> accounts g
      | Some a \<Rightarrow> fold (\<lambda>k. AList.map_default k (add_row l zero_counter) (add_row l)) (map (Pair a) (windows now l)) (accounts g))"
    and "bucketStats g' = (case bid of None \<Rightarrow> bucketStats g
      | Some b \<Rightarrow> fold (\<lambda>k. AList.map_default k (add_row l zero_counter) (add_row l)) (map (Pair b) (windows now l)) (bucketStats g))"
    and "platform g' = fold (\<lambda>p. AList.map_entry p (add_row l)) (windows now l) (platform g)"
    and "users g' = (case (accountID l, userID l) of (Some a, Some u) \<Rightarrow>
         fold (\<lambda>k. AList.map_default k (add_user_row l (new_user names (fst k))) (add_user_row l)) (map (\<lambda>p. (u, a, p)) (windows now l)) (users g)
       | _ \<Rightarrow> users g)"
    and "prefix_counts g' = (case (bid, key l) of (Some b, Some k) \<Rightarrow> if action l \<in> set putActions \<or> action l \<in> set getActions
         then fold (\<lambda>k. AList.map_default k 1 (\<lambda>n. wrap64 (n + 1))) (map (\<lambda>p. (b, firstLevelPrefix k, p)) (windows now l)) (prefix_counts g)
         else prefix_counts g | _ \<Rightarrow> prefix_counts g)"
    and "daily g' = daily g"
proof -
  let ?Q = "\<lambda>p. inWindow (at l) now (snd p)" and ?f = "count_period now names l bid"
  note fields = fold_field [where f = ?f and Q = ?Q and ps = periodHours and g = g, folded g'_def]
  show "accounts g' = (case accountID l of None \<Rightarrow> accounts g
      | Some a \<Rightarrow> fold (\<lambda>k. AList.map_default k (add_row l zero_counter) (add_row l)) (map (Pair a) (windows now l)) (accounts g))"
    by (subst fields [where sel = accounts, OF count_period_fields(1)])
      (cases "accountID l"; simp add: windows_def fold_map comp_def)
  show "bucketStats g' = (case bid of None \<Rightarrow> bucketStats g
      | Some b \<Rightarrow> fold (\<lambda>k. AList.map_default k (add_row l zero_counter) (add_row l)) (map (Pair b) (windows now l)) (bucketStats g))"
    by (subst fields [where sel = bucketStats, OF count_period_fields(2)])
      (cases bid; simp add: windows_def fold_map comp_def)
  show "platform g' = fold (\<lambda>p. AList.map_entry p (add_row l)) (windows now l) (platform g)"
    by (subst fields [where sel = platform, OF count_period_fields(3)]) (simp add: windows_def fold_map comp_def)
  show "users g' = (case (accountID l, userID l) of (Some a, Some u) \<Rightarrow>
         fold (\<lambda>k. AList.map_default k (add_user_row l (new_user names (fst k))) (add_user_row l)) (map (\<lambda>p. (u, a, p)) (windows now l)) (users g)
       | _ \<Rightarrow> users g)"
    by (subst fields [where sel = users, OF count_period_fields(4)])
      (cases "accountID l"; cases "userID l"; simp add: windows_def fold_map comp_def)
  show "prefix_counts g' = (case (bid, key l) of (Some b, Some k) \<Rightarrow> if action l \<in> set putActions \<or> action l \<in> set getActions
         then fold (\<lambda>k. AList.map_default k 1 (\<lambda>n. wrap64 (n + 1))) (map (\<lambda>p. (b, firstLevelPrefix k, p)) (windows now l)) (prefix_counts g)
         else prefix_counts g | _ \<Rightarrow> prefix_counts g)"
    by (subst fields [where sel = prefix_counts, OF count_period_fields(5)])
      (cases bid; cases "key l"; simp add: windows_def fold_map comp_def)
  show "daily g' = daily g"
    unfolding g'_def by (rule fold_none [where sel = daily, OF count_period_fields(7)])
qed

lemma wrap64_1: "wrap64 1 = 1"
  by (simp add: wrap64_def)

lemma count_log_fields:
  "accounts (count_log now bnames names l g) = account_counts.hit now l (accounts g)"
  "bucketStats (count_log now bnames names l g) = bucket_counts.hit now bnames l (bucketStats g)"
  "users (count_log now bnames names l g) = user_counts.hit now names l (users g)"
  "prefix_counts (count_log now bnames names l g) = prefix_numbers.hit now bnames l (prefix_counts g)"
  "daily (count_log now bnames names l g) = day_counts.hit now l (daily g)"
  "platform (count_log now bnames names l g) =
     (if isObjectRequest (action l) then fold (\<lambda>p. AList.map_entry p (add_row l)) (windows now l) (platform g) else platform g)"
proof -
  let ?g = "fold (count_period now names l (bucket_id_of bnames l)) periodHours g"
  have rest: "accounts (count_log now bnames names l g) = (if isObjectRequest (action l) then accounts ?g else accounts g)"
    "bucketStats (count_log now bnames names l g) = (if isObjectRequest (action l) then bucketStats ?g else bucketStats g)"
    "users (count_log now bnames names l g) = (if isObjectRequest (action l) then users ?g else users g)"
    "prefix_counts (count_log now bnames names l g) = (if isObjectRequest (action l) then prefix_counts ?g else prefix_counts g)"
    "platform (count_log now bnames names l g) = (if isObjectRequest (action l) then platform ?g else platform g)"
    "daily (count_log now bnames names l g) = (if isObjectRequest (action l) \<and> \<not> day_of (at l) < day_cut now
       then AList.map_default (day_of (at l)) (add_row l zero_counter) (add_row l) (daily ?g)
       else if isObjectRequest (action l) then daily ?g else daily g)"
    by (simp_all add: count_log_def Let_def)
  note simps = rest count_periods_fields
  show "accounts (count_log now bnames names l g) = account_counts.hit now l (accounts g)"
    unfolding simps by (cases "accountID l"; simp add: account_counts.hit_def account_keys_def)
  show "bucketStats (count_log now bnames names l g) = bucket_counts.hit now bnames l (bucketStats g)"
    unfolding simps by (cases "bucket_id_of bnames l"; simp add: bucket_counts.hit_def bucket_keys_def)
  show "users (count_log now bnames names l g) = user_counts.hit now names l (users g)"
    unfolding simps by (cases "accountID l"; cases "userID l"; simp add: user_counts.hit_def user_keys_def)
  show "prefix_counts (count_log now bnames names l g) = prefix_numbers.hit now bnames l (prefix_counts g)"
    unfolding simps by (cases "bucket_id_of bnames l"; cases "key l"; simp add: prefix_numbers.hit_def prefix_keys_def wrap64_1)
  show "daily (count_log now bnames names l g) = day_counts.hit now l (daily g)"
    unfolding simps by (simp add: day_counts.hit_def day_keys_def)
  show "platform (count_log now bnames names l g) =
     (if isObjectRequest (action l) then fold (\<lambda>p. AList.map_entry p (add_row l)) (windows now l) (platform g) else platform g)"
    unfolding simps by simp
qed

lemma fold_sel: "(\<And>l g. sel (f l g) = h l (sel g)) \<Longrightarrow> sel (fold f ls g) = fold h ls (sel g)"
  by (induction ls arbitrary: g) simp_all

lemma count_logs_fields:
  "accounts (count_logs now bnames names logs) = fold (account_counts.hit now) logs []"
  "bucketStats (count_logs now bnames names logs) = fold (bucket_counts.hit now bnames) logs []"
  "users (count_logs now bnames names logs) = fold (user_counts.hit now names) logs []"
  "prefix_counts (count_logs now bnames names logs) = fold (prefix_numbers.hit now bnames) logs []"
  "daily (count_logs now bnames names logs) = fold (day_counts.hit now) logs []"
proof -
  let ?f = "count_log now bnames names"
  note field = fold_sel [where f = ?f and g = no_requests]
  show "accounts (count_logs now bnames names logs) = fold (account_counts.hit now) logs []"
    unfolding count_logs_def by (subst field [where sel = accounts and h = "account_counts.hit now"]) (simp_all add: count_log_fields no_requests_def)
  show "bucketStats (count_logs now bnames names logs) = fold (bucket_counts.hit now bnames) logs []"
    unfolding count_logs_def by (subst field [where sel = bucketStats and h = "bucket_counts.hit now bnames"]) (simp_all add: count_log_fields no_requests_def)
  show "users (count_logs now bnames names logs) = fold (user_counts.hit now names) logs []"
    unfolding count_logs_def by (subst field [where sel = users and h = "user_counts.hit now names"]) (simp_all add: count_log_fields no_requests_def)
  show "prefix_counts (count_logs now bnames names logs) = fold (prefix_numbers.hit now bnames) logs []"
    unfolding count_logs_def by (subst field [where sel = prefix_counts and h = "prefix_numbers.hit now bnames"]) (simp_all add: count_log_fields no_requests_def)
  show "daily (count_logs now bnames names logs) = fold (day_counts.hit now) logs []"
    unfolding count_logs_def by (subst field [where sel = daily and h = "day_counts.hit now"]) (simp_all add: count_log_fields no_requests_def)
qed

text \<open>The platform counters exist from the start.\<close>

lemma lookup_entries: "distinct ps \<Longrightarrow> map_of (fold (\<lambda>p. AList.map_entry p f) ps m) q =
    (if q \<in> set ps then map_option f (map_of m q) else map_of m q)"
  by (induction ps arbitrary: m) (auto simp: AList.map_of_map_entry split: option.split)

lemma lookup_platform: "map_of (platform (fold (count_log now bnames names) logs g)) p =
    map_option (fold add_row (filter (\<lambda>l. isObjectRequest (action l) \<and> p \<in> set (windows now l)) logs)) (map_of (platform g) p)"
  by (induction logs arbitrary: g)
    (simp_all add: count_log_fields(6) lookup_entries [OF distinct_windows] option.map_comp comp_def option.map_id)

text \<open>The account of a bucket: the one that all its counted uploads and downloads with an account have, if there is one.\<close>

definition sole :: "int list \<Rightarrow> int option option" where
  "sole as = (if as = [] then None else Some (if \<forall>a \<in> set as. a = hd as then Some (hd as) else None))"

lemma lookup_setBucketAccount:
  "map_of (setBucketAccount b acc m) b' = (if b' = b \<and> acc \<noteq> None
     then Some (case map_of m b of None \<Rightarrow> acc | Some None \<Rightarrow> None | Some (Some c) \<Rightarrow> if Some c = acc then Some c else None)
     else map_of m b')"
  by (auto simp: setBucketAccount_def update_conv split: option.splits)

lemma sole_append: "sole (as @ [a]) = Some (case sole as of None \<Rightarrow> Some a | Some None \<Rightarrow> None | Some (Some c) \<Rightarrow> if c = a then Some c else None)"
  by (cases as) (auto simp: sole_def)

section \<open>A run ends\<close>

text \<open>\<open>succeeds m\<close>: from every state the computation ends without an error.\<close>

definition succeeds :: "('e, 'a) io \<Rightarrow> bool" where
  "succeeds m \<longleftrightarrow> (\<forall>s. \<exists>a t. m s = Some (Inr a, t))"

lemma succeedsD: "succeeds m \<Longrightarrow> \<exists>a t. m s = Some (Inr a, t)"
  by (simp add: succeeds_def)

definition sql_reliable :: "'e ext \<Rightarrow> bool" where
  "sql_reliable x \<longleftrightarrow> (\<forall>e. \<exists>now e'. sql x e = (SqlOk now, e'))"

lemma succeeds_ret: "succeeds (ret a)"
  by (simp add: succeeds_def ret_apply)

lemma succeeds_bind:
  assumes "succeeds m" and "\<And>a. succeeds (k a)"
  shows "succeeds (bind m k)"
  unfolding succeeds_def
proof
  fix s
  obtain a u where "m s = Some (Inr a, u)" using succeedsD [OF assms(1)] by blast
  moreover obtain b t where "k a u = Some (Inr b, t)" using succeedsD [OF assms(2)] by blast
  ultimately show "\<exists>b t. bind m k s = Some (Inr b, t)" by (simp add: bind_apply)
qed

lemma succeeds_wrap_err: "succeeds m \<Longrightarrow> succeeds (wrap_err msg m)"
  unfolding wrap_err_def attempt_def succeeds_def
proof
  fix s
  assume "\<forall>s. \<exists>a t. m s = Some (Inr a, t)"
  then obtain a t where "m s = Some (Inr a, t)" by blast
  then show "\<exists>a t. (case m s of None \<Rightarrow> None | Some (r, s') \<Rightarrow> (case r of Inl err \<Rightarrow> throw (ErrWrap msg err) | Inr a \<Rightarrow> ret a) s') = Some (Inr a, t)"
    by (simp add: ret_apply)
qed

lemma succeeds_for_each: "(\<And>y. succeeds (f y)) \<Longrightarrow> succeeds (for_each f ys)"
  by (induction ys) (simp_all add: succeeds_ret succeeds_bind)

lemma succeeds_stmt: "sql_reliable x \<Longrightarrow> succeeds (sql_stmt x f)"
  unfolding succeeds_def
proof
  fix s :: "'a sys"
  assume "sql_reliable x"
  then obtain now e where "sql x (env s) = (SqlOk now, e)" unfolding sql_reliable_def by blast
  then show "\<exists>a t. sql_stmt x f s = Some (Inr a, t)" by (simp add: sql_stmt_def split: prod.split)
qed

lemma succeeds_query: "sql_reliable x \<Longrightarrow> succeeds (sql_query x f)"
  unfolding sql_query_def by (rule succeeds_stmt)

lemma succeeds_exec: "sql_reliable x \<Longrightarrow> succeeds (sql_exec x f)"
  unfolding sql_exec_def by (rule succeeds_stmt)

lemma succeeds_option: "succeeds a \<Longrightarrow> (\<And>v. succeeds (f v)) \<Longrightarrow> succeeds (case c of None \<Rightarrow> a | Some v \<Rightarrow> f v)"
  by (simp split: option.split)

lemma succeeds_transaction:
  assumes "sql_reliable x" and "succeeds body"
  shows "succeeds (sql_transaction x (\<lambda>m. m) (\<lambda>m. m) body)"
  unfolding succeeds_def
proof
  fix s
  obtain u where u: "sql_exec x (\<lambda>_ d. d) s = Some (Inr (), u)"
    using succeedsD [OF succeeds_exec [OF assms(1)]] by (metis old.unit.exhaust)
  obtain a v where v: "body u = Some (Inr a, v)" using succeedsD [OF assms(2)] by blast
  obtain w where "sql_exec x (\<lambda>_ _. db v) (v\<lparr>db := db s\<rparr>) = Some (Inr (), w)"
    using succeedsD [OF succeeds_exec [OF assms(1)]] by (metis old.unit.exhaust)
  then show "\<exists>a t. sql_transaction x (\<lambda>m. m) (\<lambda>m. m) body s = Some (Inr a, t)"
    using u v by (simp add: sql_transaction_def bind_apply attempt_def)
qed

lemmas succeeds_rules = succeeds_ret succeeds_bind succeeds_wrap_err succeeds_for_each succeeds_query succeeds_exec
  succeeds_option succeeds_transaction

lemma Aggregate_succeeds: "sql_reliable x \<Longrightarrow> succeeds (AggregateRequests x now)"
  unfolding AggregateRequests_def loadLogs_def loadBucketNames_def loadUsernames_def store_stats_def exec_all_def
    insert_bucket_stat_def [abs_def] insert_prefix_stat_def [abs_def] Let_def
  by (intro succeeds_rules)

lemma total_sql_transaction:
  assumes "total body"
  shows "total (sql_transaction x (\<lambda>m. m) (\<lambda>m. m) body)"
proof -
  have ok: "total (sql_exec x f)" for f by (rule total_sql_exec)
  have "sql_transaction x (\<lambda>m. m) (\<lambda>m. m) body s \<noteq> None" for s
  proof -
    let ?K = "attempt body (\<lambda>r. case r of Inl err \<Rightarrow> (\<lambda>s'. Some (Inl err, s'\<lparr>db := db s\<rparr>))
        | Inr a \<Rightarrow> (\<lambda>s'. case sql_exec x (\<lambda>_ _. db s') (s'\<lparr>db := db s\<rparr>) of
            None \<Rightarrow> None | Some (Inl err, s'') \<Rightarrow> Some (Inl err, s'') | Some (Inr _, s'') \<Rightarrow> Some (Inr a, s'')))"
    have "total ?K"
      using ok assms by (intro total_attempt) (auto simp: total_def split: sum.split option.split)
    then have "total (bind (sql_exec x (\<lambda>_ d. d)) (\<lambda>_. ?K))" by (intro total_bind ok)
    then show ?thesis unfolding sql_transaction_def by (simp add: total_def)
  qed
  then show ?thesis by (simp add: total_def)
qed

lemma total_AggregateRequests: "total (AggregateRequests x now)"
  unfolding AggregateRequests_def loadLogs_def loadBucketNames_def loadUsernames_def store_stats_def exec_all_def
    insert_bucket_stat_def [abs_def] insert_prefix_stat_def [abs_def] Let_def
  by (auto intro!: io_rules total_sql_transaction split: option.split)

end
