(* ===== verification/StatsExact.thy ===== *)
theory StatsExact
  imports StatsAggregate
begin

text \<open>
  What the statistics tables hold after a run of \<^verbatim>\<open>AggregateRequests\<close>: each row is the totals over
  the requests that belong to it, computed one row at a time.
\<close>

section \<open>Names\<close>

lemma update_new: "k \<notin> fst ` set m \<Longrightarrow> AList.update k v m = m @ [(k, v)]"
  by (induction m) auto

lemma go_map_id: "distinct (map fst kvs) \<Longrightarrow> go_map kvs = kvs"
proof (induction kvs rule: rev_induct)
  case (snoc kv kvs)
  then show ?case by (cases kv) (auto simp: go_map_def update_new)
qed (simp add: go_map_def)

lemma bucket_names_wf: "db_wf d \<Longrightarrow> bucket_names d = map (\<lambda>b. (ID b, BucketName b)) (buckets d)"
  by (simp add: bucket_names_def go_map_id db_wf_def tab_wf_def comp_def)

lemma bucket_id_of_iff:
  assumes "db_wf d"
  shows "bucket_id_of (bucket_names d) l = Some i \<longleftrightarrow> (\<exists>b \<in> set (buckets d). ID b = i \<and> bucket l = Some (BucketName b))"
proof -
  have keys: "distinct (map BucketName (buckets d))" using assms by (simp add: db_wf_def tab_wf_def)
  have eq: "go_map (map prod.swap (bucket_names d)) = map (\<lambda>b. (BucketName b, ID b)) (buckets d)"
    using keys by (simp add: bucket_names_wf [OF assms] go_map_id comp_def)
  show ?thesis
    using keys by (auto simp: bucket_id_of_def eq map_of_eq_Some_iff comp_def split: option.split)
qed

lemma bucket_id_of_bucket:
  assumes "db_wf d" and "b \<in> set (buckets d)"
  shows "bucket_id_of (bucket_names d) l = Some (ID b) \<longleftrightarrow> bucket l = Some (BucketName b)"
proof -
  have "inj_on ID (set (buckets d))" using assms(1) by (simp add: db_wf_def tab_wf_def distinct_map)
  then show ?thesis using assms(2) by (auto simp: bucket_id_of_iff [OF assms(1)] inj_on_def)
qed

section \<open>Requests\<close>

text \<open>The object requests of the window of \<open>h\<close> hours before \<open>now\<close>.\<close>

definition requests :: "time \<Rightarrow> int \<Rightarrow> tenant_db \<Rightarrow> auditRow list" where
  "requests now h d = filter (\<lambda>l. isObjectRequest (action l) \<and> inWindow (at l) now h) (log_rows (now - 720 * Hour) d)"

lemma windows_iff: "map_of periodHours p = Some h \<Longrightarrow> p \<in> set (windows now l) \<longleftrightarrow> inWindow (at l) now h"
  by (auto simp: windows_def periodHours_def split: if_splits)

lemma windows_only: "p \<in> set (windows now l) \<Longrightarrow> map_of periodHours p \<noteq> None"
  by (auto simp: windows_def periodHours_def split: if_splits)

lemma filter_requests:
  "map_of periodHours p = Some h \<Longrightarrow> filter (\<lambda>l. isObjectRequest (action l) \<and> p \<in> set (windows now l) \<and> P l) (log_rows (now - 720 * Hour) d)
     = filter P (requests now h d)"
  by (simp add: requests_def windows_iff conj_commute conj_left_commute)

lemma account_keys_iff: "(a, p) \<in> set (account_keys now l) \<longleftrightarrow> isObjectRequest (action l) \<and> p \<in> set (windows now l) \<and> accountID l = Some a"
proof -
  have "account_keys now l = (if isObjectRequest (action l) \<and> accountID l \<noteq> None then map (Pair (the (accountID l))) (windows now l) else [])"
    by (simp add: account_keys_def split: option.split)
  then show ?thesis by auto
qed

lemma bucket_keys_iff: "(b, p) \<in> set (bucket_keys now bnames l) \<longleftrightarrow>
    isObjectRequest (action l) \<and> p \<in> set (windows now l) \<and> bucket_id_of bnames l = Some b"
proof -
  have "bucket_keys now bnames l = (if isObjectRequest (action l) \<and> bucket_id_of bnames l \<noteq> None
      then map (Pair (the (bucket_id_of bnames l))) (windows now l) else [])"
    by (simp add: bucket_keys_def split: option.split)
  then show ?thesis by auto
qed

lemma user_keys_iff: "(u, a, p) \<in> set (user_keys now l) \<longleftrightarrow>
    isObjectRequest (action l) \<and> p \<in> set (windows now l) \<and> userID l = Some u \<and> accountID l = Some a"
proof -
  have "user_keys now l = (if isObjectRequest (action l) \<and> accountID l \<noteq> None \<and> userID l \<noteq> None
      then map (\<lambda>p. (the (userID l), the (accountID l), p)) (windows now l) else [])"
    by (simp add: user_keys_def split: option.split)
  then show ?thesis by auto
qed

lemma prefix_keys_iff: "(b, q, p) \<in> set (prefix_keys now bnames l) \<longleftrightarrow> isObjectRequest (action l) \<and> p \<in> set (windows now l) \<and>
    action l \<in> set (putActions @ getActions) \<and> bucket_id_of bnames l = Some b \<and> map_option firstLevelPrefix (key l) = Some q"
proof -
  have "prefix_keys now bnames l = (if isObjectRequest (action l) \<and> (action l \<in> set putActions \<or> action l \<in> set getActions) \<and>
      bucket_id_of bnames l \<noteq> None \<and> key l \<noteq> None
      then map (\<lambda>p. (the (bucket_id_of bnames l), firstLevelPrefix (the (key l)), p)) (windows now l) else [])"
    by (auto simp: prefix_keys_def split: option.split)
  then show ?thesis by auto
qed

section \<open>Rows\<close>

lemma tab_find_map:
  assumes "\<And>k c. kf (f (k, c)) = k"
  shows "tab_find kf (map f m) k = map_option (\<lambda>c. f (k, c)) (map_of m k)"
  using assms by (induction m) auto

lemma tab_wf_map:
  assumes "\<And>k c. kf (f (k, c)) = k"
  shows "tab_wf kf (map f m) \<longleftrightarrow> distinct (map fst m)"
proof -
  have "kf \<circ> f = fst" using assms by (auto simp: fun_eq_iff)
  then show ?thesis by (simp add: tab_wf_def)
qed

definition account_key :: "account_stat \<Rightarrow> int \<times> string" where "account_key r = (as_account_id r, as_period r)"
definition bucket_key :: "bucket_stat \<Rightarrow> int \<times> string" where "bucket_key r = (bs_bucket_id r, bs_period r)"
definition user_key :: "user_stat \<Rightarrow> int \<times> int \<times> string" where "user_key r = (us_user_id r, us_account_id r, us_period r)"
definition prefix_key :: "prefix_stat \<Rightarrow> int \<times> string \<times> string" where "prefix_key r = (xs_bucket_id r, xs_prefix r, xs_period r)"

lemma row_keys:
  "ps_period (platform_row now (p, c)) = p" "ds_stat_date (daily_row now (day, c)) = day"
  "account_key (account_row now (k, c)) = k" "bucket_key (bucket_row now g name (k, c)) = k"
  "user_key (user_row_of now (k3, uc)) = k3" "prefix_key (prefix_row now g (kx, n)) = kx"
  by (simp_all add: platform_row_def daily_row_def account_row_def bucket_row_def user_row_of_def prefix_row_def
      account_key_def bucket_key_def user_key_def prefix_key_def stat_row.defs split: prod.split)

lemma tab_find_concat:
  assumes "\<And>k c. f (k, c) = (if Q k then [g (k, c)] else [])" and "\<And>k c. kf (g (k, c)) = k"
  shows "tab_find kf (concat (map f m)) k = (if Q k then map_option (\<lambda>c. g (k, c)) (map_of m k) else None)"
  by (induction m) (use assms in auto)

lemma tab_wf_concat:
  assumes "\<And>k c. f (k, c) = (if Q k then [g (k, c)] else [])" and "\<And>k c. kf (g (k, c)) = k" and "distinct (map fst m)"
  shows "tab_wf kf (concat (map f m))"
  using assms(3)
proof (induction m)
  case (Cons kc m)
  have "kf ` set (concat (map f m)) \<subseteq> fst ` set m"
    using assms(1,2) by (force split: if_splits)
  then show ?case using Cons assms(1,2) by (cases kc) (auto simp: tab_wf_def)
qed (simp add: tab_wf_def)

section \<open>The totals\<close>

text \<open>A row for the totals over \<open>ls\<close>, unless there are none.\<close>

definition row_if :: "'l list \<Rightarrow> 'r \<Rightarrow> 'r option" where
  "row_if ls r = (if ls = [] then None else Some r)"

lemma platform_exact:
  assumes "map_of periodHours p = Some h"
  shows "tab_find ps_period (map (platform_row now) (platform (counted now d))) p = Some (platform_row now (p, tally (requests now h d)))"
proof -
  have "map_of (map (\<lambda>(p, _). (p, zero_counter)) periodHours) p = Some zero_counter"
    using assms by (auto simp: periodHours_def split: if_splits)
  then show ?thesis
    using filter_requests [OF assms, of now "\<lambda>_. True" d]
    by (simp add: tab_find_map row_keys counted_def count_logs_def lookup_platform no_requests_def counter_tally)
qed

lemma account_exact:
  assumes "map_of periodHours p = Some h"
  shows "tab_find account_key (map (account_row now) (accounts (counted now d))) (a, p) =
    (let mine = filter (\<lambda>l. accountID l = Some a) (requests now h d) in row_if mine (account_row now ((a, p), tally mine)))"
  using filter_requests [OF assms, of now "\<lambda>l. accountID l = Some a" d]
  by (simp add: tab_find_map row_keys counted_def count_logs_fields account_counts.lookup_hits account_keys_iff counter_tally row_if_def Let_def)

lemma user_counter_new: "fold add_user_row ls (new_user names u) = user_tally (map_of names u) ls"
  unfolding new_user_def by (rule user_counter_tally)

lemma user_exact:
  assumes "map_of periodHours p = Some h"
  shows "tab_find user_key (map (user_row_of now) (users (counted now d))) (u, a, p) =
    (let mine = filter (\<lambda>l. userID l = Some u \<and> accountID l = Some a) (requests now h d)
     in row_if mine (user_row_of now ((u, a, p), user_tally (map_of (user_names d) u) mine)))"
  using filter_requests [OF assms, of now "\<lambda>l. userID l = Some u \<and> accountID l = Some a" d]
  by (simp add: tab_find_map row_keys counted_def count_logs_fields user_counts.lookup_hits user_keys_iff user_counter_new row_if_def Let_def)

lemma daily_exact:
  "tab_find ds_stat_date (map (daily_row now) (daily (counted now d))) day =
    (let mine = filter (\<lambda>l. isObjectRequest (action l) \<and> day_of (at l) = day) (log_rows (now - 720 * Hour) d)
     in if day < day_cut now then None else row_if mine (daily_row now (day, tally mine)))"
proof -
  have "filter (\<lambda>l. day \<in> set (day_keys now l)) ls = (if day < day_cut now then [] else
      filter (\<lambda>l. isObjectRequest (action l) \<and> day_of (at l) = day) ls)" for ls
    by (induction ls) (auto simp: day_keys_def)
  then show ?thesis
    by (simp add: tab_find_map row_keys counted_def count_logs_fields day_counts.lookup_hits counter_tally row_if_def Let_def)
qed

section \<open>The account of a bucket\<close>

lemma fold_setBucketAccount:
  "map_of (fold (\<lambda>_. setBucketAccount b acc) ps m) b' = (if ps = [] then map_of m b' else map_of (setBucketAccount b acc m) b')"
proof (induction ps arbitrary: m)
  case (Cons p ps)
  have twice: "map_of (setBucketAccount b acc (setBucketAccount b acc m)) b' = map_of (setBucketAccount b acc m) b'"
    by (auto simp: lookup_setBucketAccount split: option.splits)
  show ?case using Cons.IH [of "setBucketAccount b acc m"] twice by simp
qed simp

definition counts_for :: "time \<Rightarrow> (int \<times> string) list \<Rightarrow> int \<Rightarrow> auditRow \<Rightarrow> bool" where
  "counts_for now bnames b l \<longleftrightarrow> isObjectRequest (action l) \<and> windows now l \<noteq> [] \<and> action l \<in> set (putActions @ getActions) \<and>
     bucket_id_of bnames l = Some b \<and> key l \<noteq> None"

lemma bucketAccount_log:
  "map_of (bucketAccount (count_log now bnames names l g)) b = (if counts_for now bnames b l
     then map_of (setBucketAccount b (accountID l) (bucketAccount g)) b else map_of (bucketAccount g) b)"
proof -
  let ?Q = "\<lambda>p. inWindow (at l) now (snd p)"
  have "bucketAccount (fold (count_period now names l bid) periodHours g) = (case (bid, key l) of
      (Some b, Some k) \<Rightarrow> if action l \<in> set putActions \<or> action l \<in> set getActions
         then fold (\<lambda>_. setBucketAccount b (accountID l)) (filter ?Q periodHours) (bucketAccount g) else bucketAccount g
    | _ \<Rightarrow> bucketAccount g)" for bid
    by (subst fold_field [where sel = bucketAccount and f = "count_period now names l bid" and Q = ?Q, OF count_period_fields(6)])
      (cases bid; cases "key l"; simp)
  then have "bucketAccount (count_log now bnames names l g) = (if \<not> isObjectRequest (action l) then bucketAccount g else
      (case (bucket_id_of bnames l, key l) of (Some b, Some k) \<Rightarrow> if action l \<in> set putActions \<or> action l \<in> set getActions
         then fold (\<lambda>_. setBucketAccount b (accountID l)) (filter ?Q periodHours) (bucketAccount g) else bucketAccount g
       | _ \<Rightarrow> bucketAccount g))"
    by (simp add: count_log_def Let_def)
  moreover have "windows now l = [] \<longleftrightarrow> filter ?Q periodHours = []" by (simp add: windows_def)
  ultimately show ?thesis
    by (cases "bucket_id_of bnames l"; cases "key l")
      (auto simp: counts_for_def fold_setBucketAccount lookup_setBucketAccount simp del: filter_empty_conv)
qed

lemma bucketAccount_logs:
  "map_of (bucketAccount (count_logs now bnames names ls)) b = sole (List.map_filter accountID (filter (counts_for now bnames b) ls))"
proof (induction ls rule: rev_induct)
  case Nil
  then show ?case by (simp add: count_logs_def no_requests_def sole_def List.map_filter_def)
next
  case (snoc l ls)
  then show ?case
    by (cases "accountID l") (simp_all add: count_logs_def bucketAccount_log lookup_setBucketAccount List.map_filter_def sole_append
        split: option.split)
qed

section \<open>The rows of a bucket\<close>

text \<open>The one account that all counted uploads and downloads of the bucket have, if they have one.\<close>

definition only_account :: "auditRow list \<Rightarrow> int option" where
  "only_account ls = (let as = List.map_filter accountID (filter (\<lambda>l. action l \<in> set (putActions @ getActions) \<and> key l \<noteq> None) ls)
     in if as \<noteq> [] \<and> (\<forall>a \<in> set as. a = hd as) then Some (hd as) else None)"

definition of_bucket :: "string \<Rightarrow> auditRow \<Rightarrow> bool" where
  "of_bucket name l \<longleftrightarrow> bucket l = Some name"

lemma log_rows_since: "l \<in> set (log_rows since d) \<Longrightarrow> since \<le> at l"
  by (auto simp: log_rows_def join_rows_def join_row_def split: if_splits)

lemma account_of_exact:
  assumes wf: "db_wf d" and b: "b \<in> set (buckets d)"
  shows "account_of (counted now d) (ID b) = only_account (filter (of_bucket (BucketName b)) (requests now 720 d))"
proof -
  have "counts_for now (bucket_names d) (ID b) l \<longleftrightarrow> isObjectRequest (action l) \<and> inWindow (at l) now 720 \<and> bucket l = Some (BucketName b) \<and>
      action l \<in> set (putActions @ getActions) \<and> key l \<noteq> None" if "l \<in> set (log_rows (now - 720 * Hour) d)" for l
    using log_rows_since [OF that] by (auto simp: counts_for_def bucket_id_of_bucket [OF wf b] windows_def periodHours_def inWindow_def)
  then have "filter (counts_for now (bucket_names d) (ID b)) (log_rows (now - 720 * Hour) d) =
      filter (\<lambda>l. action l \<in> set (putActions @ getActions) \<and> key l \<noteq> None) (filter (\<lambda>l. bucket l = Some (BucketName b)) (requests now 720 d))"
    unfolding requests_def filter_filter by (intro filter_cong) auto
  then show ?thesis
    by (simp add: account_of_def counted_def bucketAccount_logs only_account_def sole_def Let_def of_bucket_def)
qed

lemma map_of_bucket_names:
  assumes "db_wf d" and "b \<in> set (buckets d)"
  shows "map_of (bucket_names d) (ID b) = Some (BucketName b)"
  using assms by (auto simp: bucket_names_wf map_of_eq_Some_iff comp_def db_wf_def tab_wf_def)

lemma bucket_exact:
  assumes p: "map_of periodHours p = Some h" and wf: "db_wf d" and b: "b \<in> set (buckets d)"
  shows "tab_find bucket_key (concat (map (bucket_rows now (bucket_names d) (counted now d)) (bucketStats (counted now d)))) (ID b, p) =
    (let mine = filter (of_bucket (BucketName b)) (requests now h d)
     in row_if mine (bucket_row now (counted now d) (BucketName b) ((ID b, p), tally mine)))"
proof -
  let ?Q = "\<lambda>k :: int \<times> string. map_of (bucket_names d) (fst k) \<noteq> None"
  let ?g = "\<lambda>kc. bucket_row now (counted now d) (the (map_of (bucket_names d) (fst (fst kc)))) kc"
  have "tab_find bucket_key (concat (map (bucket_rows now (bucket_names d) (counted now d)) m)) k =
      (if ?Q k then map_option (\<lambda>c. ?g (k, c)) (map_of m k) else None)" for m k
    by (rule tab_find_concat) (auto simp: bucket_rows_def row_keys split: option.split)
  then show ?thesis
    using filter_requests [OF p, of now "of_bucket (BucketName b)" d] map_of_bucket_names [OF wf b]
    by (simp add: counted_def count_logs_fields bucket_counts.lookup_hits bucket_keys_iff bucket_id_of_bucket [OF wf b]
        counter_tally row_if_def Let_def of_bucket_def)
qed

lemma count_numbers: "fold (\<lambda>_ n. wrap64 (n + 1)) ls 0 = number ls"
proof (induction ls rule: rev_induct)
  case (snoc l ls)
  then show ?case by (simp add: number_append)
qed (simp add: number_def)

lemma prefix_exact:
  assumes p: "map_of periodHours p = Some h" and wf: "db_wf d" and b: "b \<in> set (buckets d)"
  shows "tab_find prefix_key (concat (map (prefix_rows now (bucket_names d) (counted now d)) (prefix_counts (counted now d)))) (ID b, q, p) =
    (let mine = filter (\<lambda>l. action l \<in> set (putActions @ getActions) \<and> map_option firstLevelPrefix (key l) = Some q)
          (filter (of_bucket (BucketName b)) (requests now h d))
     in row_if mine (prefix_row now (counted now d) ((ID b, q, p), number mine)))"
proof -
  let ?Q = "\<lambda>k :: int \<times> string \<times> string. map_of (bucket_names d) (fst k) \<noteq> None"
  have "tab_find prefix_key (concat (map (prefix_rows now (bucket_names d) (counted now d)) m)) k =
      (if ?Q k then map_option (\<lambda>c. prefix_row now (counted now d) (k, c)) (map_of m k) else None)" for m k
    by (rule tab_find_concat) (auto simp: prefix_rows_def row_keys split: option.split)
  moreover have "filter (\<lambda>l. (ID b, q, p) \<in> set (prefix_keys now (bucket_names d) l)) (log_rows (now - 720 * Hour) d) =
      filter (\<lambda>l. action l \<in> set (putActions @ getActions) \<and> map_option firstLevelPrefix (key l) = Some q)
          (filter (of_bucket (BucketName b)) (requests now h d))"
    unfolding requests_def filter_filter prefix_keys_iff windows_iff [OF p] bucket_id_of_bucket [OF wf b]
    by (intro filter_cong) (auto simp: of_bucket_def)
  ultimately show ?thesis
    using map_of_bucket_names [OF wf b]
    by (simp add: counted_def count_logs_fields prefix_numbers.lookup_hits count_numbers row_if_def Let_def)
qed

section \<open>The properties\<close>

text \<open>
  C9: The single pass of \<^verbatim>\<open>AggregateRequests\<close> computes what row by row counting would. After a
  success the table of each kind has under its key the totals over exactly the object requests
  that belong to it (of the window of \<open>h\<close> hours of the period, and of the account or the user
  and account; or of the day, from the 30th day back on, of which only the requests of the last 720 hours are read, so
  that the row of the oldest day covers a part of it), and no row where there are none,
  except that each period has a platform row.
\<close>

theorem aggregate_exact:
  assumes "AggregateRequests x now s = Some (Inr res, t)" and "map_of periodHours p = Some h"
  shows "tab_find ps_period (platform_request_stats (db t)) p = Some (platform_row now (p, tally (requests now h (db s)))) \<and>
    tab_find account_key (account_request_stats (db t)) (a, p) =
      (let mine = filter (\<lambda>l. accountID l = Some a) (requests now h (db s)) in row_if mine (account_row now ((a, p), tally mine))) \<and>
    tab_find user_key (user_request_stats (db t)) (u, a, p) =
      (let mine = filter (\<lambda>l. userID l = Some u \<and> accountID l = Some a) (requests now h (db s))
       in row_if mine (user_row_of now ((u, a, p), user_tally (map_of (user_names (db s)) u) mine))) \<and>
    tab_find ds_stat_date (daily_platform_request_stats (db t)) day =
      (let mine = filter (\<lambda>l. isObjectRequest (action l) \<and> day_of (at l) = day) (log_rows (now - 720 * Hour) (db s))
       in if day < day_cut now then None else row_if mine (daily_row now (day, tally mine)))"
proof -
  have "db t = replace_stats now (bucket_names (db s)) (counted now (db s)) (db s)"
    using Aggregate_run [OF assms(1)] by auto
  then show ?thesis
    using platform_exact [OF assms(2)] account_exact [OF assms(2)] user_exact [OF assms(2)] daily_exact
    by (simp add: replace_stats_def)
qed

text \<open>A log of five requests: two of the last day, one of them a failure, two of the week, one no object request.\<close>

definition demo_log :: "int option \<Rightarrow> string \<Rightarrow> string \<Rightarrow> string \<Rightarrow> time \<Rightarrow> audit_row" where
  "demo_log u k act st t = \<lparr>a_tenant_user_id = u, a_account_id = Some 9, a_bucket_name = Some ''media'', a_object_key = Some k,
     a_action = act, a_source_ip = None, a_user_agent = None, a_status = st, a_error_message = None, a_created_at = t\<rparr>"

definition demo_audited :: "mem sys" where
  "demo_audited = demo_sys\<lparr>db := demo_db\<lparr>audit_logs := [demo_log (Some 5) ''docs/a'' ''download'' ''success'' (40 * Day - Hour),
     demo_log (Some 6) ''docs/b'' ''delete'' ''failure'' (40 * Day - 2 * Hour), demo_log (Some 5) ''docs/a'' ''upload'' ''success'' (36 * Day),
     demo_log (Some 5) ''docs/b'' ''preview'' ''success'' (35 * Day), demo_log (Some 5) [] ''user_update'' ''success'' (39 * Day)]\<rparr>\<rparr>"

lemma demo_audited_wf: "db_wf (db demo_audited)"
  using demo_db_wf by (simp add: demo_audited_def db_wf_def)

lemma mem_reliable: "sql_reliable (mem_ext decode)"
  by (simp add: sql_reliable_def mem_ext_def)

lemma demo_audited_run:
  obtains res t where "AggregateRequests demo_ext (40 * Day) demo_audited = Some (Inr res, t)"
  using succeedsD [OF Aggregate_succeeds [OF mem_reliable]] by blast

theorem aggregate_exact_witness:
  "\<exists>res t row. AggregateRequests demo_ext (40 * Day) demo_audited = Some (Inr res, t) \<and>
     tab_find account_key (account_request_stats (db t)) (9, ''7d'') = Some row \<and>
     st_request_count row = 4 \<and> st_get_count row = 2 \<and> as_error_count row = 1 \<and> as_active_users row = 2"
proof (rule demo_audited_run)
  fix res t
  assume run: "AggregateRequests demo_ext (40 * Day) demo_audited = Some (Inr res, t)"
  let ?mine = "filter (\<lambda>l. accountID l = Some 9) (requests (40 * Day) 168 (db demo_audited))"
  have "tab_find account_key (account_request_stats (db t)) (9, ''7d'') = (let mine = ?mine in row_if mine (account_row (40 * Day) ((9, ''7d''), tally mine)))"
    using aggregate_exact [OF run, of "''7d''" 168] by (simp add: periodHours_def)
  moreover have "(case row_if ?mine (account_row (40 * Day) ((9, ''7d''), fold add_row ?mine zero_counter)) of None \<Rightarrow> False | Some row \<Rightarrow>
      st_request_count row = 4 \<and> st_get_count row = 2 \<and> as_error_count row = 1 \<and> as_active_users row = 2)" by code_simp
  ultimately show ?thesis using run by (auto simp: Let_def counter_tally split: option.splits)
qed

text \<open>
  C24: The same for the tables by bucket and by directory, of the buckets that exist: a bucket's
  row has the totals over the requests that name it, a directory's the number of the uploads
  and downloads of keys below it, and both the account that all the counted uploads and downloads
  of the bucket in 30 days have that name an account, or none if they name different ones.
\<close>

theorem aggregate_by_bucket:
  assumes "AggregateRequests x now s = Some (Inr res, t)" and "map_of periodHours p = Some h"
    and "db_wf (db s)" and "b \<in> set (buckets (db s))"
  shows "(let mine = filter (of_bucket (BucketName b)) (requests now h (db s));
       below = filter (\<lambda>l. action l \<in> set (putActions @ getActions) \<and> map_option firstLevelPrefix (key l) = Some q) mine;
       acc = only_account (filter (of_bucket (BucketName b)) (requests now 720 (db s)))
     in tab_find bucket_key (bucket_request_stats (db t)) (ID b, p) =
         row_if mine (stat_row.extend (counts_of (tally mine) now)
           \<lparr>bs_bucket_id = ID b, bs_period = p, bs_account_id = acc, bs_bucket_name = BucketName b\<rparr>) \<and>
       tab_find prefix_key (prefix_request_stats (db t)) (ID b, q, p) =
         row_if below \<lparr>xs_bucket_id = ID b, xs_prefix = q, xs_period = p, xs_account_id = acc,
           xs_access_count = number below, xs_collected_at = now\<rparr>)"
proof -
  have "db t = replace_stats now (bucket_names (db s)) (counted now (db s)) (db s)"
    using Aggregate_run [OF assms(1)] by auto
  then show ?thesis
    using bucket_exact [OF assms(2,3,4), of now] prefix_exact [OF assms(2,3,4), of now q]
    by (simp add: replace_stats_def Let_def bucket_row_def prefix_row_def account_of_exact [OF assms(3,4)])
qed

theorem aggregate_by_bucket_witness:
  "\<exists>res t row. AggregateRequests demo_ext (40 * Day) demo_audited = Some (Inr res, t) \<and>
     tab_find prefix_key (prefix_request_stats (db t)) (1, ''docs/'', ''7d'') = Some row \<and> xs_access_count row = 3 \<and> xs_account_id row = Some 9"
proof (rule demo_audited_run)
  fix res t
  assume run: "AggregateRequests demo_ext (40 * Day) demo_audited = Some (Inr res, t)"
  let ?b = "Bucket.extend demo_bucket \<lparr>inventoried_at = None\<rparr>"
  let ?mine = "filter (of_bucket ''media'') (requests (40 * Day) 168 (db demo_audited))"
  let ?below = "filter (\<lambda>l. action l \<in> set (putActions @ getActions) \<and> map_option firstLevelPrefix (key l) = Some ''docs/'') ?mine"
  have b: "?b \<in> set (buckets (db demo_audited))" and fields: "BucketName ?b = ''media''" "ID ?b = 1"
    by (simp_all add: demo_audited_def demo_db_def demo_bucket_def Bucket.defs)
  have "map_of periodHours ''7d'' = Some 168" by (simp add: periodHours_def)
  from aggregate_by_bucket [OF run this demo_audited_wf b, of "''docs/''"]
  have row: "tab_find prefix_key (prefix_request_stats (db t)) (1, ''docs/'', ''7d'') =
      row_if ?below \<lparr>xs_bucket_id = 1, xs_prefix = ''docs/'', xs_period = ''7d'',
        xs_account_id = only_account (filter (of_bucket ''media'') (requests (40 * Day) 720 (db demo_audited))),
        xs_access_count = number ?below, xs_collected_at = 40 * Day\<rparr>"
    by (simp add: fields Let_def)
  have "length ?below = 3" by code_simp
  moreover have "only_account (filter (of_bucket ''media'') (requests (40 * Day) 720 (db demo_audited))) = Some 9" by code_simp
  ultimately show ?thesis using run row by (auto simp: row_if_def number_def is_int64_def)
qed

section \<open>All or nothing\<close>

definition stats_wf :: "tenant_db \<Rightarrow> bool" where
  "stats_wf d \<longleftrightarrow> tab_wf ps_period (platform_request_stats d) \<and> tab_wf ds_stat_date (daily_platform_request_stats d) \<and>
     tab_wf account_key (account_request_stats d) \<and> tab_wf bucket_key (bucket_request_stats d) \<and>
     tab_wf user_key (user_request_stats d) \<and> tab_wf prefix_key (prefix_request_stats d)"

definition no_stats :: "tenant_db \<Rightarrow> tenant_db" where
  "no_stats d = d\<lparr>platform_request_stats := [], daily_platform_request_stats := [], account_request_stats := [],
     bucket_request_stats := [], user_request_stats := [], prefix_request_stats := []\<rparr>"

lemma distinct_platform: "map fst (platform (count_logs now bnames names ls)) = map fst periodHours"
proof -
  have "map fst (fold (\<lambda>p. AList.map_entry p f) ps m) = map fst m" for f ps and m :: "(string \<times> counter) list"
  proof (induction ps arbitrary: m)
    case (Cons p ps)
    have "map fst (AList.map_entry p f m) = map fst m" by (induction m) auto
    then show ?case using Cons by simp
  qed simp
  then have "map fst (platform (fold (count_log now bnames names) ls g)) = map fst (platform g)" for g
    by (induction ls arbitrary: g) (simp_all add: count_log_fields(6))
  then show ?thesis by (simp add: count_logs_def no_requests_def comp_def split_def)
qed

lemma replace_stats_wf: "stats_wf (replace_stats now bnames (count_logs now bnames names ls) d)"
proof -
  have distinct: "distinct (map fst (accounts (count_logs now bnames names ls)))" "distinct (map fst (bucketStats (count_logs now bnames names ls)))"
    "distinct (map fst (users (count_logs now bnames names ls)))" "distinct (map fst (prefix_counts (count_logs now bnames names ls)))"
    "distinct (map fst (daily (count_logs now bnames names ls)))" "distinct (map fst (platform (count_logs now bnames names ls)))"
    by (simp_all add: count_logs_fields account_counts.distinct_hits bucket_counts.distinct_hits user_counts.distinct_hits
        prefix_numbers.distinct_hits day_counts.distinct_hits distinct_platform) (simp add: periodHours_def)
  have "tab_wf bucket_key (concat (map (bucket_rows now bnames g) m))" if "distinct (map fst m)" for g m
    by (rule tab_wf_concat [where Q = "\<lambda>k. map_of bnames (fst k) \<noteq> None" and
          g = "\<lambda>kc. bucket_row now g (the (map_of bnames (fst (fst kc)))) kc", OF _ _ that])
      (auto simp: bucket_rows_def row_keys split: option.split)
  moreover have "tab_wf prefix_key (concat (map (prefix_rows now bnames g) m))" if "distinct (map fst m)" for g m
    by (rule tab_wf_concat [where Q = "\<lambda>k. map_of bnames (fst k) \<noteq> None" and g = "prefix_row now g", OF _ _ that])
      (auto simp: prefix_rows_def row_keys split: option.split)
  ultimately show ?thesis
    using distinct by (simp add: stats_wf_def replace_stats_def tab_wf_map row_keys)
qed

text \<open>
  C25: However a run of \<^verbatim>\<open>AggregateRequests\<close> ends, only the statistics have changed; they are as
  they were, or the ones of this run as a whole (after a success), and no table has two rows
  for a key if none had before. A run always ends.
\<close>

theorem aggregate_all_or_nothing:
  "\<exists>r t. AggregateRequests x now s = Some (r, t) \<and> no_stats (db t) = no_stats (db s) \<and> (stats_wf (db s) \<longrightarrow> stats_wf (db t)) \<and>
     (db t = db s \<and> r \<notin> range Inr \<or> db t = replace_stats now (bucket_names (db s)) (counted now (db s)) (db s))"
proof -
  obtain r t where run: "AggregateRequests x now s = Some (r, t)"
    using total_AggregateRequests [of x now, unfolded total_def, THEN spec, of s] by (metis not_None_eq surj_pair)
  have "no_stats (replace_stats now bn g d) = no_stats d" for bn g d by (simp add: no_stats_def replace_stats_def)
  moreover have "stats_wf (replace_stats now (bucket_names (db s)) (counted now (db s)) d)" for d
    unfolding counted_def by (rule replace_stats_wf)
  ultimately show ?thesis using Aggregate_run [OF run] run by auto
qed

theorem aggregate_all_or_nothing_witness:
  "\<exists>r t. AggregateRequests demo_ext (40 * Day) demo_audited = Some (r, t) \<and> stats_wf (db t)"
proof -
  have "stats_wf (db demo_audited)"
    by (simp add: stats_wf_def demo_audited_def demo_db_def empty_db_def tab_wf_def)
  then show ?thesis using aggregate_all_or_nothing [of demo_ext "40 * Day" demo_audited] by blast
qed

section \<open>Counts are plausible\<close>

lemma number_mono:
  assumes "int (length ls') < 2 ^ 63" and "length ls \<le> length ls'"
  shows "0 \<le> number ls \<and> number ls \<le> number ls' \<and> number ls' = int (length ls')"
proof -
  have "is_int64 (int (length ls))" "is_int64 (int (length ls'))" using assms by (simp_all add: is_int64_def)
  then show ?thesis using assms(2) by (simp add: number_def)
qed

lemma length_kinds: "length (rows_of getActions ls) + length (rows_of putActions ls) + length (rows_of deleteActions ls) \<le> length ls"
proof (induction ls)
  case (Cons l ls)
  then show ?case by (cases "action l" rule: kind_cases) (simp_all add: rows_of_def)
qed (simp add: rows_of_def)

lemma card_active: "card (active (tally ls)) \<le> length ls"
proof -
  have "{u. Some u \<in> userID ` set ls} \<subseteq> the ` userID ` set ls"
    by (rule subsetI) (metis imageI mem_Collect_eq option.sel)
  then have "card {u. Some u \<in> userID ` set ls} \<le> card (the ` userID ` set ls)" by (intro card_mono) auto
  also have "\<dots> \<le> card (set ls)" by (metis card_image_le finite_imageI finite_set order_trans)
  finally show ?thesis using card_length [of ls] by (simp add: tally_def)
qed

lemma tally_bounds:
  assumes "int (length ls) < 2 ^ 63"
  shows "0 \<le> getCount (tally ls) \<and> 0 \<le> putCount (tally ls) \<and> 0 \<le> deleteCount (tally ls) \<and> 0 \<le> errorCount (tally ls) \<and>
    getCount (tally ls) + putCount (tally ls) + deleteCount (tally ls) \<le> requestCount (tally ls) \<and>
    errorCount (tally ls) \<le> requestCount (tally ls) \<and> int (card (active (tally ls))) \<le> requestCount (tally ls)"
proof -
  have num: "length ls' \<le> length ls \<Longrightarrow> number ls' = int (length ls')" for ls' :: "auditRow list"
    using number_mono [of ls' ls'] assms by simp
  have "number (rows_of acts ls) = int (length (rows_of acts ls))" for acts by (rule num) (simp add: rows_of_def)
  moreover have "number (filter P ls) = int (length (filter P ls))" for P by (rule num) simp
  ultimately show ?thesis using length_kinds [of ls] card_active [of ls] num [of ls] by (simp add: tally_def)
qed

lemma requests_mono: "h \<le> h' \<Longrightarrow> length (requests now h d) \<le> length (requests now h' d)"
proof -
  assume h: "h \<le> h'"
  have "h * Hour \<le> h' * Hour" by (rule mult_right_mono [OF h]) (simp add: go_defs)
  then have "requests now h d = filter (\<lambda>l. inWindow (at l) now h) (requests now h' d)"
    unfolding requests_def filter_filter by (intro filter_cong) (auto simp: inWindow_def)
  then show ?thesis by (metis length_filter_le)
qed

text \<open>
  C27: The platform statistics are plausible, as long as there are fewer than \<open>2^63\<close> log entries:
  no count is negative, uploads, downloads and deletions together are no more than the requests,
  nor are the failures or the active users, and a longer period has no fewer requests.
\<close>

theorem aggregate_bounds:
  assumes "AggregateRequests x now s = Some (Inr res, t)"
    and "int (length (log_rows (now - 720 * Hour) (db s))) < 2 ^ 63"
    and "map_of periodHours p = Some h" and "map_of periodHours p' = Some h'" and "h \<le> h'"
    and "tab_find ps_period (platform_request_stats (db t)) p = Some row"
    and "tab_find ps_period (platform_request_stats (db t)) p' = Some row'"
  shows "0 \<le> st_get_count row \<and> 0 \<le> st_put_count row \<and> 0 \<le> st_delete_count row \<and> 0 \<le> ps_error_count row \<and>
    st_get_count row + st_put_count row + st_delete_count row \<le> st_request_count row \<and>
    ps_error_count row \<le> st_request_count row \<and> ps_active_users row \<le> st_request_count row \<and>
    st_request_count row \<le> st_request_count row'"
proof -
  have db: "db t = replace_stats now (bucket_names (db s)) (counted now (db s)) (db s)"
    using Aggregate_run [OF assms(1)] by auto
  have row: "row = platform_row now (p, tally (requests now h (db s)))" "row' = platform_row now (p', tally (requests now h' (db s)))"
    using platform_exact [OF assms(3), of now "db s"] platform_exact [OF assms(4), of now "db s"] assms(6,7)
    by (simp_all add: db replace_stats_def)
  have short: "int (length (requests now k (db s))) < 2 ^ 63" for k
  proof -
    have "length (requests now k (db s)) \<le> length (log_rows (now - 720 * Hour) (db s))" by (simp add: requests_def)
    then show ?thesis using assms(2) by linarith
  qed
  show ?thesis
    using tally_bounds [OF short, of h] number_mono [OF short requests_mono [OF assms(5)]]
    by (simp add: row platform_row_def counts_of_def stat_row.defs) (simp add: tally_def)
qed

theorem aggregate_bounds_witness:
  "\<exists>res t row row'. AggregateRequests demo_ext (40 * Day) demo_audited = Some (Inr res, t) \<and>
     tab_find ps_period (platform_request_stats (db t)) ''24h'' = Some row \<and>
     tab_find ps_period (platform_request_stats (db t)) ''7d'' = Some row' \<and> st_request_count row \<le> st_request_count row'"
proof (rule demo_audited_run)
  fix res t
  assume run: "AggregateRequests demo_ext (40 * Day) demo_audited = Some (Inr res, t)"
  have p: "map_of periodHours ''24h'' = Some 24" "map_of periodHours ''7d'' = Some 168" by (simp_all add: periodHours_def)
  have db: "db t = replace_stats (40 * Day) (bucket_names (db demo_audited)) (counted (40 * Day) (db demo_audited)) (db demo_audited)"
    using Aggregate_run [OF run] by auto
  obtain row row' where rows: "tab_find ps_period (platform_request_stats (db t)) ''24h'' = Some row"
    "tab_find ps_period (platform_request_stats (db t)) ''7d'' = Some row'"
    using platform_exact [OF p(1), of "40 * Day" "db demo_audited"] platform_exact [OF p(2), of "40 * Day" "db demo_audited"]
    by (simp add: db replace_stats_def)
  have "length (log_rows (40 * Day - 720 * Hour) (db demo_audited)) = 5" by code_simp
  then have short: "int (length (log_rows (40 * Day - 720 * Hour) (db demo_audited))) < 2 ^ 63" by simp
  show ?thesis using aggregate_bounds [OF run short p _ rows] run rows by auto
qed

section \<open>Every request once\<close>

lemma join_rows_once:
  assumes "distinct (map (\<lambda>r. (o_bucket_name r, o_object_key r)) (object_records d))"
  shows "\<exists>n. join_rows d a = [join_row a n]"
proof -
  have "length (filter (\<lambda>r. f r = k) rows) \<le> 1" if "distinct (map f rows)" for f :: "object_row \<Rightarrow> string \<times> string" and k rows
    using that by (induction rows) (auto simp: filter_empty_conv image_iff)
  note once = this [OF assms]
  have "length (records_of d a) \<le> 1"
  proof (cases "a_bucket_name a = None \<or> a_object_key a = None")
    case True
    then show ?thesis by (auto simp: records_of_def)
  next
    case False
    then obtain n k where nk: "a_bucket_name a = Some n" "a_object_key a = Some k" by auto
    have "records_of d a = filter (\<lambda>r. (o_bucket_name r, o_object_key r) = (n, k)) (object_records d)"
      unfolding records_of_def nk by (intro filter_cong) auto
    then show ?thesis using once [of "(n, k)"] by simp
  qed
  then show ?thesis by (cases "records_of d a") (auto simp: join_rows_def)
qed

text \<open>
  C26: Every request is counted once, in each window it is in, where no two records have the same
  bucket name and key: the request count of a period is the number of its audit entries whose
  action is an object request. (The left join multiplies the entry of a key that is recorded
  twice, as for a bucket that was deleted and set up again under its name.)
\<close>

theorem requests_counted_once:
  assumes "AggregateRequests x now s = Some (Inr res, t)" and "map_of periodHours p = Some h"
    and "distinct (map (\<lambda>r. (o_bucket_name r, o_object_key r)) (object_records (db s)))"
  shows "map_option st_request_count (tab_find ps_period (platform_request_stats (db t)) p) =
    Some (number (filter (\<lambda>a. isObjectRequest (a_action a) \<and> inWindow (a_created_at a) now h) (audit_logs (db s))))"
proof -
  have db: "db t = replace_stats now (bucket_names (db s)) (counted now (db s)) (db s)"
    using Aggregate_run [OF assms(1)] by auto
  let ?P = "\<lambda>l. isObjectRequest (action l) \<and> inWindow (at l) now h"
  have hours: "h \<le> 720" using assms(2) by (auto simp: periodHours_def split: if_splits)
  have one: "length (filter ?P (join_rows (db s) a)) = (if isObjectRequest (a_action a) \<and> inWindow (a_created_at a) now h then 1 else 0)" for a
  proof -
    obtain n where "join_rows (db s) a = [join_row a n]" using join_rows_once [OF assms(3), of a] by blast
    then show ?thesis by (simp add: join_row_def)
  qed
  have "length (filter ?P (concat (map (join_rows (db s)) as))) =
      length (filter (\<lambda>a. isObjectRequest (a_action a) \<and> inWindow (a_created_at a) now h) as)" for as
    by (induction as) (simp_all add: one)
  moreover have "filter (\<lambda>a. isObjectRequest (a_action a) \<and> inWindow (a_created_at a) now h) (filter (\<lambda>a. now - 720 * Hour \<le> a_created_at a) as) =
      filter (\<lambda>a. isObjectRequest (a_action a) \<and> inWindow (a_created_at a) now h) as" for as :: "audit_row list"
  proof -
    have "h * Hour \<le> 720 * Hour" by (rule mult_right_mono [OF hours]) (simp add: go_defs)
    then show ?thesis unfolding filter_filter by (intro filter_cong) (auto simp: inWindow_def)
  qed
  ultimately have "length (requests now h (db s)) =
      length (filter (\<lambda>a. isObjectRequest (a_action a) \<and> inWindow (a_created_at a) now h) (audit_logs (db s)))"
    unfolding requests_def log_rows_def by simp
  then show ?thesis
    using platform_exact [OF assms(2), of now "db s"]
    by (simp add: db replace_stats_def platform_row_def counts_of_def stat_row.defs tally_def number_def)
qed

theorem requests_counted_once_witness:
  "\<exists>res t. AggregateRequests demo_ext (40 * Day) demo_audited = Some (Inr res, t) \<and>
     map_option st_request_count (tab_find ps_period (platform_request_stats (db t)) ''24h'') = Some 2"
proof (rule demo_audited_run)
  fix res t
  assume run: "AggregateRequests demo_ext (40 * Day) demo_audited = Some (Inr res, t)"
  have p: "map_of periodHours ''24h'' = Some 24" by (simp add: periodHours_def)
  have "distinct (map (\<lambda>r. (o_bucket_name r, o_object_key r)) (object_records (db demo_audited)))" by code_simp
  note count = requests_counted_once [OF run p this]
  have "number (filter (\<lambda>a. isObjectRequest (a_action a) \<and> inWindow (a_created_at a) (40 * Day) 24) (audit_logs (db demo_audited))) = 2"
    by code_simp
  then show ?thesis using run count by simp
qed

section \<open>Directories\<close>

text \<open>
  The statistics and the usage report cut keys at the same place: outside the trash
  \<^verbatim>\<open>firstLevelPrefix\<close> is the directory that the SQL of \<^verbatim>\<open>PrefixUsage\<close> groups by, so that the rows of
  both are about the same sets of objects.
\<close>

theorem firstLevelPrefix_usage:
  "firstLevelPrefix k = (if HasPrefix k TrashPrefix then [] else sql_first_level k)"
  by (auto simp: firstLevelPrefix_def sql_first_level_def TrashPrefix_def Let_def nat_add_distrib IndexByte_eq)

end
