(* ===== verification/Sched.thy ===== *)
theory Sched
  imports Queue Calendar
begin

text \<open>
  \<^verbatim>\<open>internal/sched/sched.go\<close>: how several schedulers share the work. Each announces itself with a
  heartbeat key, sees the others by a scan, takes the buckets whose id falls on its position
  in the sorted member list, and claims a task for the current time slot with \<^verbatim>\<open>SETNX\<close>.
\<close>

section \<open>The group\<close>

definition BeatEvery :: duration where "BeatEvery = 5 * Second"
definition BeatTTL :: duration where "BeatTTL = 15 * Second"

record Group =
  role :: string
  me :: string

text \<open>\<open>hostname\<close> is \<^verbatim>\<open>os.Hostname\<close>, \<open>None\<close> for an error.\<close>

definition sched_New :: "'e broker \<Rightarrow> (string \<Rightarrow> string) \<Rightarrow> string option \<Rightarrow> string \<Rightarrow> string \<Rightarrow> go_error + Group" where
  "sched_New q os_Getenv hostname redisURL rl =
     (case parse_url q (TrimSpace redisURL) of
        Some err \<Rightarrow> Inl (ErrExt err)
      | None \<Rightarrow>
          let m = TrimSpace (os_Getenv ''HOSTNAME'');
              m' = (if m \<noteq> [] then m
                    else (case hostname of None \<Rightarrow> ''scheduler'' | Some h \<Rightarrow> if h = [] then ''scheduler'' else h))
          in Inr \<lparr>role = rl, me = m'\<rparr>)"

definition group_prefix :: "Group \<Rightarrow> string" where
  "group_prefix g = ''osspilot:sched:'' @ role g @ '':''"

definition beatKey :: "Group \<Rightarrow> string" where
  "beatKey g = group_prefix g @ me g"

definition Beat :: "'e broker \<Rightarrow> Group \<Rightarrow> ('e, unit) io" where
  "Beat q g = ext_call (\<lambda>e. redis_Set q e (beatKey g) ''1'' BeatTTL)"

text \<open>The loop over the cursor of the scan; it ends only if the server returns cursor 0.\<close>

partial_function (option) scan_loop :: "'e broker \<Rightarrow> string \<Rightarrow> string list \<Rightarrow> nat \<Rightarrow> 'e sys \<Rightarrow>
    ((go_error + string list) \<times> 'e sys) option" where
  "scan_loop q pat keys cursor s =
     Option.bind (ext_call (\<lambda>e. redis_Scan q e cursor pat 50) s) (\<lambda>(r, s').
       case r of
         Inl err \<Rightarrow> Some (Inl err, s')
       | Inr (batch, nxt) \<Rightarrow>
           let keys' = keys @ batch in
           if nxt = 0 then Some (Inr keys', s') else scan_loop q pat keys' nxt s')"

declare scan_loop.simps [code]

fun member_names :: "string \<Rightarrow> string set \<Rightarrow> string list \<Rightarrow> string list \<Rightarrow> string set \<times> string list" where
  "member_names pref seen out [] = (seen, out)"
| "member_names pref seen out (k # keys) =
     (let name = TrimPrefix k pref in
      if name = [] then member_names pref seen out keys
      else if name \<in> seen then member_names pref seen out keys
      else member_names pref (insert name seen) (out @ [name]) keys)"

definition Members :: "'e broker \<Rightarrow> Group \<Rightarrow> ('e, string list) io" where
  "Members q g =
     bind (scan_loop q (group_prefix g @ ''*'') [] 0) (\<lambda>keys.
       case member_names (group_prefix g) {} [] keys of (seen, out) \<Rightarrow>
         let out' = (if me g \<notin> seen \<and> me g \<noteq> [] then out @ [me g] else out) in
         ret (sort out'))"

section \<open>Sharding\<close>

definition Mine :: "int \<Rightarrow> string list \<Rightarrow> string \<Rightarrow> bool" where
  "Mine bid members m =
     (let n = length members in
      if n = 0 then True
      else let i = SearchStrings members m in
        if n \<le> i \<or> members ! i \<noteq> m then False
        else nat (bid mod 2 ^ 64) mod n = i)"

definition MembersFingerprint :: "string list \<Rightarrow> string" where
  "MembersFingerprint members = Join members '',''"

section \<open>Slots and claims\<close>

definition ClaimKey :: "string \<Rightarrow> string \<Rightarrow> string \<Rightarrow> string" where
  "ClaimKey slot typ bid = ''osspilot:claim:'' @ slot @ '':'' @ typ @ '':'' @ bid"

definition Slot :: "time \<Rightarrow> duration \<Rightarrow> string \<times> duration" where
  "Slot now interval =
     (let start = Truncate now interval; slot = Format_RFC3339 start; ttl = start + interval - now
      in (slot, if ttl < Second then Second else ttl))"

definition IDString :: "int \<Rightarrow> string" where
  "IDString bid = FormatInt bid"

definition Claim :: "'e broker \<Rightarrow> string \<Rightarrow> string \<Rightarrow> string \<Rightarrow> duration \<Rightarrow> ('e, bool) io" where
  "Claim q slot typ bid ttl =
     (let ttl = (if ttl < Second then Second else ttl) in
      ext_call (\<lambda>e. redis_SetNX q e (ClaimKey slot typ bid) ''1'' ttl))"

definition DropClaim :: "'e broker \<Rightarrow> string \<Rightarrow> string \<Rightarrow> string \<Rightarrow> ('e, unit) io" where
  "DropClaim q slot typ bid = attempt (ext_call (\<lambda>e. redis_Del q e (ClaimKey slot typ bid))) (\<lambda>_. ret ())"

section \<open>Facts about members\<close>

lemma member_names_eq:
  "member_names pref seen out keys =
     (seen \<union> set (filter (\<lambda>n. n \<noteq> []) (map (\<lambda>k. TrimPrefix k pref) keys)),
      out @ dedup seen (filter (\<lambda>n. n \<noteq> []) (map (\<lambda>k. TrimPrefix k pref) keys)))"
  by (induction pref seen out keys rule: member_names.induct) (auto simp: Let_def insert_absorb)

text \<open>
  The member list is sorted, without duplicates, has the scheduler itself in it, and every
  other name on it comes from a heartbeat key that the scan has returned.
\<close>

theorem Members_sound:
  assumes "Members q g s = Some (Inr members, s')" and "me g \<noteq> []"
  shows "sorted members \<and> distinct members \<and> me g \<in> set members \<and>
    (\<exists>keys. scan_loop q (group_prefix g @ ''*'') [] 0 s = Some (Inr keys, s') \<and>
      set members - {me g} = {n. n \<noteq> [] \<and> (\<exists>k \<in> set keys. n = TrimPrefix k (group_prefix g))} - {me g})"
proof -
  let ?names = "\<lambda>keys. filter (\<lambda>n. n \<noteq> []) (map (\<lambda>k. TrimPrefix k (group_prefix g)) keys)"
  from assms(1) obtain keys where keys: "scan_loop q (group_prefix g @ ''*'') [] 0 s = Some (Inr keys, s')"
    and members: "members = sort (if me g \<notin> set (?names keys) then dedup {} (?names keys) @ [me g] else dedup {} (?names keys))"
    using assms(2) unfolding Members_def
    by (elim bind_Inr_E) (auto simp: member_names_eq Let_def ret_apply split: if_splits)
  have set: "set members = insert (me g) (set (?names keys))"
    unfolding members by auto
  moreover have "distinct members" unfolding members by auto
  moreover have "sorted members" unfolding members by (rule sorted_sort)
  moreover have "set (?names keys) = {n. n \<noteq> [] \<and> (\<exists>k \<in> set keys. n = TrimPrefix k (group_prefix g))}" by auto
  ultimately show ?thesis using keys by simp
qed

text \<open>A group of two whose keys come in two pages, one of them twice.\<close>

definition demo_scan :: "'e broker" where
  "demo_scan = \<lparr>asynq_Enqueue = (\<lambda>e _ _. (Inr [], e)), redis_Set = (\<lambda>e _ _ _. (Inr (), e)),
     redis_SetNX = (\<lambda>e _ _ _. (Inr True, e)), redis_Del = (\<lambda>e _. (Inr (), e)),
     redis_Scan = (\<lambda>e cursor _ _. (Inr (if cursor = 0 then ([''osspilot:sched:tenant:pod-2''], 7)
       else ([''osspilot:sched:tenant:pod-1'', ''osspilot:sched:tenant:pod-2''], 0)), e)),
     parse_url = (\<lambda>_. None)\<rparr>"

theorem Members_sound_witness:
  "\<exists>s'. Members demo_scan \<lparr>role = ''tenant'', me = ''pod-1''\<rparr> \<lparr>db = empty_db, env = ()\<rparr> = Some (Inr [''pod-1'', ''pod-2''], s') \<and>
     sorted [''pod-1'', ''pod-2'']"
proof -
  have "map_option fst (Members demo_scan \<lparr>role = ''tenant'', me = ''pod-1''\<rparr> \<lparr>db = empty_db, env = ()\<rparr>) = Some (Inr [''pod-1'', ''pod-2''])"
    by code_simp
  then obtain s' where "Members demo_scan \<lparr>role = ''tenant'', me = ''pod-1''\<rparr> \<lparr>db = empty_db, env = ()\<rparr> = Some (Inr [''pod-1'', ''pod-2''], s')"
    by (cases "Members demo_scan \<lparr>role = ''tenant'', me = ''pod-1''\<rparr> \<lparr>db = empty_db, env = ()\<rparr>") auto
  from Members_sound [OF this] this show ?thesis by auto
qed

section \<open>Facts about shards\<close>

text \<open>
  The contract of a sharding function: with any list of members, each of them has a part of
  the ids, and no id belongs to two or to none.
\<close>

locale sharding =
  fixes owns :: "'id \<Rightarrow> 'm list \<Rightarrow> 'm \<Rightarrow> bool"
    and ok :: "'m list \<Rightarrow> bool"
  assumes owner_exists: "ok ms \<Longrightarrow> ms \<noteq> [] \<Longrightarrow> \<exists>m \<in> set ms. owns i ms m"
    and owner_unique: "ok ms \<Longrightarrow> owns i ms m \<Longrightarrow> owns i ms m' \<Longrightarrow> m \<in> set ms \<Longrightarrow> m' \<in> set ms \<Longrightarrow> m = m'"
begin

definition shard :: "'m list \<Rightarrow> 'id list \<Rightarrow> 'm \<Rightarrow> 'id list" where
  "shard ms ids m = filter (\<lambda>i. owns i ms m) ids"

lemma shards_cover:
  assumes "ok ms" and "ms \<noteq> []"
  shows "(\<Union>m \<in> set ms. set (shard ms ids m)) = set ids"
  using owner_exists [OF assms] by (auto simp: shard_def)

lemma shards_disjoint:
  assumes "ok ms" and "m \<in> set ms" and "m' \<in> set ms" and "m \<noteq> m'"
  shows "set (shard ms ids m) \<inter> set (shard ms ids m') = {}"
  using owner_unique [OF assms(1)] assms(2-) by (auto simp: shard_def)

end

lemma SearchStrings_found:
  assumes "sorted ms" and "distinct ms" and "i < length ms"
  shows "SearchStrings ms (ms ! i) = i"
  using assms by (rule SearchStrings_nth)

lemma Mine_iff:
  assumes "sorted ms" and "distinct ms" and "m \<in> set ms"
  shows "Mine bid ms m \<longleftrightarrow> ms ! (nat (bid mod 2 ^ 64) mod length ms) = m"
proof -
  obtain i where i: "i < length ms" "ms ! i = m" using assms(3) by (auto simp: in_set_conv_nth)
  then have s: "SearchStrings ms m = i" using SearchStrings_found [OF assms(1,2)] by auto
  have "nat (bid mod 2 ^ 64) mod length ms < length ms" using i by (intro mod_less_divisor) auto
  then show ?thesis
    using i s nth_eq_iff_index_eq [OF assms(2)] by (auto simp: Mine_def Let_def)
qed

interpretation mine: sharding Mine "\<lambda>ms. sorted ms \<and> distinct ms"
proof unfold_locales
  show "\<exists>m \<in> set ms. Mine bid ms m" if "sorted ms \<and> distinct ms" "ms \<noteq> []" for ms :: "string list" and bid
  proof
    have "nat (bid mod 2 ^ 64) mod length ms < length ms" using that(2) by simp
    then show "ms ! (nat (bid mod 2 ^ 64) mod length ms) \<in> set ms" by simp
    then show "Mine bid ms (ms ! (nat (bid mod 2 ^ 64) mod length ms))" using Mine_iff that(1) by blast
  qed
  show "m = m'" if "sorted ms \<and> distinct ms" "Mine bid ms m" "Mine bid ms m'" "m \<in> set ms" "m' \<in> set ms"
    for ms :: "string list" and bid m m'
    using that Mine_iff by metis
qed

text \<open>
  C31: Schedulers that agree on the members share every bucket id, negative ones included,
  among them: each id is the business of exactly one.
\<close>

theorem Mine_partitions:
  assumes "sorted ms" and "distinct ms" and "ms \<noteq> []"
  shows "\<exists>!m. m \<in> set ms \<and> Mine bid ms m"
  using mine.owner_exists [of ms bid] mine.owner_unique [of ms bid] assms by blast

theorem Mine_partitions_witness:
  "\<exists>!m. m \<in> set [''a'', ''b'', ''c''] \<and> Mine (- 1) [''a'', ''b'', ''c''] m"
  by (rule Mine_partitions) (simp_all add: list_less_def list_le_def)

section \<open>Facts about slots\<close>

lemma Truncate_units:
  assumes "0 < i" and "Second dvd i"
  shows "Truncate t i div Second = Truncate t' i div Second \<longleftrightarrow> t div i = t' div i"
proof -
  obtain k where k: "i = Second * k" using assms(2) by (rule dvdE)
  have kpos: "0 < k" using assms(1) k by (simp add: Second_def zero_less_mult_iff)
  have "Truncate t i = Second * (t div i * k)" for t
    using assms(1) minus_mod_eq_div_mult [of t i] by (simp add: Truncate_def k mult.assoc mult.left_commute)
  then have "Truncate t i div Second = t div i * k" for t by (simp add: Second_def)
  then show ?thesis using kpos by simp
qed

lemma Slot_name_eq:
  assumes "0 < i" and "Second dvd i"
  shows "fst (Slot t i) = fst (Slot t' i) \<longleftrightarrow> t div i = t' div i"
  using Truncate_units [OF assms] by (simp add: Slot_def Let_def Format_RFC3339_inject)

lemma Slot_ttl:
  assumes "0 < i"
  shows "(t div i + 1) * i \<le> t + snd (Slot t i)" and "t + snd (Slot t i) < (t div i + 1) * i + Second"
    and "Second \<le> snd (Slot t i)"
proof -
  have "Truncate t i = t div i * i" using assms by (simp add: Truncate_def minus_mod_eq_div_mult)
  then show "(t div i + 1) * i \<le> t + snd (Slot t i)" "t + snd (Slot t i) < (t div i + 1) * i + Second" "Second \<le> snd (Slot t i)"
    using Truncate_bounds [OF assms, of t] by (auto simp: Slot_def Let_def algebra_simps Second_def)
qed

text \<open>
  C32: A slot names one window of its interval: two times get the same slot exactly when they
  are in the same window, and a claim made at the time the slot was computed lives until the
  window ends, at least a second, and at most a second longer than the window.
\<close>

theorem Slot_window:
  assumes "0 < i" and "Second dvd i"
  shows "(fst (Slot t i) = fst (Slot t' i) \<longleftrightarrow> t div i = t' div i) \<and>
    (t div i + 1) * i \<le> t + snd (Slot t i) \<and> t + snd (Slot t i) < (t div i + 1) * i + Second \<and> Second \<le> snd (Slot t i)"
  using Slot_name_eq [OF assms] Slot_ttl [OF assms(1)] by blast

theorem Slot_window_witness: "snd (Slot 0 Hour) \<ge> Hour"
  using Slot_window [of Hour 0] by (simp add: Hour_def Minute_def Second_def)

lemma last_colon:
  assumes "CHR '':'' \<notin> set b" and "CHR '':'' \<notin> set b'"
  shows "a @ CHR '':'' # b = a' @ CHR '':'' # b' \<longleftrightarrow> a = a' \<and> b = b'"
proof -
  have "takeWhile (\<lambda>c. c \<noteq> CHR '':'') (rev (a @ CHR '':'' # b)) = rev b" if "CHR '':'' \<notin> set b" for a b
    using that by (auto simp: takeWhile_append)
  then show ?thesis using assms by (metis append_same_eq rev_rev_ident same_append_eq)
qed

lemma ClaimKey_parts:
  assumes "CHR '':'' \<notin> set typ" "CHR '':'' \<notin> set typ'" "CHR '':'' \<notin> set bid" "CHR '':'' \<notin> set bid'"
  shows "ClaimKey slot typ bid = ClaimKey slot' typ' bid' \<longleftrightarrow> slot = slot' \<and> typ = typ' \<and> bid = bid'"
proof -
  have "ClaimKey slot typ bid = ClaimKey slot' typ' bid' \<longleftrightarrow>
      (slot @ CHR '':'' # typ) @ CHR '':'' # bid = (slot' @ CHR '':'' # typ') @ CHR '':'' # bid'"
    by (simp add: ClaimKey_def)
  also have "\<dots> \<longleftrightarrow> slot @ CHR '':'' # typ = slot' @ CHR '':'' # typ' \<and> bid = bid'"
    by (rule last_colon) (rule assms)+
  also have "\<dots> \<longleftrightarrow> slot = slot' \<and> typ = typ' \<and> bid = bid'"
    using last_colon [OF assms(1,2)] by simp
  finally show ?thesis .
qed

lemma IDString_no_colon: "CHR '':'' \<notin> set (IDString n)"
  using FormatInt_chars [of n] by (auto simp: IDString_def)

text \<open>
  Claim keys do not collide: slot, type and id can be read off a key, as the type and the
  id have no colon.
\<close>

theorem ClaimKey_injective:
  assumes "CHR '':'' \<notin> set typ" and "CHR '':'' \<notin> set typ'"
  shows "ClaimKey slot typ (IDString bid) = ClaimKey slot' typ' (IDString bid') \<longleftrightarrow> slot = slot' \<and> typ = typ' \<and> bid = bid'"
  using ClaimKey_parts [OF assms IDString_no_colon IDString_no_colon] by (simp add: IDString_def)

theorem ClaimKey_injective_witness:
  "ClaimKey ''2024-01-01T00:00:00Z'' ''trash'' (IDString 1) \<noteq> ClaimKey ''2024-01-01T00:00:00Z'' ''trash'' (IDString 11)"
  using ClaimKey_injective [of "''trash''" "''trash''" "''2024-01-01T00:00:00Z''" 1 "''2024-01-01T00:00:00Z''" 11] by simp

end
