(* ===== verification/SchedulerMain.thy ===== *)
theory SchedulerMain
  imports Sched Platform BucketStore
begin

text \<open>
  \<^verbatim>\<open>cmd/scheduler/main.go\<close>: one round of a scheduler. It announces itself, reads the members and
  the active buckets, and enqueues one task per bucket and kind of job for the current slot,
  and one for the statistics. Log output is left out; contexts do not expire.
\<close>

section \<open>Enqueueing\<close>

text \<open>One turn of the loop of \<^verbatim>\<open>enqueueBuckets\<close>. Marshalling two plain fields cannot fail.\<close>

definition enqueue_bucket :: "'e broker \<Rightarrow> Group \<Rightarrow> string list \<Rightarrow> string \<Rightarrow> duration \<Rightarrow> string \<Rightarrow> string \<Rightarrow> duration \<Rightarrow>
    Bucket \<Rightarrow> ('e, unit) io" where
  "enqueue_bucket q g members slot ttl typ task timeout b =
     (if \<not> Mine (ID b) members (me g) then ret ()
      else let bid = IDString (ID b) in
        attempt (Claim q slot typ bid ttl) (\<lambda>r. case r of
          Inl err \<Rightarrow> ret ()
        | Inr ok \<Rightarrow>
            if \<not> ok then ret ()
            else let payload = Marshal_BucketJob \<lparr>bj_BucketID = ID b, bj_BucketName = BucketName b\<rparr> in
              attempt (ext_call (\<lambda>e. asynq_Enqueue q e \<lparr>task_type = task, task_payload = Some payload\<rparr>
                  \<lparr>opt_TaskID = Some (ClaimKey slot typ bid), opt_MaxRetry = 3, opt_Timeout = timeout, opt_Queue = None\<rparr>))
                (\<lambda>r. case r of
                   Inr _ \<Rightarrow> ret ()
                 | Inl err \<Rightarrow>
                     if \<not> errors_Is err (ErrExt TaskIDConflict) then DropClaim q slot typ bid else ret ())))"

definition enqueueBuckets :: "'e broker \<Rightarrow> Group \<Rightarrow> Bucket list \<Rightarrow> string list \<Rightarrow> time \<Rightarrow> duration \<Rightarrow> string \<Rightarrow>
    string \<Rightarrow> duration \<Rightarrow> ('e, unit) io" where
  "enqueueBuckets q g items members now interval typ task timeout =
     (case Slot now interval of (slot, ttl) \<Rightarrow>
        for_each (enqueue_bucket q g members slot ttl typ task timeout) items)"

definition enqueueStats :: "'e broker \<Rightarrow> Group \<Rightarrow> time \<Rightarrow> ('e, unit) io" where
  "enqueueStats q g now =
     (case Slot now Hour of (slot, ttl) \<Rightarrow>
        attempt (Claim q slot ''stats'' ''all'' ttl) (\<lambda>r. case r of
          Inl err \<Rightarrow> ret ()
        | Inr ok \<Rightarrow>
            if \<not> ok then ret ()
            else attempt (ext_call (\<lambda>e. asynq_Enqueue q e \<lparr>task_type = TaskRequestStats, task_payload = None\<rparr>
                \<lparr>opt_TaskID = Some (ClaimKey slot ''stats'' ''all''), opt_MaxRetry = 3, opt_Timeout = 10 * Minute, opt_Queue = None\<rparr>))
              (\<lambda>r. case r of
                 Inr _ \<Rightarrow> ret ()
               | Inl err \<Rightarrow>
                   if \<not> errors_Is err (ErrExt TaskIDConflict) then DropClaim q slot ''stats'' ''all'' else ret ())))"

section \<open>One round\<close>

text \<open>The result is the fingerprint of the members for the next round.\<close>

definition run_round :: "'e ext \<Rightarrow> 'e broker \<Rightarrow> Group \<Rightarrow> string \<Rightarrow> ('e, string) io" where
  "run_round x q g lastMembers =
     attempt (Beat q g) (\<lambda>r. case r of
       Inl err \<Rightarrow> ret lastMembers
     | Inr _ \<Rightarrow> attempt (Members q g) (\<lambda>r. case r of
         Inl err \<Rightarrow> ret lastMembers
       | Inr members \<Rightarrow>
           bind (time_Now x) (\<lambda>now.
           bind (attempt (Buckets_ListActive x) (\<lambda>r. case r of
               Inl err \<Rightarrow> ret ()
             | Inr items \<Rightarrow>
                 bind (enqueueBuckets q g items members now (15 * Minute) ''inventory'' TaskInventoryBucket Hour) (\<lambda>_.
                 bind (enqueueBuckets q g items members now Hour ''trash'' TaskTrashBucket Hour) (\<lambda>_.
                 bind (enqueueBuckets q g items members now (6 * Hour) ''versions'' TaskVersionsBucket Hour) (\<lambda>_.
                 enqueueBuckets q g items members now (6 * Hour) ''multipart'' TaskMultipartBucket Hour))))) (\<lambda>_.
           bind (enqueueStats q g now) (\<lambda>_.
           ret (MembersFingerprint members))))))"

text \<open>The main loop, cut off after a number of rounds: the first at once, then one per tick.\<close>

fun run_rounds :: "'e ext \<Rightarrow> 'e broker \<Rightarrow> Group \<Rightarrow> nat \<Rightarrow> string \<Rightarrow> ('e, unit) io" where
  "run_rounds x q g 0 lastMembers = ret ()"
| "run_rounds x q g (Suc n) lastMembers = bind (run_round x q g lastMembers) (run_rounds x q g n)"

text \<open>
  \<^verbatim>\<open>main\<close>: the process exits with an error unless the configuration is complete and the URLs
  parse. \<open>pg_New\<close> is the error of opening the database pool, if any.
\<close>

definition scheduler_main :: "'e ext \<Rightarrow> 'e broker \<Rightarrow> (string \<Rightarrow> ext_error option) \<Rightarrow> (string \<Rightarrow> string) \<Rightarrow>
    string option \<Rightarrow> nat \<Rightarrow> ('e, unit) io" where
  "scheduler_main x q pg_New os_Getenv hostname rounds =
     (let cfg = Load os_Getenv in
      if RedisURL cfg = [] \<or> DatabaseURL cfg = []
      then throw (ErrNew ''DATABASE_URL and REDIS_URL are required for the scheduler'')
      else (case parse_url q (RedisURL cfg) of
         Some err \<Rightarrow> throw (ErrExt err)
       | None \<Rightarrow> (case sched_New q os_Getenv hostname (RedisURL cfg) ''tenant'' of
           Inl err \<Rightarrow> throw err
         | Inr g \<Rightarrow> (case pg_New (DatabaseURL cfg) of
             Some err \<Rightarrow> throw (ErrExt err)
           | None \<Rightarrow> run_rounds x q g rounds []))))"

section \<open>Facts\<close>

lemma total_Claim [io_rules]: "total (Claim q slot typ bid ttl)"
  unfolding Claim_def Let_def by (intro io_rules)

lemma total_DropClaim [io_rules]: "total (DropClaim q slot typ bid)"
  unfolding DropClaim_def by (intro io_rules)

lemma total_if [io_rules]: "total m \<Longrightarrow> total n \<Longrightarrow> total (if b then m else n)"
  by simp

lemma total_case_sum [io_rules]: "(\<And>e. total (f e)) \<Longrightarrow> (\<And>a. total (g a)) \<Longrightarrow> total (case r of Inl e \<Rightarrow> f e | Inr a \<Rightarrow> g a)"
  by (simp split: sum.split)

lemma total_enqueue_bucket [io_rules]: "total (enqueue_bucket q g members slot ttl typ task timeout b)"
  unfolding enqueue_bucket_def Let_def by (intro io_rules)

lemma total_enqueueBuckets [io_rules]: "total (enqueueBuckets q g items members now interval typ task timeout)"
  unfolding enqueueBuckets_def by (auto intro!: io_rules split: prod.split)

lemma total_enqueueStats [io_rules]: "total (enqueueStats q g now)"
  unfolding enqueueStats_def by (auto intro!: io_rules split: prod.split)

text \<open>Enqueueing never fails, whatever the broker answers.\<close>

lemma DropClaim_ok: "DropClaim q slot typ bid s = Some (r, s') \<Longrightarrow> r = Inr ()"
  by (auto simp: DropClaim_def attempt_def ret_apply split: option.splits prod.splits)

lemma enqueue_bucket_ok: "enqueue_bucket q g members slot ttl typ task timeout b s = Some (r, s') \<Longrightarrow> r = Inr ()"
  by (auto simp: enqueue_bucket_def attempt_def ret_apply Let_def dest!: DropClaim_ok
      split: option.splits prod.splits sum.splits if_splits)

end
