(* ===== verification/Cluster.thy ===== *)
theory Cluster
  imports SchedulerMain
begin

text \<open>
  Several schedulers at once. A round of a scheduler (\<open>SchedulerMain\<close>) is here broken into its
  calls, and the calls of all schedulers interleave, with clock ticks, the work of the
  workers and crashes between them. Every scheduler claims before it enqueues, so that no
  task is enqueued twice in a slot even when the members they see differ.
\<close>

section \<open>Kinds of jobs\<close>

text \<open>The type names and intervals of the calls in \<^verbatim>\<open>run\<close> and \<^verbatim>\<open>enqueueStats\<close>.\<close>

definition interval_of :: "string \<Rightarrow> duration" where
  "interval_of typ =
     (if typ = ''inventory'' then 15 * Minute
      else if typ = ''trash'' \<or> typ = ''stats'' then Hour
      else 6 * Hour)"

definition kinds :: "string set" where
  "kinds = {''inventory'', ''trash'', ''versions'', ''multipart'', ''stats''}"

text \<open>The claim key for a time, and the end of the slot.\<close>

definition key_of :: "time \<Rightarrow> string \<Rightarrow> string \<Rightarrow> string" where
  "key_of t typ bid = ClaimKey (fst (Slot t (interval_of typ))) typ bid"

definition slot_end :: "time \<Rightarrow> string \<Rightarrow> time" where
  "slot_end t typ = (t div interval_of typ + 1) * interval_of typ"

section \<open>The shared state\<close>

text \<open>
  What Redis and the queue hold: the clock, the claims with the time they expire, every task
  ever accepted by its id, and the ids of the tasks that are not finished.
\<close>

record server =
  now_at :: time
  claims :: "string \<Rightarrow> time option"
  accepted :: "string list"
  active :: "string set"

definition held :: "server \<Rightarrow> string \<Rightarrow> bool" where
  "held v key = (case claims v key of None \<Rightarrow> False | Some e \<Rightarrow> now_at v < e)"

definition set_claim :: "string \<Rightarrow> duration \<Rightarrow> server \<Rightarrow> server" where
  "set_claim key ttl v = v\<lparr>claims := (claims v)(key \<mapsto> now_at v + ttl)\<rparr>"

definition drop_claim :: "string \<Rightarrow> server \<Rightarrow> server" where
  "drop_claim key v = v\<lparr>claims := (claims v)(key := None)\<rparr>"

definition accept :: "string \<Rightarrow> server \<Rightarrow> server" where
  "accept key v = v\<lparr>accepted := accepted v @ [key], active := insert key (active v)\<rparr>"

text \<open>Where a scheduler is in its loop: between buckets, about to claim, about to enqueue, or
  about to drop the claim of a task that was not enqueued.\<close>

datatype node = Resting | Claiming time string string | Holding string | Failing string

record cluster =
  srv :: server
  node :: "nat \<Rightarrow> node"

definition set_node :: "nat \<Rightarrow> node \<Rightarrow> cluster \<Rightarrow> cluster" where
  "set_node n p c = c\<lparr>node := (node c)(n := p)\<rparr>"

section \<open>The steps\<close>

text \<open>
  The time a scheduler plans with is its own (\<^verbatim>\<open>time.Now\<close>), the time at which claims expire is that of Redis; \<open>ahead\<close> bounds
  how far any scheduler's clock is ahead. (It may be behind, or the claim late, by any amount.)
  With \<open>prompt\<close>, a claim reaches Redis more than \<open>ahead\<close> before its slot ends; with \<open>lossy\<close>, the queue may
  accept a task and the reply be lost.
\<close>

inductive step :: "time \<Rightarrow> bool \<Rightarrow> bool \<Rightarrow> cluster \<Rightarrow> cluster \<Rightarrow> bool" for ahead prompt lossy where
  tick: "now_at (srv c) \<le> t \<Longrightarrow> step ahead prompt lossy c (c\<lparr>srv := (srv c)\<lparr>now_at := t\<rparr>\<rparr>)"
| plan: "node c n = Resting \<Longrightarrow> typ \<in> kinds \<Longrightarrow> CHR '':'' \<notin> set bid \<Longrightarrow> t \<le> now_at (srv c) + ahead \<Longrightarrow>
    step ahead prompt lossy c (set_node n (Claiming t typ bid) c)"
| claim: "node c n = Claiming t typ bid \<Longrightarrow> \<not> held (srv c) (key_of t typ bid) \<Longrightarrow>
    (prompt \<longrightarrow> now_at (srv c) + ahead < slot_end t typ) \<Longrightarrow>
    step ahead prompt lossy c (set_node n (Holding (key_of t typ bid))
      (c\<lparr>srv := set_claim (key_of t typ bid) (snd (Slot t (interval_of typ))) (srv c)\<rparr>))"
| claim_reply_lost: "node c n = Claiming t typ bid \<Longrightarrow> \<not> held (srv c) (key_of t typ bid) \<Longrightarrow>
    step ahead prompt lossy c (set_node n Resting
      (c\<lparr>srv := set_claim (key_of t typ bid) (snd (Slot t (interval_of typ))) (srv c)\<rparr>))"
| claim_refused: "node c n = Claiming t typ bid \<Longrightarrow> step ahead prompt lossy c (set_node n Resting c)"
| enqueue: "node c n = Holding key \<Longrightarrow> key \<notin> active (srv c) \<Longrightarrow>
    step ahead prompt lossy c (set_node n Resting (c\<lparr>srv := accept key (srv c)\<rparr>))"
| enqueue_conflict: "node c n = Holding key \<Longrightarrow> key \<in> active (srv c) \<Longrightarrow> step ahead prompt lossy c (set_node n Resting c)"
| enqueue_error: "node c n = Holding key \<Longrightarrow> step ahead prompt lossy c (set_node n (Failing key) c)"
| enqueue_reply_lost: "lossy \<Longrightarrow> node c n = Holding key \<Longrightarrow> key \<notin> active (srv c) \<Longrightarrow>
    step ahead prompt lossy c (set_node n (Failing key) (c\<lparr>srv := accept key (srv c)\<rparr>))"
| drop: "node c n = Failing key \<Longrightarrow> step ahead prompt lossy c (set_node n Resting (c\<lparr>srv := drop_claim key (srv c)\<rparr>))"
| drop_error: "node c n = Failing key \<Longrightarrow> step ahead prompt lossy c (set_node n Resting c)"
| finished: "step ahead prompt lossy c (c\<lparr>srv := (srv c)\<lparr>active := active (srv c) - {key}\<rparr>\<rparr>)"
| crash: "step ahead prompt lossy c (set_node n Resting c)"

definition init :: "time \<Rightarrow> cluster" where
  "init t = \<lparr>srv = \<lparr>now_at = t, claims = Map.empty, accepted = [], active = {}\<rparr>, node = (\<lambda>_. Resting)\<rparr>"

inductive reachable :: "time \<Rightarrow> bool \<Rightarrow> bool \<Rightarrow> cluster \<Rightarrow> bool" for ahead prompt lossy where
  start: "reachable ahead prompt lossy (init t)"
| more: "reachable ahead prompt lossy c \<Longrightarrow> step ahead prompt lossy c c' \<Longrightarrow> reachable ahead prompt lossy c'"

section \<open>Keys and slots\<close>

lemma interval_of: "0 < interval_of typ" "Second dvd interval_of typ"
  by (auto simp: interval_of_def Second_def Minute_def Hour_def)

lemma kinds_no_colon: "typ \<in> kinds \<Longrightarrow> CHR '':'' \<notin> set typ"
  by (auto simp: kinds_def)

text \<open>What a planned claim says about its key: the slot of the key has one end.\<close>

definition planned :: "string \<Rightarrow> time \<Rightarrow> bool" where
  "planned key d \<longleftrightarrow> (\<exists>t typ bid. typ \<in> kinds \<and> CHR '':'' \<notin> set bid \<and> key = key_of t typ bid \<and> d = slot_end t typ)"

lemma planned_unique:
  assumes "planned key d" and "planned key d'"
  shows "d = d'"
proof -
  obtain t k b t' k' b' where p: "k \<in> kinds" "k' \<in> kinds" "CHR '':'' \<notin> set b" "CHR '':'' \<notin> set b'"
    "key_of t k b = key_of t' k' b'" "d = slot_end t k" "d' = slot_end t' k'"
    using assms unfolding planned_def by metis
  have eq: "fst (Slot t (interval_of k)) = fst (Slot t' (interval_of k')) \<and> k = k' \<and> b = b'"
    using p(5) ClaimKey_parts [OF kinds_no_colon kinds_no_colon, OF p(1-4)] unfolding key_of_def by blast
  then have "t div interval_of k = t' div interval_of k"
    using Slot_name_eq [OF interval_of] by metis
  then show ?thesis using p(6,7) eq by (simp add: slot_end_def)
qed

lemma claim_covers_slot: "t \<le> now + ahead \<Longrightarrow> slot_end t k \<le> now + snd (Slot t (interval_of k)) + ahead"
  using Slot_ttl(1) [OF interval_of(1), of t k] by (simp add: slot_end_def)

section \<open>At most one task per slot\<close>

definition has_key :: "node \<Rightarrow> string \<Rightarrow> bool" where
  "has_key p key \<longleftrightarrow> p = Holding key \<or> p = Failing key"

text \<open>A key is in use when a scheduler is between its claim and the end of its turn, or the task
  has been accepted. A key in use stays claimed until \<open>ahead\<close> before its slot ends.\<close>

definition in_use :: "cluster \<Rightarrow> string \<Rightarrow> bool" where
  "in_use c key \<longleftrightarrow> (\<exists>n. has_key (node c n) key) \<or> key \<in> set (accepted (srv c))"

definition cluster_inv :: "time \<Rightarrow> cluster \<Rightarrow> bool" where
  "cluster_inv ahead c \<longleftrightarrow>
     (\<forall>n t typ bid. node c n = Claiming t typ bid \<longrightarrow> typ \<in> kinds \<and> CHR '':'' \<notin> set bid \<and> t \<le> now_at (srv c) + ahead) \<and>
     (\<forall>key n m. has_key (node c n) key \<longrightarrow> has_key (node c m) key \<longrightarrow> n = m) \<and>
     (\<forall>key n. has_key (node c n) key \<longrightarrow> key \<notin> set (accepted (srv c))) \<and>
     distinct (accepted (srv c)) \<and>
     (\<forall>key. in_use c key \<longrightarrow> (\<exists>d. planned key d)) \<and>
     (\<forall>key d. in_use c key \<longrightarrow> planned key d \<longrightarrow> now_at (srv c) + ahead < d \<longrightarrow>
        (\<exists>e. claims (srv c) key = Some e \<and> d \<le> e + ahead))"

lemma invD:
  assumes "cluster_inv ahead c"
  shows "node c n = Claiming t typ bid \<Longrightarrow> typ \<in> kinds \<and> CHR '':'' \<notin> set bid \<and> t \<le> now_at (srv c) + ahead"
    and "has_key (node c n) key \<Longrightarrow> has_key (node c m) key \<Longrightarrow> n = m"
    and "has_key (node c n) key \<Longrightarrow> key \<notin> set (accepted (srv c))"
    and "distinct (accepted (srv c))"
    and "in_use c key \<Longrightarrow> \<exists>d. planned key d"
    and "in_use c key \<Longrightarrow> planned key d \<Longrightarrow> now_at (srv c) + ahead < d \<Longrightarrow> \<exists>e. claims (srv c) key = Some e \<and> d \<le> e + ahead"
  using assms unfolding cluster_inv_def by blast+

lemma set_node_simps [simp]: "srv (set_node n p c) = srv c" "node (set_node n p c) = (node c)(n := p)"
  by (simp_all add: set_node_def)

lemma has_key_simps [simp]:
  "\<not> has_key Resting key" "\<not> has_key (Claiming t typ bid) key" "has_key (Holding key') key \<longleftrightarrow> key' = key"
  "has_key (Failing key') key \<longleftrightarrow> key' = key"
  by (auto simp: has_key_def)

lemma held_iff: "held v key \<longleftrightarrow> (\<exists>e. claims v key = Some e \<and> now_at v < e)"
  by (auto simp: held_def split: option.split)

text \<open>A step that only takes keys out of use, and leaves their claims, keeps the invariant.\<close>

lemma inv_less:
  assumes inv: "cluster_inv ahead c" and later: "now_at (srv c) \<le> now_at (srv c')"
    and acc: "accepted (srv c') = accepted (srv c)"
    and keys: "\<And>m key. has_key (node c' m) key \<Longrightarrow> has_key (node c m) key"
    and plans: "\<And>m t k b. node c' m = Claiming t k b \<Longrightarrow> k \<in> kinds \<and> CHR '':'' \<notin> set b \<and> t \<le> now_at (srv c') + ahead"
    and claims: "\<And>key. in_use c' key \<Longrightarrow> held (srv c) key \<Longrightarrow> claims (srv c') key = claims (srv c) key"
  shows "cluster_inv ahead c'"
proof -
  have use: "in_use c' key \<Longrightarrow> in_use c key" for key
    using keys acc by (auto simp: in_use_def)
  show ?thesis
    unfolding cluster_inv_def
  proof (intro conjI allI impI)
    show "\<And>m t k b. node c' m = Claiming t k b \<Longrightarrow> k \<in> kinds" "\<And>m t k b. node c' m = Claiming t k b \<Longrightarrow> CHR '':'' \<notin> set b"
      "\<And>m t k b. node c' m = Claiming t k b \<Longrightarrow> t \<le> now_at (srv c') + ahead" using plans by blast+
    show "distinct (accepted (srv c'))" using invD(4) [OF inv] acc by simp
    show "\<And>key. in_use c' key \<Longrightarrow> \<exists>d. planned key d" using use invD(5) [OF inv] by blast
    show "\<exists>e. Cluster.claims (srv c') key = Some e \<and> d \<le> e + ahead"
      if used: "in_use c' key" "planned key d" "now_at (srv c') + ahead < d" for key d
    proof -
      obtain e where e: "Cluster.claims (srv c) key = Some e" "d \<le> e + ahead"
        using invD(6) [OF inv use [OF used(1)] used(2)] used(3) later by auto
      then have "held (srv c) key" using used(3) later by (simp add: held_iff)
      then show ?thesis using claims [OF used(1)] e by simp
    qed
    show "n = m" if "has_key (node c' n) key" "has_key (node c' m) key" for key n m
      using keys that invD(2) [OF inv] by blast
    show "key \<notin> set (accepted (srv c'))" if "has_key (node c' n) key" for key n
      using keys that invD(3) [OF inv] acc by auto
  qed
qed

lemma inv_init: "cluster_inv ahead (init t)"
  by (simp add: cluster_inv_def init_def in_use_def)

text \<open>A claim that succeeds within its slot finds a key that is not in use.\<close>

lemma claim_fresh:
  assumes inv: "cluster_inv ahead c" and node: "node c n = Claiming t k b" and free: "\<not> held (srv c) (key_of t k b)"
    and time: "now_at (srv c) + ahead < slot_end t k"
  shows "\<not> in_use c (key_of t k b)" and "planned (key_of t k b) (slot_end t k)"
proof -
  show pl: "planned (key_of t k b) (slot_end t k)"
    using invD(1) [OF inv node] by (auto simp: planned_def)
  show "\<not> in_use c (key_of t k b)"
  proof
    assume "in_use c (key_of t k b)"
    from invD(6) [OF inv this pl time] show False
      using free time by (auto simp: held_iff)
  qed
qed

lemma inv_claim:
  assumes inv: "cluster_inv ahead c" and node: "node c n = Claiming t k b" and free: "\<not> held (srv c) (key_of t k b)"
    and time: "now_at (srv c) + ahead < slot_end t k"
  shows "cluster_inv ahead (set_node n (Holding (key_of t k b)) (c\<lparr>srv := set_claim (key_of t k b) (snd (Slot t (interval_of k))) (srv c)\<rparr>))"
    (is "cluster_inv ahead ?c")
proof -
  let ?key = "key_of t k b"
  note fresh = claim_fresh [OF assms]
  have srv: "accepted (srv ?c) = accepted (srv c)" "now_at (srv ?c) = now_at (srv c)"
    "claims (srv ?c) = (claims (srv c))(?key \<mapsto> now_at (srv c) + snd (Slot t (interval_of k)))"
    by (simp_all add: set_claim_def)
  have keys: "has_key (node ?c m) key \<longleftrightarrow> (if m = n then key = ?key else has_key (node c m) key)" for m key
    by auto
  have use: "in_use ?c key \<longleftrightarrow> key = ?key \<or> in_use c key" for key
  proof -
    have "\<not> has_key (node c n) key" using node by simp
    then show ?thesis unfolding in_use_def keys srv(1) by metis
  qed
  have unused: "\<not> has_key (node c m) ?key" "?key \<notin> set (accepted (srv c))" for m
    using fresh(1) by (auto simp: in_use_def)
  have covers: "slot_end t k \<le> now_at (srv c) + snd (Slot t (interval_of k)) + ahead"
    using claim_covers_slot invD(1) [OF inv node] by blast
  show ?thesis
    unfolding cluster_inv_def
  proof (intro conjI allI impI)
    fix m t' k' b'
    assume "node ?c m = Claiming t' k' b'"
    then have "node c m = Claiming t' k' b'" by (auto split: if_splits)
    then show "k' \<in> kinds" "CHR '':'' \<notin> set b'" "t' \<le> now_at (srv ?c) + ahead"
      using invD(1) [OF inv] srv(2) by auto
  next
    show "m = m'" if "has_key (node ?c m) key" "has_key (node ?c m') key" for key m m'
      using that unused(1) invD(2) [OF inv] unfolding keys by (auto split: if_splits)
    show "key \<notin> set (accepted (srv ?c))" if "has_key (node ?c m) key" for key m
      using that unused(2) invD(3) [OF inv] unfolding keys srv by (auto split: if_splits)
    show "distinct (accepted (srv ?c))" using invD(4) [OF inv] srv(1) by simp
    show "\<exists>d. planned key d" if "in_use ?c key" for key
      using that fresh(2) invD(5) [OF inv] unfolding use by blast
    show "\<exists>e. claims (srv ?c) key = Some e \<and> d \<le> e + ahead" if "in_use ?c key" "planned key d" "now_at (srv ?c) + ahead < d" for key d
    proof (cases "key = ?key")
      case True
      then show ?thesis using planned_unique [OF that(2)] fresh(2) covers srv(3) by auto
    next
      case False
      then show ?thesis using that use invD(6) [OF inv, of key d] srv by auto
    qed
  qed
qed

lemma inv_enqueue:
  assumes inv: "cluster_inv ahead c" and node: "node c n = Holding key"
  shows "cluster_inv ahead (set_node n Resting (c\<lparr>srv := accept key (srv c)\<rparr>))" (is "cluster_inv ahead ?c")
proof -
  have has: "has_key (node c n) key" using node by simp
  have keys: "has_key (node ?c m) key' \<Longrightarrow> has_key (node c m) key' \<and> key' \<noteq> key" for m key'
    using invD(2) [OF inv has] by (auto split: if_splits)
  have srv: "accepted (srv ?c) = accepted (srv c) @ [key]" "now_at (srv ?c) = now_at (srv c)" "claims (srv ?c) = claims (srv c)"
    by (simp_all add: accept_def)
  have use: "in_use ?c key' \<Longrightarrow> in_use c key'" for key'
    using keys has srv(1) by (auto simp: in_use_def)
  show ?thesis
    unfolding cluster_inv_def
  proof (intro conjI allI impI)
    fix m t' k' b'
    assume "node ?c m = Claiming t' k' b'"
    then have "node c m = Claiming t' k' b'" by (auto split: if_splits)
    then show "k' \<in> kinds" "CHR '':'' \<notin> set b'" "t' \<le> now_at (srv ?c) + ahead"
      using invD(1) [OF inv] srv(2) by auto
  next
    show "m = m'" if "has_key (node ?c m) key'" "has_key (node ?c m') key'" for key' m m'
      using keys that invD(2) [OF inv] by blast
    show "key' \<notin> set (accepted (srv ?c))" if "has_key (node ?c m) key'" for key' m
      using keys [OF that] invD(3) [OF inv] srv(1) by auto
    show "distinct (accepted (srv ?c))" using invD(3) [OF inv has] invD(4) [OF inv] srv(1) by simp
    show "\<exists>d. planned key' d" if "in_use ?c key'" for key' using use [OF that] invD(5) [OF inv] by blast
    show "\<exists>e. claims (srv ?c) key' = Some e \<and> d \<le> e + ahead" if "in_use ?c key'" "planned key' d" "now_at (srv ?c) + ahead < d" for key' d
      using invD(6) [OF inv use [OF that(1)] that(2)] that(3) srv(2,3) by simp
  qed
qed

text \<open>A scheduler that moves on without the server keeps the invariant, if it lets go of keys at most.\<close>

lemma inv_move:
  assumes inv: "cluster_inv ahead c" and less: "\<And>key. has_key p key \<Longrightarrow> has_key (node c n) key"
    and plans: "\<And>t k b. p = Claiming t k b \<Longrightarrow> k \<in> kinds \<and> CHR '':'' \<notin> set b \<and> t \<le> now_at (srv c) + ahead"
  shows "cluster_inv ahead (set_node n p c)"
  by (rule inv_less [OF inv]) (use less plans invD(1) [OF inv] in \<open>auto split: if_splits\<close>)

lemma inv_rest: "cluster_inv ahead c \<Longrightarrow> cluster_inv ahead (set_node n Resting c)"
  by (rule inv_move) simp_all

text \<open>So does the server when time passes, or a task ends.\<close>

lemma inv_tick:
  assumes inv: "cluster_inv ahead c" and later: "now_at (srv c) \<le> t"
  shows "cluster_inv ahead (c\<lparr>srv := (srv c)\<lparr>now_at := t\<rparr>\<rparr>)"
proof -
  have "k \<in> kinds \<and> CHR '':'' \<notin> set b \<and> t' \<le> t + ahead" if "node c m = Claiming t' k b" for m t' k b
    using invD(1) [OF inv that] later by simp
  then show ?thesis by (intro inv_less [OF inv]) (use later in auto)
qed

lemma inv_finished: "cluster_inv ahead c \<Longrightarrow> cluster_inv ahead (c\<lparr>srv := (srv c)\<lparr>active := A\<rparr>\<rparr>)"
  by (rule inv_less, assumption) (auto dest: invD(1))

text \<open>And a claim whose reply is lost, or the end of a claim: its key is not in use.\<close>

lemma inv_claim_lost:
  assumes inv: "cluster_inv ahead c" and free: "\<not> held (srv c) key"
  shows "cluster_inv ahead (set_node n Resting (c\<lparr>srv := set_claim key ttl (srv c)\<rparr>))"
  by (rule inv_less [OF inv]) (use free invD(1) [OF inv] in \<open>auto simp: set_claim_def split: if_splits\<close>)

lemma inv_drop:
  assumes inv: "cluster_inv ahead c" and node: "node c n = Failing key"
  shows "cluster_inv ahead (set_node n Resting (c\<lparr>srv := drop_claim key (srv c)\<rparr>))"
proof -
  have has: "has_key (node c n) key" using node by simp
  have out: "\<not> in_use (set_node n Resting (c\<lparr>srv := drop_claim key (srv c)\<rparr>)) key"
    using invD(2,3) [OF inv has] by (auto simp: in_use_def drop_claim_def split: if_splits)
  show ?thesis
    by (rule inv_less [OF inv]) (use out invD(1) [OF inv] in \<open>auto simp: drop_claim_def split: if_splits\<close>)
qed

text \<open>The steps of schedulers that are prompt, with a queue that loses no reply.\<close>

inductive_cases step_promptE: "step ahead True False c c'"

lemma inv_step:
  assumes "step ahead True False c c'" and "cluster_inv ahead c"
  shows "cluster_inv ahead c'"
  using assms
  by (elim step_promptE)
    (simp_all add: inv_tick inv_claim inv_claim_lost inv_rest inv_enqueue inv_drop inv_finished, (rule inv_move; simp)+)

lemma inv_reachable: "reachable ahead True False c \<Longrightarrow> cluster_inv ahead c"
  by (induction rule: reachable.induct) (auto intro: inv_init inv_step)

text \<open>
  C7: Whatever the schedulers do, in any order, with crashes, clock ticks, errors and lost
  replies of claims: as long as no scheduler's clock is more than \<open>ahead\<close> ahead of that of Redis, every claim that a scheduler
  goes on with reaches Redis more than \<open>ahead\<close> before its slot ends, and no
  reply of the queue is lost, no task is enqueued twice for the same kind, bucket and slot,
  and the claim of a task being enqueued belongs to one scheduler. (With clocks that are never ahead, \<open>ahead\<close> is 0 and the claim has to arrive
  within its slot.)
\<close>

theorem at_most_once:
  assumes "reachable ahead True False c"
  shows "distinct (accepted (srv c)) \<and>
    (\<forall>key n m. has_key (node c n) key \<and> has_key (node c m) key \<longrightarrow> n = m) \<and>
    (\<forall>key n. has_key (node c n) key \<longrightarrow> key \<notin> set (accepted (srv c)))"
  using invD(2,3,4) [OF inv_reachable [OF assms]] by blast

section \<open>Runs\<close>

text \<open>A run of given steps, to exhibit single states.\<close>

inductive steps :: "time \<Rightarrow> bool \<Rightarrow> bool \<Rightarrow> cluster \<Rightarrow> cluster \<Rightarrow> bool" for ahead prompt lossy where
  none: "steps ahead prompt lossy c c"
| further: "step ahead prompt lossy c c' \<Longrightarrow> steps ahead prompt lossy c' c'' \<Longrightarrow> steps ahead prompt lossy c c''"

lemma steps_one: "step ahead prompt lossy c c' \<Longrightarrow> steps ahead prompt lossy c c'"
  by (auto intro: steps.intros)

lemma steps_trans: "steps ahead prompt lossy c c' \<Longrightarrow> steps ahead prompt lossy c' c'' \<Longrightarrow> steps ahead prompt lossy c c''"
  by (induction rule: steps.induct) (auto intro: steps.intros)

lemma reachable_steps: "steps ahead prompt lossy c c' \<Longrightarrow> reachable ahead prompt lossy c \<Longrightarrow> reachable ahead prompt lossy c'"
  by (induction rule: steps.induct) (auto intro: reachable.intros)

lemma steps_snoc: "steps ahead prompt lossy c c' \<Longrightarrow> step ahead prompt lossy c' c'' \<Longrightarrow> steps ahead prompt lossy c c''"
  using steps_trans steps_one by blast

text \<open>One scheduler plans, claims and enqueues.\<close>

lemma steps_enqueue:
  assumes "node c n = Resting" and "k \<in> kinds" and "CHR '':'' \<notin> set b" and "t \<le> now_at (srv c) + ahead"
    and "\<not> held (srv c) (key_of t k b)" and "prompt \<longrightarrow> now_at (srv c) + ahead < slot_end t k"
    and "key_of t k b \<notin> active (srv c)"
  shows "steps ahead prompt lossy c (c\<lparr>srv := accept (key_of t k b) (set_claim (key_of t k b) (snd (Slot t (interval_of k))) (srv c))\<rparr>)"
proof -
  let ?c1 = "set_node n (Claiming t k b) c"
  let ?c2 = "set_node n (Holding (key_of t k b)) (?c1\<lparr>srv := set_claim (key_of t k b) (snd (Slot t (interval_of k))) (srv ?c1)\<rparr>)"
  let ?c3 = "set_node n Resting (?c2\<lparr>srv := accept (key_of t k b) (srv ?c2)\<rparr>)"
  have "step ahead prompt lossy c ?c1" using assms by (intro step.plan) simp_all
  moreover have "step ahead prompt lossy ?c1 ?c2" using assms by (intro step.claim) simp_all
  moreover have "step ahead prompt lossy ?c2 ?c3" using assms by (intro step.enqueue) (simp_all add: set_claim_def)
  moreover have "?c3 = c\<lparr>srv := accept (key_of t k b) (set_claim (key_of t k b) (snd (Slot t (interval_of k))) (srv c))\<rparr>"
    using assms(1) by (simp add: set_node_def fun_eq_iff)
  ultimately show ?thesis using steps.intros by metis
qed

lemma steps_server:
  assumes "step ahead prompt lossy c (c\<lparr>srv := v\<rparr>)" and "reachable ahead prompt lossy c"
  shows "reachable ahead prompt lossy (c\<lparr>srv := v\<rparr>)"
  using reachable.more [OF assms(2,1)] .

text \<open>A scheduler whose clock is one second ahead.\<close>

theorem at_most_once_witness:
  "\<exists>c. reachable Second True False c \<and> accepted (srv c) = [key_of Second ''trash'' ''1''] \<and> distinct (accepted (srv c))"
proof -
  let ?c = "(init 0)\<lparr>srv := accept (key_of Second ''trash'' ''1'')
     (set_claim (key_of Second ''trash'' ''1'') (snd (Slot Second (interval_of ''trash''))) (srv (init 0)))\<rparr>"
  have "steps Second True False (init 0) ?c"
    by (rule steps_enqueue [where n = 0]) (simp_all add: init_def kinds_def held_def slot_end_def interval_of_def go_defs)
  then have r: "reachable Second True False ?c" using reachable_steps reachable.start by blast
  then show ?thesis using at_most_once [OF r] by (intro exI [of _ ?c]) (simp add: accept_def set_claim_def init_def)
qed

subsection \<open>What the claims do not give\<close>

text \<open>Nobody is at work on the key, but it is claimed.\<close>

definition abandoned :: "cluster \<Rightarrow> string \<Rightarrow> time \<Rightarrow> bool" where
  "abandoned c key e \<longleftrightarrow> claims (srv c) key = Some e \<and> (\<forall>n. \<not> has_key (node c n) key)"

lemma abandoned_step:
  assumes "step ahead prompt lossy c c'" and "abandoned c key e" and "now_at (srv c') < e"
  shows "abandoned c' key e \<and> count_list (accepted (srv c')) key = count_list (accepted (srv c)) key"
proof -
  have idle: "node c n \<noteq> Holding key" "node c n \<noteq> Failing key" for n
    using assms(2) unfolding abandoned_def has_key_def by blast+
  have claim: "claims (srv c) key = Some e" using assms(2) by (simp add: abandoned_def)
  have "claims (srv c') key = Some e \<and> (\<forall>n. node c' n \<noteq> Holding key \<and> node c' n \<noteq> Failing key) \<and>
      count_list (accepted (srv c')) key = count_list (accepted (srv c)) key"
    using assms(1,3) idle claim
    by (cases rule: step.cases) (auto simp: accept_def set_claim_def drop_claim_def held_iff)
  then show ?thesis unfolding abandoned_def has_key_def by blast
qed

lemma step_clock: "step ahead prompt lossy c c' \<Longrightarrow> now_at (srv c) \<le> now_at (srv c')"
  by (induction rule: step.induct) (auto simp: accept_def set_claim_def drop_claim_def)

lemma steps_clock: "steps ahead prompt lossy c c' \<Longrightarrow> now_at (srv c) \<le> now_at (srv c')"
  by (induction rule: steps.induct) (auto dest: step_clock)

text \<open>
  C29: A scheduler that dies between its claim and the enqueueing takes the slot with it: the
  claim stays until it expires, and until then no scheduler enqueues the task.
\<close>

theorem abandoned_claim_blocks:
  assumes "steps ahead prompt lossy c c'" and "abandoned c key e" and "now_at (srv c') < e"
  shows "count_list (accepted (srv c')) key = count_list (accepted (srv c)) key"
  using assms
proof (induction rule: steps.induct)
  case (further c c1 c2)
  have "now_at (srv c1) < e" using steps_clock [OF further(2)] further(5) by simp
  from abandoned_step [OF further(1,4) this] show ?case using further by simp
qed simp

theorem abandoned_claim_blocks_witness:
  "\<exists>c c'. reachable 0 True False c \<and> abandoned c (key_of 0 ''trash'' ''1'') Hour \<and> steps 0 True False c c' \<and>
     now_at (srv c') = 30 * Minute \<and> count_list (accepted (srv c')) (key_of 0 ''trash'' ''1'') = 0"
proof -
  let ?key = "key_of 0 ''trash'' ''1''"
  let ?c1 = "set_node 0 (Claiming 0 ''trash'' ''1'') (init 0)"
  let ?c2 = "set_node 0 (Holding ?key) (?c1\<lparr>srv := set_claim ?key (snd (Slot 0 (interval_of ''trash''))) (srv ?c1)\<rparr>)"
  let ?c3 = "set_node 0 Resting ?c2"
  let ?c4 = "?c3\<lparr>srv := (srv ?c3)\<lparr>now_at := 30 * Minute\<rparr>\<rparr>"
  have "step 0 True False (init 0) ?c1" by (rule step.plan) (simp_all add: init_def kinds_def)
  moreover have "step 0 True False ?c1 ?c2"
    by (rule step.claim) (simp_all add: init_def held_iff slot_end_def interval_of_def go_defs)
  moreover have "step 0 True False ?c2 ?c3" by (rule step.crash)
  ultimately have r: "reachable 0 True False ?c3" using reachable.intros by metis
  have run: "steps 0 True False ?c3 ?c4"
    by (rule steps_one, rule step.tick) (simp add: init_def set_claim_def go_defs)
  have gone: "abandoned ?c3 ?key Hour"
    by (simp add: abandoned_def set_claim_def init_def Slot_def Truncate_def interval_of_def go_defs)
  have "now_at (srv ?c4) < Hour" by (simp add: go_defs)
  from abandoned_claim_blocks [OF run gone this] show ?thesis
    using r run gone by (intro exI [of _ ?c3] exI [of _ ?c4]) (simp add: init_def set_claim_def)
qed

section \<open>The code of a round takes these steps\<close>

text \<open>
  The documented behaviour of Redis and of the queue, with nobody else at work: \<open>V e\<close> is the
  server in environment \<open>e\<close>. Every call may fail, and may have been executed when it does; the client
  library may send \<^verbatim>\<open>SETNX\<close> again when its reply is lost, and then report that the key is already there.
\<close>

definition setnx_contract :: "'e broker \<Rightarrow> ('e \<Rightarrow> server) \<Rightarrow> bool" where
  "setnx_contract q V \<longleftrightarrow> (\<forall>e key val ttl r e'. redis_SetNX q e key val ttl = (r, e') \<longrightarrow>
     r = Inr True \<and> \<not> held (V e) key \<and> V e' = set_claim key ttl (V e) \<or>
     r = Inr False \<and> (held (V e) key \<and> V e' = V e \<or> \<not> held (V e) key \<and> V e' = set_claim key ttl (V e)) \<or>
     (\<exists>err. r = Inl err) \<and> (V e' = V e \<or> \<not> held (V e) key \<and> V e' = set_claim key ttl (V e)))"

definition del_contract :: "'e broker \<Rightarrow> ('e \<Rightarrow> server) \<Rightarrow> bool" where
  "del_contract q V \<longleftrightarrow> (\<forall>e key r e'. redis_Del q e key = (r, e') \<longrightarrow>
     V e' = drop_claim key (V e) \<or> (\<exists>err. r = Inl err) \<and> V e' = V e)"

definition enqueue_contract :: "'e broker \<Rightarrow> ('e \<Rightarrow> server) \<Rightarrow> bool" where
  "enqueue_contract q V \<longleftrightarrow> (\<forall>e tk opts key r e'. opt_TaskID opts = Some key \<longrightarrow> asynq_Enqueue q e tk opts = (r, e') \<longrightarrow>
     (\<exists>tid. r = Inr tid) \<and> key \<notin> active (V e) \<and> V e' = accept key (V e) \<or>
     r = Inl TaskIDConflict \<and> key \<in> active (V e) \<and> V e' = V e \<or>
     (\<exists>err. r = Inl err \<and> err \<noteq> TaskIDConflict) \<and> (V e' = V e \<or> key \<notin> active (V e) \<and> V e' = accept key (V e)))"

lemma enqueue_contractD:
  "enqueue_contract q V \<Longrightarrow> asynq_Enqueue q e tk opts = (r, e') \<Longrightarrow> opt_TaskID opts = Some key \<Longrightarrow>
     (\<exists>tid. r = Inr tid) \<and> key \<notin> active (V e) \<and> V e' = accept key (V e) \<or>
     r = Inl TaskIDConflict \<and> key \<in> active (V e) \<and> V e' = V e \<or>
     (\<exists>err. r = Inl err \<and> err \<noteq> TaskIDConflict) \<and> (V e' = V e \<or> key \<notin> active (V e) \<and> V e' = accept key (V e))"
  unfolding enqueue_contract_def by blast

definition broker_contract :: "'e broker \<Rightarrow> ('e \<Rightarrow> server) \<Rightarrow> bool" where
  "broker_contract q V \<longleftrightarrow> setnx_contract q V \<and> del_contract q V \<and> enqueue_contract q V"

text \<open>A scheduler between two calls, with the server as it is in a state of the program.\<close>

definition at :: "cluster \<Rightarrow> nat \<Rightarrow> node \<Rightarrow> server \<Rightarrow> cluster" where
  "at c n p v = c\<lparr>srv := v, node := (node c)(n := p)\<rparr>"

lemma at_simps [simp]: "srv (at c n p v) = v" "node (at c n p v) n = p"
  by (simp_all add: at_def)

lemma at_steps:
  assumes "k \<in> kinds" and "CHR '':'' \<notin> set b"
  shows "t \<le> now_at v + ahead \<Longrightarrow> step ahead prompt lossy (at c n Resting v) (at c n (Claiming t k b) v)"
    and "\<not> held v (key_of t k b) \<Longrightarrow> step ahead False lossy (at c n (Claiming t k b) v)
      (at c n (Holding (key_of t k b)) (set_claim (key_of t k b) (snd (Slot t (interval_of k))) v))"
    and "\<not> held v (key_of t k b) \<Longrightarrow> step ahead prompt lossy (at c n (Claiming t k b) v)
      (at c n Resting (set_claim (key_of t k b) (snd (Slot t (interval_of k))) v))"
    and "step ahead prompt lossy (at c n (Claiming t k b) v) (at c n Resting v)"
    and "key \<notin> active v \<Longrightarrow> step ahead prompt lossy (at c n (Holding key) v) (at c n Resting (accept key v))"
    and "key \<in> active v \<Longrightarrow> step ahead prompt lossy (at c n (Holding key) v) (at c n Resting v)"
    and "step ahead prompt lossy (at c n (Holding key) v) (at c n (Failing key) v)"
    and "key \<notin> active v \<Longrightarrow> step ahead prompt True (at c n (Holding key) v) (at c n (Failing key) (accept key v))"
    and "step ahead prompt lossy (at c n (Failing key) v) (at c n Resting (drop_claim key v))"
    and "step ahead prompt lossy (at c n (Failing key) v) (at c n Resting v)"
proof -
  have s: "set_node n p (c'\<lparr>srv := v'\<rparr>) = at c n p v'" "set_node n p c' = at c n p v" if "c' = at c n p' v" for c' p p' v v'
    using that by (simp_all add: at_def set_node_def)
  note mk = s [OF refl]
  show "t \<le> now_at v + ahead \<Longrightarrow> step ahead prompt lossy (at c n Resting v) (at c n (Claiming t k b) v)"
    using step.plan [of "at c n Resting v" n k b t] assms by (simp add: mk)
  show "\<not> held v (key_of t k b) \<Longrightarrow> step ahead False lossy (at c n (Claiming t k b) v)
      (at c n (Holding (key_of t k b)) (set_claim (key_of t k b) (snd (Slot t (interval_of k))) v))"
    using step.claim [of "at c n (Claiming t k b) v" n t k b False] by (simp add: mk)
  show "\<not> held v (key_of t k b) \<Longrightarrow> step ahead prompt lossy (at c n (Claiming t k b) v)
      (at c n Resting (set_claim (key_of t k b) (snd (Slot t (interval_of k))) v))"
    using step.claim_reply_lost [of "at c n (Claiming t k b) v" n t k b] by (simp add: mk)
  show "step ahead prompt lossy (at c n (Claiming t k b) v) (at c n Resting v)"
    using step.claim_refused [of "at c n (Claiming t k b) v" n t k b] by (simp add: mk)
  show "key \<notin> active v \<Longrightarrow> step ahead prompt lossy (at c n (Holding key) v) (at c n Resting (accept key v))"
    using step.enqueue [of "at c n (Holding key) v" n key] by (simp add: mk)
  show "key \<in> active v \<Longrightarrow> step ahead prompt lossy (at c n (Holding key) v) (at c n Resting v)"
    using step.enqueue_conflict [of "at c n (Holding key) v" n key] by (simp add: mk)
  show "step ahead prompt lossy (at c n (Holding key) v) (at c n (Failing key) v)"
    using step.enqueue_error [of "at c n (Holding key) v" n key] by (simp add: mk)
  show "key \<notin> active v \<Longrightarrow> step ahead prompt True (at c n (Holding key) v) (at c n (Failing key) (accept key v))"
    using step.enqueue_reply_lost [of True "at c n (Holding key) v" n key] by (simp add: mk)
  show "step ahead prompt lossy (at c n (Failing key) v) (at c n Resting (drop_claim key v))"
    using step.drop [of "at c n (Failing key) v" n key] by (simp add: mk)
  show "step ahead prompt lossy (at c n (Failing key) v) (at c n Resting v)"
    using step.drop_error [of "at c n (Failing key) v" n key] by (simp add: mk)
qed

lemma DropClaim_steps:
  assumes "del_contract q V" and "DropClaim q slot k b s = Some (r, s')"
  shows "db s' = db s \<and> (V (env s') = drop_claim (ClaimKey slot k b) (V (env s)) \<or> V (env s') = V (env s))"
proof -
  obtain q' e where del: "redis_Del q (env s) (ClaimKey slot k b) = (q', e)" by fastforce
  then have "V e = drop_claim (ClaimKey slot k b) (V (env s)) \<or> V e = V (env s)"
    using assms(1) by (auto simp: del_contract_def)
  then show ?thesis using assms(2) del by (auto simp: DropClaim_def attempt_def ext_call_def ret_apply split: sum.splits)
qed

lemma Claim_steps:
  assumes "setnx_contract q V" and "Claim q (fst (Slot t i)) k b (snd (Slot t i)) s = Some (r, s')"
  shows "db s' = db s \<and>
    (r = Inr True \<and> \<not> held (V (env s)) (ClaimKey (fst (Slot t i)) k b) \<and>
       V (env s') = set_claim (ClaimKey (fst (Slot t i)) k b) (snd (Slot t i)) (V (env s)) \<or>
     r \<noteq> Inr True \<and> (V (env s') = V (env s) \<or> \<not> held (V (env s)) (ClaimKey (fst (Slot t i)) k b) \<and>
       V (env s') = set_claim (ClaimKey (fst (Slot t i)) k b) (snd (Slot t i)) (V (env s))))"
proof -
  have ttl: "\<not> snd (Slot t i) < Second" by (simp add: Slot_def Let_def)
  obtain q' e where call: "redis_SetNX q (env s) (ClaimKey (fst (Slot t i)) k b) ''1'' (snd (Slot t i)) = (q', e)" by fastforce
  then have "q' = Inr True \<and> \<not> held (V (env s)) (ClaimKey (fst (Slot t i)) k b) \<and> V e = set_claim (ClaimKey (fst (Slot t i)) k b) (snd (Slot t i)) (V (env s)) \<or>
     q' = Inr False \<and> (V e = V (env s) \<or> \<not> held (V (env s)) (ClaimKey (fst (Slot t i)) k b) \<and>
       V e = set_claim (ClaimKey (fst (Slot t i)) k b) (snd (Slot t i)) (V (env s))) \<or>
     (\<exists>err. q' = Inl err) \<and> (V e = V (env s) \<or> \<not> held (V (env s)) (ClaimKey (fst (Slot t i)) k b) \<and>
       V e = set_claim (ClaimKey (fst (Slot t i)) k b) (snd (Slot t i)) (V (env s)))"
    using assms(1) unfolding setnx_contract_def by blast
  then show ?thesis
    using assms(2) call ttl by (auto simp: Claim_def Let_def ext_call_def split: sum.splits)
qed

text \<open>The four ways through one turn of the loop.\<close>

definition claim_opts :: "string \<Rightarrow> duration \<Rightarrow> enqueue_opts" where
  "claim_opts key timeout = \<lparr>opt_TaskID = Some key, opt_MaxRetry = 3, opt_Timeout = timeout, opt_Queue = None\<rparr>"

lemma enqueue_bucket_cases:
  assumes "enqueue_bucket q g members slot ttl k task timeout b s = Some (r, s')"
  obtains (skipped) "r = Inr ()" "s' = s"
  | (refused) rc where "Claim q slot k (IDString (ID b)) ttl s = Some (rc, s')" "rc \<noteq> Inr True" "r = Inr ()"
  | (enqueued) s1 qe e where "Claim q slot k (IDString (ID b)) ttl s = Some (Inr True, s1)"
      "asynq_Enqueue q (env s1) \<lparr>task_type = task, task_payload = Some (Marshal_BucketJob \<lparr>bj_BucketID = ID b, bj_BucketName = BucketName b\<rparr>)\<rparr>
         (claim_opts (ClaimKey slot k (IDString (ID b))) timeout) = (qe, e)"
      "qe = Inl TaskIDConflict \<or> (\<exists>tid. qe = Inr tid)" "r = Inr ()" "s' = s1\<lparr>env := e\<rparr>"
  | (dropped) s1 err e where "Claim q slot k (IDString (ID b)) ttl s = Some (Inr True, s1)"
      "asynq_Enqueue q (env s1) \<lparr>task_type = task, task_payload = Some (Marshal_BucketJob \<lparr>bj_BucketID = ID b, bj_BucketName = BucketName b\<rparr>)\<rparr>
         (claim_opts (ClaimKey slot k (IDString (ID b))) timeout) = (Inl err, e)"
      "err \<noteq> TaskIDConflict" "DropClaim q slot k (IDString (ID b)) (s1\<lparr>env := e\<rparr>) = Some (r, s')"
proof (cases "Mine (ID b) members (me g)")
  case False
  then show ?thesis using assms skipped by (simp add: enqueue_bucket_def ret_apply)
next
  case mine: True
  obtain rc s1 where claim: "Claim q slot k (IDString (ID b)) ttl s = Some (rc, s1)"
    using total_Claim by (metis not_None_eq surj_pair total_def)
  show ?thesis
  proof (cases "rc = Inr True")
    case False
    then show ?thesis
      using assms claim mine refused by (auto simp: enqueue_bucket_def attempt_def ret_apply Let_def split: sum.splits)
  next
    case True
    obtain qe e where enq: "asynq_Enqueue q (env s1)
        \<lparr>task_type = task, task_payload = Some (Marshal_BucketJob \<lparr>bj_BucketID = ID b, bj_BucketName = BucketName b\<rparr>)\<rparr>
        (claim_opts (ClaimKey slot k (IDString (ID b))) timeout) = (qe, e)" by fastforce
    note run = assms [unfolded enqueue_bucket_def] claim mine True enq [unfolded claim_opts_def]
    show ?thesis
    proof (cases "\<exists>err. qe = Inl err \<and> err \<noteq> TaskIDConflict")
      case True
      then show ?thesis
        using run claim enq dropped by (auto simp: attempt_def ret_apply Let_def ext_call_def)
    next
      case False
      then have ok: "qe = Inl TaskIDConflict \<or> (\<exists>tid. qe = Inr tid)" by (cases qe) auto
      then have "r = Inr () \<and> s' = s1\<lparr>env := e\<rparr>"
        using run by (elim disjE exE) (simp_all add: attempt_def ret_apply Let_def ext_call_def)
      then show ?thesis using claim enq True enqueued [OF _ _ ok] by simp
    qed
  qed
qed

text \<open>
  C8: The code takes these steps. One turn of the loop of \<^verbatim>\<open>enqueueBuckets\<close>, whatever Redis and
  the queue answer, is a run of the scheduler from rest to rest; it never fails and never
  touches the database. \<open>t\<close> is the time that the scheduler has read at the start of the round, at most \<open>ahead\<close> ahead of the clock of Redis.
\<close>

theorem enqueue_bucket_refines:
  assumes con: "broker_contract q V" and kind: "k \<in> kinds" and time: "t \<le> now_at (V (env s)) + ahead"
    and run: "enqueue_bucket q g members (fst (Slot t (interval_of k))) (snd (Slot t (interval_of k))) k task timeout b s = Some (r, s')"
  shows "r = Inr () \<and> db s' = db s \<and> steps ahead False True (at c n Resting (V (env s))) (at c n Resting (V (env s')))"
proof -
  let ?id = "IDString (ID b)" and ?slot = "fst (Slot t (interval_of k))"
  let ?key = "key_of t k ?id"
  have key: "ClaimKey ?slot k ?id = ?key" "opt_TaskID (claim_opts ?key timeout) = Some ?key" by (simp_all add: key_of_def claim_opts_def)
  have parts: "setnx_contract q V" "del_contract q V" "enqueue_contract q V" using con by (simp_all add: broker_contract_def)
  note st = at_steps [OF kind IDString_no_colon [of "ID b"]]
  have plan: "step ahead False True (at c n Resting (V (env s))) (at c n (Claiming t k ?id) (V (env s)))" using st(1) time .
  have holding: "steps ahead False True (at c n Resting (V (env s))) (at c n (Holding ?key) (V (env s1)))" "db s1 = db s"
    if "Claim q ?slot k ?id (snd (Slot t (interval_of k))) s = Some (Inr True, s1)" for s1
    using Claim_steps [OF parts(1) that, unfolded key] plan st(2) steps.intros by metis+
  from run show ?thesis
  proof (cases rule: enqueue_bucket_cases)
    case skipped
    then show ?thesis by (simp add: steps.none)
  next
    case (refused rc)
    note c = Claim_steps [OF parts(1) refused(1), unfolded key]
    have "step ahead False True (at c n (Claiming t k ?id) (V (env s))) (at c n Resting (V (env s')))" using c refused(2) st(3,4) by auto
    then show ?thesis using c plan refused(3) steps.intros by metis
  next
    case (enqueued s1 qe e)
    note out = enqueue_contractD [OF parts(3) enqueued(2) [unfolded key(1)] key(2)]
    have "step ahead False True (at c n (Holding ?key) (V (env s1))) (at c n Resting (V e))" using out enqueued(3) st(5,6) by auto
    then show ?thesis using enqueued(4,5) holding [OF enqueued(1)] steps_snoc by simp
  next
    case (dropped s1 err e)
    note out = enqueue_contractD [OF parts(3) dropped(2) [unfolded key(1)] key(2)]
    note d = DropClaim_steps [OF parts(2) dropped(4), unfolded key]
    have "step ahead False True (at c n (Holding ?key) (V (env s1))) (at c n (Failing ?key) (V e))" using out dropped(3) st(7,8) by auto
    moreover have "step ahead False True (at c n (Failing ?key) (V e)) (at c n Resting (V (env s')))" using d st(9,10) by auto
    ultimately show ?thesis
      using DropClaim_ok [OF dropped(4)] d holding(2) [OF dropped(1)] steps_snoc [OF steps_snoc [OF holding(1) [OF dropped(1)]]] by simp
  qed
qed

text \<open>A broker that is the server itself and always answers.\<close>

definition server_broker :: "server broker" where
  "server_broker = \<lparr>
     asynq_Enqueue = (\<lambda>v tk opts. case opt_TaskID opts of None \<Rightarrow> (Inr [], v)
       | Some key \<Rightarrow> if key \<in> active v then (Inl TaskIDConflict, v) else (Inr key, accept key v)),
     redis_Set = (\<lambda>v key val ttl. (Inr (), v)),
     redis_SetNX = (\<lambda>v key val ttl. if held v key then (Inr False, v) else (Inr True, set_claim key ttl v)),
     redis_Del = (\<lambda>v key. (Inr (), drop_claim key v)),
     redis_Scan = (\<lambda>v cursor pat n. (Inr ([], 0), v)),
     parse_url = (\<lambda>u. None)\<rparr>"

lemma server_broker_contract: "broker_contract server_broker (\<lambda>v. v)"
  unfolding broker_contract_def setnx_contract_def del_contract_def enqueue_contract_def
  by (auto simp: server_broker_def split: if_splits option.splits)

definition demo_server :: "server sys" where
  "demo_server = \<lparr>db = demo_db, env = \<lparr>now_at = 5 * Minute, claims = Map.empty, accepted = [], active = {}\<rparr>\<rparr>"

definition demo_group :: Group where
  "demo_group = \<lparr>role = ''tenant'', me = ''pod-1''\<rparr>"

theorem enqueue_bucket_refines_witness:
  "\<exists>s' :: server sys. steps 0 False True (at (init 0) 0 Resting (env demo_server)) (at (init 0) 0 Resting (env s')) \<and>
     accepted (env s') = [key_of 0 ''trash'' ''1'']"
proof -
  let ?m = "enqueue_bucket server_broker demo_group [''pod-1''] (fst (Slot 0 (interval_of ''trash''))) (snd (Slot 0 (interval_of ''trash'')))
    ''trash'' TaskTrashBucket Hour demo_bucket demo_server"
  have "map_option (accepted \<circ> env \<circ> snd) ?m = Some [key_of 0 ''trash'' ''1'']" by code_simp
  then obtain r s' where run: "?m = Some (r, s')" and acc: "accepted (env s') = [key_of 0 ''trash'' ''1'']" by auto
  have "''trash'' \<in> kinds" "0 \<le> now_at (env demo_server) + 0"
    by (simp_all add: kinds_def demo_server_def go_defs)
  from enqueue_bucket_refines [OF server_broker_contract this run, of "init 0" 0] show ?thesis using acc by (intro exI [of _ s']) simp
qed

subsection \<open>What the claims do not give\<close>

text \<open>A broker that answers: a claim that can be made is made, and a task that can be accepted is.\<close>

definition honest_broker :: "'e broker \<Rightarrow> ('e \<Rightarrow> server) \<Rightarrow> bool" where
  "honest_broker q V \<longleftrightarrow> broker_contract q V \<and>
     (\<forall>e key val ttl. \<not> held (V e) key \<longrightarrow> fst (redis_SetNX q e key val ttl) = Inr True) \<and>
     (\<forall>e tk opts key. opt_TaskID opts = Some key \<longrightarrow> key \<notin> active (V e) \<longrightarrow> (\<exists>tid. fst (asynq_Enqueue q e tk opts) = Inr tid))"

lemma turn_accepts:
  assumes honest: "honest_broker q V" and mine: "Mine (ID b) members (me g)"
    and free: "\<not> held (V (env s)) (key_of t k (IDString (ID b)))" "key_of t k (IDString (ID b)) \<notin> active (V (env s))"
    and run: "enqueue_bucket q g members (fst (Slot t (interval_of k))) (snd (Slot t (interval_of k))) k task timeout b s = Some (r, s')"
  shows "V (env s') = accept (key_of t k (IDString (ID b)))
    (set_claim (key_of t k (IDString (ID b))) (snd (Slot t (interval_of k))) (V (env s)))"
proof -
  let ?key = "key_of t k (IDString (ID b))" and ?ttl = "snd (Slot t (interval_of k))"
  have key: "ClaimKey (fst (Slot t (interval_of k))) k (IDString (ID b)) = ?key" by (simp add: key_of_def)
  have ttl: "\<not> ?ttl < Second" by (simp add: Slot_def Let_def)
  obtain e1 where claim: "redis_SetNX q (env s) ?key ''1'' ?ttl = (Inr True, e1)"
    using honest free(1) unfolding honest_broker_def by (metis prod.collapse)
  have v1: "V e1 = set_claim ?key ?ttl (V (env s))"
    using honest claim unfolding honest_broker_def broker_contract_def setnx_contract_def by fastforce
  let ?tk = "\<lparr>task_type = task, task_payload = Some (Marshal_BucketJob \<lparr>bj_BucketID = ID b, bj_BucketName = BucketName b\<rparr>)\<rparr>"
  have active1: "?key \<notin> active (V e1)" using free(2) by (simp add: v1 set_claim_def)
  have task_id: "opt_TaskID (claim_opts ?key timeout) = Some ?key" by (simp add: claim_opts_def)
  obtain tid e2 where enq: "asynq_Enqueue q e1 ?tk (claim_opts ?key timeout) = (Inr tid, e2)"
    using honest active1 task_id unfolding honest_broker_def by (metis prod.collapse)
  have "V e2 = accept ?key (V e1)"
    using enqueue_contractD [OF _ enq task_id] honest by (auto simp: honest_broker_def broker_contract_def)
  moreover have "env s' = e2"
    using run claim enq [unfolded claim_opts_def] mine ttl
    by (auto simp: enqueue_bucket_def Claim_def attempt_def ext_call_def Let_def key ret_apply)
  ultimately show ?thesis by (simp add: v1)
qed

text \<open>
  C30: The limit of the claims, in the code: a scheduler computes the slot and the life of its claim from the time it has read at the start of the
  round, and claims later. One that has read the clock in a slot, and is held up until the claim of that slot has
  expired and the task has been worked off, enqueues the same task of the slot again, although Redis and the queue answer
  every call.
\<close>

theorem late_claim_duplicates:
  assumes "honest_broker q V"
    and "Mine (ID b) members (me g)" and "Mine (ID b) members' (me g')"
    and "\<not> held (V (env s)) (key_of t k (IDString (ID b)))" and "key_of t k (IDString (ID b)) \<notin> active (V (env s))"
    and "enqueue_bucket q g members (fst (Slot t (interval_of k))) (snd (Slot t (interval_of k))) k task timeout b s = Some (r, s1)"
    and "claims (V e) = claims (V (env s1))" and "accepted (V e) = accepted (V (env s1))"
    and "key_of t k (IDString (ID b)) \<notin> active (V e)"
    and "now_at (V (env s)) + snd (Slot t (interval_of k)) \<le> now_at (V e)"
    and "enqueue_bucket q g' members' (fst (Slot t (interval_of k))) (snd (Slot t (interval_of k))) k task timeout b (s1\<lparr>env := e\<rparr>) =
      Some (r', s2)"
  shows "accepted (V (env s2)) = accepted (V (env s)) @ [key_of t k (IDString (ID b)), key_of t k (IDString (ID b))]"
proof -
  note first = turn_accepts [OF assms(1,2,4,5,6)]
  have "\<not> held (V e) (key_of t k (IDString (ID b)))"
    using assms(7,10) first by (simp add: held_iff accept_def set_claim_def)
  then have "V (env s2) = accept (key_of t k (IDString (ID b)))
      (set_claim (key_of t k (IDString (ID b))) (snd (Slot t (interval_of k))) (V e))"
    using turn_accepts [OF assms(1,3) _ _ assms(11)] assms(9) by simp
  then show ?thesis using first assms(8) by (simp add: accept_def set_claim_def)
qed

lemma server_broker_honest: "honest_broker server_broker (\<lambda>v. v)"
  using server_broker_contract by (simp add: honest_broker_def) (simp add: server_broker_def)

text \<open>The trash job of the first hour, claimed after five minutes and again after two hours, when it has been worked off.\<close>

theorem late_claim_duplicates_witness:
  "\<exists>r1 r2 s1 s2 :: server sys. enqueue_bucket server_broker demo_group [''pod-1''] (fst (Slot 0 Hour)) (snd (Slot 0 Hour)) ''trash''
       TaskTrashBucket Hour demo_bucket demo_server = Some (r1, s1) \<and>
     enqueue_bucket server_broker demo_group [''pod-1''] (fst (Slot 0 Hour)) (snd (Slot 0 Hour)) ''trash''
       TaskTrashBucket Hour demo_bucket (s1\<lparr>env := (env s1)\<lparr>now_at := 2 * Hour, active := {}\<rparr>\<rparr>) = Some (r2, s2) \<and>
     accepted (env s2) = [key_of 0 ''trash'' ''1'', key_of 0 ''trash'' ''1'']"
proof -
  let ?turn = "enqueue_bucket server_broker demo_group [''pod-1''] (fst (Slot 0 Hour)) (snd (Slot 0 Hour)) ''trash'' TaskTrashBucket Hour demo_bucket"
  have total: "total ?turn" by (rule total_enqueue_bucket)
  obtain r1 and s1 :: "server sys" where first: "?turn demo_server = Some (r1, s1)"
    using total unfolding total_def by (metis not_None_eq surj_pair)
  let ?e = "(env s1)\<lparr>now_at := 2 * Hour, active := {}\<rparr>"
  obtain r2 and s2 :: "server sys" where second: "?turn (s1\<lparr>env := ?e\<rparr>) = Some (r2, s2)"
    using total unfolding total_def by (metis not_None_eq surj_pair)
  have kind: "interval_of ''trash'' = Hour" by (simp add: interval_of_def)
  have ident: "IDString (ID demo_bucket) = ''1''" by code_simp
  have mine: "Mine (ID demo_bucket) [''pod-1''] (me demo_group)" by code_simp
  have "accepted (env s2) = accepted (env demo_server) @ [key_of 0 ''trash'' (IDString (ID demo_bucket)), key_of 0 ''trash'' (IDString (ID demo_bucket))]"
    by (rule late_claim_duplicates [OF server_broker_honest mine mine _ _ first [folded kind] _ _ _ _ second [folded kind]])
      (simp_all add: demo_server_def held_def kind Slot_def Truncate_def go_defs)
  then have "accepted (env s2) = [key_of 0 ''trash'' ''1'', key_of 0 ''trash'' ''1'']"
    unfolding ident by (simp add: demo_server_def)
  then show ?thesis using first second by blast
qed

section \<open>A whole round\<close>

lemma enqueue_bucket_same_db: "io_rel same_db (enqueue_bucket q g members slot ttl k task timeout b)"
  unfolding enqueue_bucket_def Claim_def DropClaim_def Let_def
  by (auto intro!: samedb.respects_rules ext_call_same_db split: sum.split)

lemma enqueueBuckets_same_db: "io_rel same_db (enqueueBuckets q g items members now i k task timeout)"
  unfolding enqueueBuckets_def by (auto intro!: samedb.respects_for_each enqueue_bucket_same_db split: prod.split)

lemma for_each_ok:
  assumes "\<And>b s r s'. f b s = Some (r, s') \<Longrightarrow> r = Inr ()" and "for_each f bs s = Some (r, s')"
  shows "r = Inr ()"
  using assms(2)
proof (induction bs arbitrary: s)
  case (Cons b bs)
  then show ?case using assms(1) by (auto elim!: bind_E)
qed (simp add: ret_apply)

lemma enqueueBuckets_ok:
  assumes "enqueueBuckets q g items members now i k task timeout s = Some (r, s')"
  shows "r = Inr ()"
proof -
  obtain slot ttl where "Slot now i = (slot, ttl)" by fastforce
  then have "for_each (enqueue_bucket q g members slot ttl k task timeout) items s = Some (r, s')"
    using assms by (simp add: enqueueBuckets_def)
  then show ?thesis by (rule for_each_ok [rotated]) (rule enqueue_bucket_ok)
qed

lemma enqueueStats_ok: "enqueueStats q g now s = Some (r, s') \<Longrightarrow> r = Inr ()"
  by (auto simp: enqueueStats_def attempt_def ret_apply dest!: DropClaim_ok
      split: option.splits prod.splits sum.splits if_splits)

lemma enqueueStats_same_db: "io_rel same_db (enqueueStats q g now)"
  unfolding enqueueStats_def Claim_def DropClaim_def Let_def
  by (auto intro!: samedb.respects_rules ext_call_same_db split: sum.split prod.split)

lemma scan_loop_same_db:
  assumes "scan_loop q pat keys cursor s = Some y"
  shows "db (snd y) = db s"
  using assms
proof (rule scan_loop.raw_induct [rotated])
  fix loop q pat keys cursor s y
  assume IH: "\<And>q pat keys cursor s z. loop q pat keys cursor s = Some z \<Longrightarrow> db (snd z) = db s"
    and run: "Option.bind (ext_call (\<lambda>e. redis_Scan q e cursor pat 50) s) (\<lambda>(r, s'). case r of Inl err \<Rightarrow> Some (Inl err, s')
      | Inr (batch, nxt) \<Rightarrow> let keys' = keys @ batch in if nxt = 0 then Some (Inr keys', s') else loop q pat keys' nxt s') = Some y"
  obtain r s1 where call: "ext_call (\<lambda>e. redis_Scan q e cursor pat 50) s = Some (r, s1)"
    using total_ext_call by (metis not_None_eq surj_pair total_def)
  have "db s1 = db s" using io_relD [OF ext_call_same_db call] by (simp add: same_db_def)
  then show "db (snd y) = db s"
    using run IH [of q pat _ _ s1 y] by (cases r) (auto simp: call Let_def split: if_splits)
qed

lemma Members_same_db: "io_rel same_db (Members q g)"
proof -
  have "io_rel same_db (scan_loop q pat keys cursor)" for pat keys cursor
    by (rule io_relI) (use scan_loop_same_db in \<open>fastforce simp: same_db_def\<close>)
  then show ?thesis
    unfolding Members_def by (auto intro!: samedb.respects_rules simp: Let_def split: prod.split)
qed

lemma run_round_same_db: "io_rel same_db (run_round x q g fp0)"
  unfolding run_round_def Beat_def Let_def
  by (auto intro!: samedb.respects_rules ext_call_same_db Members_same_db time_Now_same_db buckets_same_db
      enqueueBuckets_same_db enqueueStats_same_db split: sum.split)

text \<open>A round that returns returns a fingerprint.\<close>

lemma run_round_ok:
  assumes "run_round x q g fp0 s = Some (r, s')"
  shows "\<exists>fp. r = Inr fp"
proof -
  have jobs: "r = Inr ()" if "bind (enqueueBuckets q g items ms now i1 k1 t1 o1) (\<lambda>_.
      bind (enqueueBuckets q g items ms now i2 k2 t2 o2) (\<lambda>_. bind (enqueueBuckets q g items ms now i3 k3 t3 o3) (\<lambda>_.
      enqueueBuckets q g items ms now i4 k4 t4 o4))) s = Some (r, s')"
    for items ms now i1 k1 t1 o1 i2 k2 t2 o2 i3 k3 t3 o3 i4 k4 t4 o4 s r s'
    using that by (auto elim!: bind_E dest!: enqueueBuckets_ok)
  show ?thesis
    using assms unfolding run_round_def
    by (auto elim!: attempt_E bind_E simp: ret_apply time_Now_def split: sum.splits prod.splits
        dest!: jobs enqueueStats_ok)
qed

text \<open>
  The contract of \<^verbatim>\<open>SCAN\<close>: a scan that is followed to its end has an end, because every call that does not
  return the cursor 0 leaves less to do, by some measure of the server and the cursor.
\<close>

definition scan_contract :: "'e broker \<Rightarrow> ('e \<Rightarrow> nat \<Rightarrow> nat) \<Rightarrow> bool" where
  "scan_contract q rank \<longleftrightarrow> (\<forall>e e' cursor pat n keys nxt.
     redis_Scan q e cursor pat n = (Inr (keys, nxt), e') \<longrightarrow> nxt \<noteq> 0 \<longrightarrow> rank e' nxt < rank e cursor)"

lemma total_scan_loop:
  assumes con: "scan_contract q rank"
  shows "\<exists>y. scan_loop q pat keys cursor s = Some y"
proof (induction "rank (env s) cursor" arbitrary: keys cursor s rule: less_induct)
  case (less cursor s keys)
  obtain r e' where call: "redis_Scan q (env s) cursor pat 50 = (r, e')" by fastforce
  show ?case
  proof (cases r)
    case (Inl err)
    then show ?thesis by (subst scan_loop.simps) (simp add: ext_call_def call)
  next
    case (Inr p)
    obtain batch nxt where p: "p = (batch, nxt)" by fastforce
    have "\<exists>y. scan_loop q pat (keys @ batch) nxt (s\<lparr>env := e'\<rparr>) = Some y" if "nxt \<noteq> 0"
      using con call Inr p that by (intro less.hyps) (auto simp: scan_contract_def)
    then show ?thesis by (subst scan_loop.simps) (simp add: ext_call_def call Inr p Let_def)
  qed
qed

lemma total_run_round:
  assumes "scan_contract q rank"
  shows "total (run_round x q g fp0)"
proof -
  have "total (scan_loop q pat keys cursor)" for pat keys cursor
    using total_scan_loop [OF assms] by (auto simp: total_def)
  then have "total (Members q g)"
    unfolding Members_def Let_def by (auto intro!: io_rules split: prod.split)
  then show ?thesis
    unfolding run_round_def Beat_def by (intro io_rules)
qed

lemma run_round_result:
  assumes "scan_contract q rank"
  shows "\<exists>fp s'. run_round x q g fp0 s = Some (Inr fp, s') \<and> db s' = db s"
proof -
  obtain r s' where run: "run_round x q g fp0 s = Some (r, s')"
    using total_run_round [OF assms] by (metis not_None_eq surj_pair total_def)
  then show ?thesis
    using run_round_ok [OF run] io_relD [OF run_round_same_db run] by (auto simp: same_db_def)
qed

text \<open>
  C28: When Redis ends its scans, a round of the scheduler always comes to its end, and so does any number of rounds,
  without an error and without a write to the database, whatever Redis, the queue and the database answer.
\<close>

theorem run_round_safe:
  assumes "scan_contract q rank"
  shows "(\<exists>fp s'. run_round x q g fp0 s = Some (Inr fp, s') \<and> db s' = db s) \<and>
    (\<exists>s'. run_rounds x q g n fp0 s = Some (Inr (), s') \<and> db s' = db s)"
proof
  show "\<exists>fp s'. run_round x q g fp0 s = Some (Inr fp, s') \<and> db s' = db s"
    by (rule run_round_result [OF assms])
  show "\<exists>s'. run_rounds x q g n fp0 s = Some (Inr (), s') \<and> db s' = db s"
  proof (induction n arbitrary: fp0 s)
    case (Suc n)
    obtain fp s1 where one: "run_round x q g fp0 s = Some (Inr fp, s1)" "db s1 = db s"
      using run_round_result [OF assms] by blast
    obtain s2 where "run_rounds x q g n fp s1 = Some (Inr (), s2)" "db s2 = db s1"
      using Suc.IH by blast
    then show ?case using one by (simp add: bind_def attempt_def)
  qed (simp add: ret_apply)
qed

theorem run_round_safe_witness:
  "\<exists>s'. run_rounds \<lparr>clock = (\<lambda>v. (now_at v, v)), sql = (\<lambda>v. (SqlFail (NetError []), v)), collate = (\<lambda>a b. True),
      audit_defaults = audit_defaults demo_ext,
      s3_HeadObject = (\<lambda>_ e _ _. (Inl TaskIDConflict, e)), s3_CopyObject = (\<lambda>_ e _ _ _. (Inl TaskIDConflict, e)),
      s3_DeleteObject = (\<lambda>_ e _ _. (Inl TaskIDConflict, e)), s3_ListObjectsV2 = (\<lambda>_ e _ _ _ _. (Inl TaskIDConflict, e)),
      s3_AbortMultipartUpload = (\<lambda>_ e _ _ _. (Inl TaskIDConflict, e))\<rparr> server_broker demo_group 3 [] demo_server = Some (Inr (), s') \<and> db s' = demo_db"
  (is "\<exists>s'. run_rounds ?x _ _ _ _ _ = _ \<and> _")
proof -
  have "scan_contract server_broker (\<lambda>_ _. 0)"
    by (simp add: scan_contract_def server_broker_def)
  moreover have "db demo_server = demo_db"
    by (simp add: demo_server_def)
  ultimately show ?thesis
    using run_round_safe [of server_broker "\<lambda>_ _. 0" ?x demo_group "[]" demo_server 3] by (simp only: simp_thms)
qed

end
