(* ===== verification/WorkerMain.thy ===== *)
theory WorkerMain
  imports WorkerCopy WorkerInventory StatsExact Cluster
begin

text \<open>
  \<^verbatim>\<open>cmd/worker/main.go\<close> and the last handler of \<^verbatim>\<open>internal/worker/jobs.go\<close>: how the worker starts,
  and which handler gets a task. With the scheduler it makes the whole: every task that a round
  enqueues is one that the worker runs as the job of the bucket it was enqueued for.
\<close>

section \<open>The worker\<close>

definition RequestStats :: "'e ext \<Rightarrow> Jobs \<Rightarrow> task \<Rightarrow> ('e, unit) io" where
  "RequestStats x j t =
     (if \<not> has_Stats j then ret ()
      else bind (time_Now x) (\<lambda>now. bind (AggregateRequests x now) (\<lambda>_. ret ())))"

definition mux_handlers :: "'e ext \<Rightarrow> Jobs \<Rightarrow> (string \<times> (task \<Rightarrow> ('e, unit) io)) list" where
  "mux_handlers x j =
     [(TaskInventory, Inventory x j), (TaskInventoryBucket, InventoryBucket x j), (TaskTrashBucket, TrashBucket x j),
      (TaskTrash, Trash x j), (TaskVersionsBucket, VersionsBucket x j), (TaskVersions, CleanVersions x j),
      (TaskMultipartBucket, MultipartBucket x j), (TaskMultipart, CleanMultipart x j),
      (TaskBatchDelete, Jobs_BatchDelete x j), (TaskBatchCopy, Jobs_BatchCopy x j), (TaskBatchMove, Jobs_BatchMove x j),
      (TaskRequestStats, RequestStats x j)]"

text \<open>
  \<open>pick_pattern\<close> is what \<^verbatim>\<open>asynq.ServeMux\<close> does with the registered patterns and the type of a task:
  the pattern whose handler gets it, if any.
\<close>

definition ProcessTask :: "(string list \<Rightarrow> string \<Rightarrow> string option) \<Rightarrow> 'e ext \<Rightarrow> Jobs \<Rightarrow> task \<Rightarrow> ('e, unit) io" where
  "ProcessTask pick_pattern x j t =
     (case pick_pattern (map fst (mux_handlers x j)) (task_type t) of
        None \<Rightarrow> throw (ErrNew (''handler not found for task '' @ task_type t))
      | Some p \<Rightarrow> (case map_of (mux_handlers x j) p of
          None \<Rightarrow> throw (ErrNew (''handler not found for task '' @ task_type t))
        | Some handler \<Rightarrow> handler t))"

definition withTaskLog :: "(task \<Rightarrow> ('e, unit) io) \<Rightarrow> task \<Rightarrow> ('e, unit) io" where
  "withTaskLog nxt t = attempt (nxt t) (\<lambda>r. case r of Inl err \<Rightarrow> throw err | Inr _ \<Rightarrow> ret ())"

text \<open>\<^verbatim>\<open>main\<close> up to the start of the server: the jobs and the number of concurrent tasks.\<close>

definition worker_setup :: "(string \<Rightarrow> ext_error option) \<Rightarrow> (string \<Rightarrow> ext_error option) \<Rightarrow> (string \<Rightarrow> string) \<Rightarrow>
    go_error + Jobs \<times> int" where
  "worker_setup parse_uri pg_New os_Getenv =
     (let cfg = Load os_Getenv in
      if RedisURL cfg = [] then Inl (ErrNew ''REDIS_URL is required for the inventory worker'')
      else if DatabaseURL cfg = [] then Inl (ErrNew ''DATABASE_URL is required for the inventory worker'')
      else let s3cfg = \<lparr>Endpoint = S3Endpoint cfg, AccessKey = RGWAccessKey cfg, SecretKey = RGWSecretKey cfg, Region = S3Region cfg,
             UploadTTL = 0, DownloadTTL = 0, DownloadCDNURL = [], PreviewCDNURL = []\<rparr>
      in case parse_uri (RedisURL cfg) of
        Some err \<Rightarrow> Inl (ErrExt err)
      | None \<Rightarrow> (case pg_New (DatabaseURL cfg) of
          Some err \<Rightarrow> Inl (ErrExt err)
        | None \<Rightarrow> Inr (\<lparr>has_Settings = True, has_Versions = True, has_Uploads = True, has_Stats = True, has_Log = True,
            S3FB = s3cfg\<rparr>, AsynqConcurrency cfg)))"

text \<open>\<^verbatim>\<open>main\<close>, with the tasks that the queue delivers one after the other; a failed task is the queue's to retry.\<close>

definition worker_main :: "(string \<Rightarrow> ext_error option) \<Rightarrow> (string \<Rightarrow> ext_error option) \<Rightarrow> (string list \<Rightarrow> string \<Rightarrow> string option) \<Rightarrow>
    'e ext \<Rightarrow> (string \<Rightarrow> string) \<Rightarrow> task list \<Rightarrow> ('e, unit) io" where
  "worker_main parse_uri pg_New pick_pattern x os_Getenv tasks = (case worker_setup parse_uri pg_New os_Getenv of
     Inl err \<Rightarrow> throw err
   | Inr (j, _) \<Rightarrow> for_each (\<lambda>t. attempt (withTaskLog (ProcessTask pick_pattern x j) t) (\<lambda>_. ret ())) tasks)"

section \<open>Which handler\<close>

text \<open>A pattern that is the type itself is the one that is picked.\<close>

definition mux_contract :: "(string list \<Rightarrow> string \<Rightarrow> string option) \<Rightarrow> bool" where
  "mux_contract pick_pattern \<longleftrightarrow> (\<forall>ps ty. ty \<in> set ps \<longrightarrow> pick_pattern ps ty = Some ty)"

lemmas task_types = TaskInventory_def TaskInventoryBucket_def TaskTrashBucket_def TaskTrash_def TaskVersionsBucket_def TaskVersions_def
  TaskMultipartBucket_def TaskMultipart_def TaskBatchDelete_def TaskBatchCopy_def TaskBatchMove_def TaskRequestStats_def

lemma distinct_handlers: "distinct (map fst (mux_handlers x j))"
  by (simp add: mux_handlers_def task_types)

lemma ProcessTask_handler:
  assumes "mux_contract pick_pattern" and "(task_type t, h) \<in> set (mux_handlers x j)"
  shows "ProcessTask pick_pattern x j t = h t"
proof -
  have "task_type t \<in> set (map fst (mux_handlers x j))" using assms(2) by (metis fst_conv image_eqI set_map)
  moreover have "map_of (mux_handlers x j) (task_type t) = Some h"
    by (rule map_of_is_SomeI [OF distinct_handlers assms(2)])
  ultimately show ?thesis using assms(1) by (simp add: ProcessTask_def mux_contract_def)
qed

section \<open>From the scheduler to the worker\<close>

definition bucket_task :: "string \<Rightarrow> Bucket \<Rightarrow> task" where
  "bucket_task ty b = \<lparr>task_type = ty, task_payload = Some (Marshal_BucketJob \<lparr>bj_BucketID = ID b, bj_BucketName = BucketName b\<rparr>)\<rparr>"

definition stats_task :: task where
  "stats_task = \<lparr>task_type = TaskRequestStats, task_payload = None\<rparr>"

text \<open>The tasks that a round is meant to enqueue, with the job that each stands for.\<close>

definition job_of :: "'e ext \<Rightarrow> Jobs \<Rightarrow> Bucket \<Rightarrow> (string \<times> ('e, unit) io) list" where
  "job_of x j b = [(TaskInventoryBucket, with_client x j (\<lambda>s3. bind (Buckets_GetByName x (BucketName b)) (\<lambda>found. case found of
       None \<Rightarrow> throw (ErrNew (''bucket '' @ BucketName b @ '' not found''))
     | Some b' \<Rightarrow> if Status b' \<noteq> ''active'' then throw (ErrNew (''bucket '' @ BucketName b @ '' not found''))
         else wrap_err (''inventory '' @ BucketName b) (scanBucket x s3 b')))),
     (TaskTrashBucket, trash x j (ID b)), (TaskVersionsBucket, cleanVersions x j (BucketName b)),
     (TaskMultipartBucket, cleanMultipart x j (BucketName b))]"

definition scheduled :: "tenant_db \<Rightarrow> task \<Rightarrow> bool" where
  "scheduled d t \<longleftrightarrow> t = stats_task \<or> (\<exists>b \<in> Bucket.truncate ` set (buckets d). Status b = ''active'' \<and>
     (\<exists>ty \<in> {TaskInventoryBucket, TaskTrashBucket, TaskVersionsBucket, TaskMultipartBucket}. t = bucket_task ty b))"

lemma Unmarshal_inventory_bucket: "ValidString (BucketName b) \<Longrightarrow> Unmarshal_inventory (task_payload (bucket_task ty b)) = Some (BucketName b)"
  by (simp add: Unmarshal_inventory_def Unmarshal_def bucket_task_def Marshal_BucketJob_def fold_names)

lemma parse_bucket_task:
  assumes "is_int64 (ID b)" and "TrimSpace (BucketName b) \<noteq> []" and "ValidString (BucketName b)"
  shows "parseBucketJob (bucket_task ty b) = Inr \<lparr>bj_BucketID = ID b, bj_BucketName = BucketName b\<rparr>"
  using assms by (simp add: parseBucketJob_def bucket_task_def Unmarshal_BucketJob_def Unmarshal_def Marshal_BucketJob_def
      set_BucketJob_def fold_names)

lemma bucket_task_type [simp]: "task_type (bucket_task ty b) = ty"
  by (simp add: bucket_task_def)

lemma bucket_task_runs:
  assumes "mux_contract pick_pattern" and "is_int64 (ID b)" and "1 \<le> ID b" and "TrimSpace (BucketName b) \<noteq> []"
    and "ValidString (BucketName b)" and "(ty, m) \<in> set (job_of x j b)"
  shows "ProcessTask pick_pattern x j (bucket_task ty b) = m"
proof -
  note parse = parse_bucket_task [OF assms(2,4,5)] Unmarshal_inventory_bucket [OF assms(5)]
  from assms(6) consider
      "ty = TaskInventoryBucket" "m = InventoryBucket x j (bucket_task ty b)"
    | "ty = TaskTrashBucket" "m = TrashBucket x j (bucket_task ty b)"
    | "ty = TaskVersionsBucket" "m = VersionsBucket x j (bucket_task ty b)"
    | "ty = TaskMultipartBucket" "m = MultipartBucket x j (bucket_task ty b)"
    using assms(3,4) by (auto simp: job_of_def InventoryBucket_def TrashBucket_def VersionsBucket_def MultipartBucket_def parse)
  then show ?thesis
  proof cases
    case 1
    then show ?thesis using ProcessTask_handler [OF assms(1), of "bucket_task ty b" "InventoryBucket x j" x j] by (simp add: mux_handlers_def)
  next
    case 2
    then show ?thesis using ProcessTask_handler [OF assms(1), of "bucket_task ty b" "TrashBucket x j" x j] by (simp add: mux_handlers_def)
  next
    case 3
    then show ?thesis using ProcessTask_handler [OF assms(1), of "bucket_task ty b" "VersionsBucket x j" x j] by (simp add: mux_handlers_def)
  next
    case 4
    then show ?thesis using ProcessTask_handler [OF assms(1), of "bucket_task ty b" "MultipartBucket x j" x j] by (simp add: mux_handlers_def)
  qed
qed

text \<open>What the other parts of the world leave in the queue alone.\<close>

definition queue_contract :: "'e ext \<Rightarrow> 'e broker \<Rightarrow> ('e \<Rightarrow> task list) \<Rightarrow> bool" where
  "queue_contract x q tasks \<longleftrightarrow>
     (\<forall>e t opts. tasks (snd (asynq_Enqueue q e t opts)) \<in> {tasks e, tasks e @ [t]}) \<and>
     (\<forall>e k v ttl. tasks (snd (redis_Set q e k v ttl)) = tasks e) \<and> (\<forall>e k v ttl. tasks (snd (redis_SetNX q e k v ttl)) = tasks e) \<and>
     (\<forall>e k. tasks (snd (redis_Del q e k)) = tasks e) \<and> (\<forall>e c p n. tasks (snd (redis_Scan q e c p n)) = tasks e) \<and>
     (\<forall>e. tasks (snd (clock x e)) = tasks e) \<and> (\<forall>e. tasks (snd (sql x e)) = tasks e)"

text \<open>The database is as it was and each new task of the queue is a scheduled one.\<close>

definition only_scheduled :: "('e \<Rightarrow> task list) \<Rightarrow> 'e sys \<Rightarrow> 'e sys \<Rightarrow> bool" where
  "only_scheduled tasks s t \<longleftrightarrow> db t = db s \<and> (\<exists>new. tasks (env t) = tasks (env s) @ new \<and> (\<forall>tk \<in> set new. scheduled (db s) tk))"

interpretation onlyscheduled: io_preorder "only_scheduled tasks" for tasks :: "'e \<Rightarrow> task list"
proof unfold_locales
  fix s t u :: "'e sys"
  show "only_scheduled tasks s s" by (simp add: only_scheduled_def)
  assume st: "only_scheduled tasks s t" and tu: "only_scheduled tasks t u"
  obtain new1 where new1: "tasks (env t) = tasks (env s) @ new1" "\<forall>tk \<in> set new1. scheduled (db s) tk" and t: "db t = db s"
    using st by (auto simp: only_scheduled_def)
  obtain new2 where new2: "tasks (env u) = tasks (env t) @ new2" "\<forall>tk \<in> set new2. scheduled (db t) tk" and "db u = db t"
    using tu by (auto simp: only_scheduled_def)
  then show "only_scheduled tasks s u" using new1 t unfolding only_scheduled_def by (intro conjI exI [of _ "new1 @ new2"]) auto
qed

lemma ext_call_scheduled:
  assumes "\<And>e. tasks (snd (f e)) = tasks e"
  shows "io_rel (only_scheduled tasks) (ext_call f)"
proof (rule io_relI)
  fix s r t
  assume "ext_call f s = Some (r, t)"
  then have "env t = snd (f (env s))" "db t = db s" by (auto simp: ext_call_def split: prod.splits sum.splits)
  then show "only_scheduled tasks s t" using assms by (simp add: only_scheduled_def)
qed

lemma ext_call_enqueues:
  assumes "queue_contract x q tasks" and "scheduled (db s) tk" and "ext_call (\<lambda>e. asynq_Enqueue q e tk opts) s = Some (r, t)"
  shows "only_scheduled tasks s t"
proof -
  have "env t = snd (asynq_Enqueue q (env s) tk opts)" "db t = db s"
    using assms(3) by (auto simp: ext_call_def split: prod.splits sum.splits)
  moreover have "tasks (snd (asynq_Enqueue q (env s) tk opts)) \<in> {tasks (env s), tasks (env s) @ [tk]}"
    using assms(1) by (simp add: queue_contract_def)
  ultimately show ?thesis using assms(2) by (auto simp: only_scheduled_def)
qed

lemma quiet_calls:
  assumes "queue_contract x q tasks"
  shows "io_rel (only_scheduled tasks) (Claim q slot k bid ttl)" "io_rel (only_scheduled tasks) (DropClaim q slot k bid)"
    "io_rel (only_scheduled tasks) (Beat q g)" "io_rel (only_scheduled tasks) (time_Now x)" "io_rel (only_scheduled tasks) (Buckets_ListActive x)"
proof -
  show "io_rel (only_scheduled tasks) (Claim q slot k bid ttl)"
    unfolding Claim_def Let_def by (rule ext_call_scheduled) (use assms in \<open>simp add: queue_contract_def\<close>)
  show "io_rel (only_scheduled tasks) (DropClaim q slot k bid)"
    unfolding DropClaim_def by (intro onlyscheduled.respects_rules ext_call_scheduled) (use assms in \<open>simp add: queue_contract_def\<close>)
  show "io_rel (only_scheduled tasks) (Beat q g)"
    unfolding Beat_def by (rule ext_call_scheduled) (use assms in \<open>simp add: queue_contract_def\<close>)
  have clock: "tasks (snd (clock x e)) = tasks e" and sql: "tasks (snd (sql x e)) = tasks e" for e
    using assms by (simp_all add: queue_contract_def)
  show "io_rel (only_scheduled tasks) (time_Now x)"
  proof (rule io_relI)
    fix s r t assume "time_Now x s = Some (r, t)"
    then have "env t = snd (clock x (env s))" "db t = db s" by (auto simp: time_Now_def split: prod.splits)
    then show "only_scheduled tasks s t" using clock by (simp add: only_scheduled_def)
  qed
  have "io_rel (only_scheduled tasks) (sql_query x f)" for f :: "time \<Rightarrow> tenant_db \<Rightarrow> Bucket list"
  proof (rule io_relI)
    fix s r t assume "sql_query x f s = Some (r, t)"
    then have "env t = snd (sql x (env s))" "db t = db s" by (auto simp: sql_query_def sql_stmt_def split: prod.splits sql_reply.splits)
    then show "only_scheduled tasks s t" using sql by (simp add: only_scheduled_def)
  qed
  then show "io_rel (only_scheduled tasks) (Buckets_ListActive x)"
    unfolding Buckets_ListActive_def by (intro onlyscheduled.respects_rules)
qed

lemma Members_scheduled:
  assumes "queue_contract x q tasks"
  shows "io_rel (only_scheduled tasks) (Members q g)"
proof -
  have call: "io_rel (only_scheduled tasks) (ext_call (\<lambda>e. redis_Scan q e c p n))" for c p n
    by (rule ext_call_scheduled) (use assms in \<open>simp add: queue_contract_def\<close>)
  have loop: "only_scheduled tasks s (snd y)" if "scan_loop q pat keys cursor s = Some y" for pat keys cursor s y
  proof -
    have "q = q' \<longrightarrow> only_scheduled tasks s (snd y)" if "scan_loop q' pat keys cursor s = Some y" for q' pat keys cursor s y
      using that
    proof (rule scan_loop.raw_induct [rotated])
      fix loop q' pat keys cursor s y
      assume IH: "\<And>q' pat keys cursor s z. loop q' pat keys cursor s = Some z \<Longrightarrow> q = q' \<longrightarrow> only_scheduled tasks s (snd z)"
        and run: "Option.bind (ext_call (\<lambda>e. redis_Scan q' e cursor pat 50) s) (\<lambda>(r, s'). case r of Inl err \<Rightarrow> Some (Inl err, s')
          | Inr (batch, nxt) \<Rightarrow> let keys' = keys @ batch in if nxt = 0 then Some (Inr keys', s') else loop q' pat keys' nxt s') = Some y"
      obtain r s1 where one: "ext_call (\<lambda>e. redis_Scan q' e cursor pat 50) s = Some (r, s1)"
        using total_ext_call by (metis not_None_eq surj_pair total_def)
      show "q = q' \<longrightarrow> only_scheduled tasks s (snd y)"
      proof
        assume q: "q = q'"
        have s1: "only_scheduled tasks s s1" using io_relD [OF call one [folded q]] .
        have rest: "loop q' pat keys' nxt s1 = Some y \<Longrightarrow> only_scheduled tasks s (snd y)" for keys' nxt
          using IH q onlyscheduled.R_trans [OF s1] by blast
        show "only_scheduled tasks s (snd y)"
          using run s1 by (cases r) (auto simp: one Let_def dest: rest split: if_splits)
      qed
    qed
    then show ?thesis using that by blast
  qed
  have "io_rel (only_scheduled tasks) (scan_loop q pat keys cursor)" for pat keys cursor
    by (rule io_relI) (use loop in fastforce)
  then show ?thesis
    unfolding Members_def by (auto intro!: onlyscheduled.respects_rules simp: Let_def split: prod.split)
qed

lemma enqueue_bucket_scheduled:
  assumes con: "queue_contract x q tasks" and ok: "scheduled (db s) (bucket_task ty b)"
    and run: "enqueue_bucket q g members slot ttl k ty timeout b s = Some (r, t)"
  shows "only_scheduled tasks s t"
proof (cases "Mine (ID b) members (me g)")
  case False
  then show ?thesis using run by (simp add: enqueue_bucket_def ret_apply onlyscheduled.R_refl)
next
  case True
  let ?enq = "\<lambda>e. asynq_Enqueue q e (bucket_task ty b)
    \<lparr>opt_TaskID = Some (ClaimKey slot k (IDString (ID b))), opt_MaxRetry = 3, opt_Timeout = timeout, opt_Queue = None\<rparr>"
  from run True obtain c s1 where claim: "Claim q slot k (IDString (ID b)) ttl s = Some (c, s1)"
    and rest: "(case c of Inl err \<Rightarrow> ret () | Inr ok \<Rightarrow> if \<not> ok then ret () else
      attempt (ext_call ?enq) (\<lambda>r. case r of Inr _ \<Rightarrow> ret ()
       | Inl err \<Rightarrow> if \<not> errors_Is err (ErrExt TaskIDConflict) then DropClaim q slot k (IDString (ID b)) else ret ())) s1 = Some (r, t)"
    unfolding enqueue_bucket_def Let_def bucket_task_def by (auto elim: attempt_E)
  have s1: "only_scheduled tasks s s1" using io_relD [OF quiet_calls(1) [OF con] claim] .
  then have ok1: "scheduled (db s1) (bucket_task ty b)" using ok by (simp add: only_scheduled_def)
  show ?thesis
  proof (cases "c = Inr True")
    case False
    then have "t = s1" using rest by (auto simp: ret_apply split: sum.splits if_splits)
    then show ?thesis using s1 by simp
  next
    case True
    with rest obtain e s2 where enq: "ext_call ?enq s1 = Some (e, s2)"
      and last: "(case e of Inr _ \<Rightarrow> ret ()
       | Inl err \<Rightarrow> if \<not> errors_Is err (ErrExt TaskIDConflict) then DropClaim q slot k (IDString (ID b)) else ret ()) s2 = Some (r, t)"
      by (auto elim: attempt_E)
    have s2: "only_scheduled tasks s s2" using onlyscheduled.R_trans [OF s1 ext_call_enqueues [OF con ok1 enq]] .
    have "only_scheduled tasks s2 t"
      using last io_relD [OF quiet_calls(2) [OF con]] onlyscheduled.R_refl by (auto simp: ret_apply split: sum.splits if_splits)
    then show ?thesis using onlyscheduled.R_trans [OF s2] by blast
  qed
qed

lemma enqueueBuckets_scheduled:
  assumes con: "queue_contract x q tasks" and "\<forall>b \<in> set items. scheduled (db s) (bucket_task ty b)"
    and "enqueueBuckets q g items members now interval k ty timeout s = Some (r, t)"
  shows "only_scheduled tasks s t"
proof -
  have "for_each (enqueue_bucket q g members slot ttl k ty timeout) items s = Some (r, t) \<Longrightarrow>
      \<forall>b \<in> set items. scheduled (db s) (bucket_task ty b) \<Longrightarrow> only_scheduled tasks s t" for slot ttl
  proof (induction items arbitrary: s)
    case Nil
    then show ?case by (simp add: ret_apply onlyscheduled.R_refl)
  next
    case (Cons b items)
    then have "bind (enqueue_bucket q g members slot ttl k ty timeout b) (\<lambda>_. for_each (enqueue_bucket q g members slot ttl k ty timeout) items) s = Some (r, t)"
      by simp
    then show ?case
    proof (cases rule: bind_E)
      case (stop err)
      then show ?thesis using enqueue_bucket_scheduled [OF con _ stop(1)] Cons.prems(2) by simp
    next
      case (go u s1)
      have one: "only_scheduled tasks s s1" using enqueue_bucket_scheduled [OF con _ go(1)] Cons.prems(2) by simp
      then have "\<forall>b \<in> set items. scheduled (db s1) (bucket_task ty b)" using Cons.prems(2) by (simp add: only_scheduled_def)
      then show ?thesis using onlyscheduled.R_trans [OF one Cons.IH [OF go(2)]] by blast
    qed
  qed
  then show ?thesis using assms(2,3) by (cases "Slot now interval") (simp add: enqueueBuckets_def)
qed

lemma enqueueStats_scheduled:
  assumes con: "queue_contract x q tasks"
  shows "io_rel (only_scheduled tasks) (enqueueStats q g now)"
proof -
  have "io_rel (only_scheduled tasks) (ext_call (\<lambda>e. asynq_Enqueue q e \<lparr>task_type = TaskRequestStats, task_payload = None\<rparr> opts))" for opts
    by (rule io_relI, rule ext_call_enqueues [OF con]) (simp_all add: scheduled_def stats_task_def)
  then show ?thesis
    unfolding enqueueStats_def
    by (auto intro!: onlyscheduled.respects_rules onlyscheduled.respects_if quiet_calls [OF con] split: prod.split sum.split)
qed

lemma active_scheduled:
  assumes "Buckets_ListActive x s = Some (Inr items, t)" and "b \<in> set items"
    and "ty \<in> {TaskInventoryBucket, TaskTrashBucket, TaskVersionsBucket, TaskMultipartBucket}"
  shows "scheduled (db s) (bucket_task ty b)"
proof -
  have "items = map Bucket.truncate (sort_key ID (filter (\<lambda>b. Status b = ''active'') (buckets (db s))))"
    using sql_query_value [OF assms(1) [unfolded Buckets_ListActive_def]] by auto
  then have "b \<in> Bucket.truncate ` set (buckets (db s)) \<and> Status b = ''active''" using assms(2) by (auto simp: truncate_fields)
  then show ?thesis using assms(3) unfolding scheduled_def by blast
qed

lemma enqueue_all_scheduled:
  assumes con: "queue_contract x q tasks"
    and ok: "\<And>ty b. ty \<in> {TaskInventoryBucket, TaskTrashBucket, TaskVersionsBucket, TaskMultipartBucket} \<Longrightarrow> b \<in> set items \<Longrightarrow>
      scheduled (db s) (bucket_task ty b)"
    and run: "for_each (\<lambda>(i, k, ty). enqueueBuckets q g items members now i k ty Hour) jobs s = Some (r, t)"
    and jobs: "\<forall>(i, k, ty) \<in> set jobs. ty \<in> {TaskInventoryBucket, TaskTrashBucket, TaskVersionsBucket, TaskMultipartBucket}"
  shows "only_scheduled tasks s t"
  using run jobs ok
proof (induction jobs arbitrary: s)
  case Nil
  then show ?case by (simp add: ret_apply onlyscheduled.R_refl)
next
  case (Cons job jobs)
  obtain i k ty where job: "job = (i, k, ty)" by (cases job)
  with Cons.prems(1) have "bind (enqueueBuckets q g items members now i k ty Hour)
      (\<lambda>_. for_each (\<lambda>(i, k, ty). enqueueBuckets q g items members now i k ty Hour) jobs) s = Some (r, t)" by simp
  then show ?case
  proof (cases rule: bind_E)
    case (stop err)
    then show ?thesis using enqueueBuckets_scheduled [OF con _ stop(1)] Cons.prems(2,3) job by auto
  next
    case (go u s1)
    have one: "only_scheduled tasks s s1" using enqueueBuckets_scheduled [OF con _ go(1)] Cons.prems(2,3) job by auto
    then have same: "db s1 = db s" by (simp add: only_scheduled_def)
    have "only_scheduled tasks s1 t" using Cons.IH [OF go(2)] Cons.prems(2,3) by (simp add: same)
    then show ?thesis using onlyscheduled.R_trans [OF one] by blast
  qed
qed

lemma run_round_scheduled:
  assumes con: "queue_contract x q tasks" and run: "run_round x q g last_members s = Some (r, t)"
  shows "only_scheduled tasks s t"
proof -
  let ?jobs = "[(15 * Minute, ''inventory'', TaskInventoryBucket), (Hour, ''trash'', TaskTrashBucket),
    (6 * Hour, ''versions'', TaskVersionsBucket), (6 * Hour, ''multipart'', TaskMultipartBucket)]"
  have four: "(bind (enqueueBuckets q g items members now (15 * Minute) ''inventory'' TaskInventoryBucket Hour) (\<lambda>_.
       bind (enqueueBuckets q g items members now Hour ''trash'' TaskTrashBucket Hour) (\<lambda>_.
       bind (enqueueBuckets q g items members now (6 * Hour) ''versions'' TaskVersionsBucket Hour) (\<lambda>_.
       enqueueBuckets q g items members now (6 * Hour) ''multipart'' TaskMultipartBucket Hour)))) u = Some (r, v) \<Longrightarrow>
      \<exists>r. for_each (\<lambda>(i, k, ty). enqueueBuckets q g items members now i k ty Hour) ?jobs u = Some (r, v)" for items members now u r v
    by (auto simp: bind_apply ret_apply split: option.splits sum.splits prod.splits)
  have list: "io_rel (only_scheduled tasks) (attempt (Buckets_ListActive x) (\<lambda>r. case r of
               Inl err \<Rightarrow> ret ()
             | Inr items \<Rightarrow>
                 bind (enqueueBuckets q g items members now (15 * Minute) ''inventory'' TaskInventoryBucket Hour) (\<lambda>_.
                 bind (enqueueBuckets q g items members now Hour ''trash'' TaskTrashBucket Hour) (\<lambda>_.
                 bind (enqueueBuckets q g items members now (6 * Hour) ''versions'' TaskVersionsBucket Hour) (\<lambda>_.
                 enqueueBuckets q g items members now (6 * Hour) ''multipart'' TaskMultipartBucket Hour)))))" for members now
  proof (rule io_relI, erule attempt_E)
    fix s r t c s1
    assume active: "Buckets_ListActive x s = Some (c, s1)"
      and rest: "(case c of Inl err \<Rightarrow> ret () | Inr items \<Rightarrow>
                 bind (enqueueBuckets q g items members now (15 * Minute) ''inventory'' TaskInventoryBucket Hour) (\<lambda>_.
                 bind (enqueueBuckets q g items members now Hour ''trash'' TaskTrashBucket Hour) (\<lambda>_.
                 bind (enqueueBuckets q g items members now (6 * Hour) ''versions'' TaskVersionsBucket Hour) (\<lambda>_.
                 enqueueBuckets q g items members now (6 * Hour) ''multipart'' TaskMultipartBucket Hour)))) s1 = Some (r, t)"
    have s1: "only_scheduled tasks s s1" using io_relD [OF quiet_calls(5) [OF con] active] .
    then have same: "db s1 = db s" by (simp add: only_scheduled_def)
    show "only_scheduled tasks s t"
    proof (cases c)
      case (Inl err)
      then show ?thesis using rest s1 by (simp add: ret_apply)
    next
      case (Inr items)
      then obtain r' where "for_each (\<lambda>(i, k, ty). enqueueBuckets q g items members now i k ty Hour) ?jobs s1 = Some (r', t)"
        using rest four by fastforce
      then have "only_scheduled tasks s1 t"
        by (rule enqueue_all_scheduled [OF con, rotated]) (use active_scheduled [OF active [unfolded Inr]] same in auto)
      then show ?thesis using onlyscheduled.R_trans [OF s1] by blast
    qed
  qed
  have "io_rel (only_scheduled tasks) (run_round x q g last_members)"
    unfolding run_round_def
    by (auto intro!: onlyscheduled.respects_ret onlyscheduled.respects_attempt onlyscheduled.respects_bind list quiet_calls [OF con]
        Members_scheduled [OF con] enqueueStats_scheduled [OF con] split: sum.split)
  then show ?thesis using run by (rule io_relD)
qed

text \<open>
  C10: What the scheduler enqueues the worker runs, as the job it was meant to be: each task that
  a round adds to the queue gets a handler, and the handler does the inventory or one of the three
  cleanups of an active bucket, under the id and name that the bucket has in the database, or the
  request statistics. (Buckets have positive 64-bit ids, and names that are valid UTF-8 and not blank.)
\<close>

theorem scheduled_tasks_run:
  assumes "queue_contract x q tasks" and "mux_contract pick_pattern"
    and "\<And>b. b \<in> set (buckets (db s)) \<Longrightarrow> 1 \<le> ID b \<and> is_int64 (ID b) \<and>
      TrimSpace (BucketName b) \<noteq> [] \<and> ValidString (BucketName b)"
    and "run_round x q g last_members s = Some (r, t)"
    and "tk \<in> set (drop (length (tasks (env s))) (tasks (env t)))"
  shows "task_type tk = TaskRequestStats \<and> ProcessTask pick_pattern w j tk = RequestStats w j tk \<or>
    (\<exists>b \<in> Bucket.truncate ` set (buckets (db s)). Status b = ''active'' \<and>
      (\<exists>m. (task_type tk, m) \<in> set (job_of w j b) \<and> ProcessTask pick_pattern w j tk = m))"
proof -
  have "scheduled (db s) tk"
    using run_round_scheduled [OF assms(1,4)] assms(5) by (auto simp: only_scheduled_def)
  then consider "tk = stats_task" | b ty where "b \<in> Bucket.truncate ` set (buckets (db s))" "Status b = ''active''"
    "ty \<in> {TaskInventoryBucket, TaskTrashBucket, TaskVersionsBucket, TaskMultipartBucket}" "tk = bucket_task ty b"
    unfolding scheduled_def by blast
  then show ?thesis
  proof cases
    case 1
    then show ?thesis using ProcessTask_handler [OF assms(2), of tk "RequestStats w j" w j] by (simp add: mux_handlers_def stats_task_def)
  next
    case (2 b ty)
    have b: "1 \<le> ID b" "is_int64 (ID b)" "TrimSpace (BucketName b) \<noteq> []" "ValidString (BucketName b)"
      using 2(1) assms(3) by (auto simp: truncate_fields)
    obtain m where "(ty, m) \<in> set (job_of w j b)" using 2(3) by (auto simp: job_of_def)
    then have "ProcessTask pick_pattern w j tk = m \<and> (task_type tk, m) \<in> set (job_of w j b)"
      using bucket_task_runs [OF assms(2) b(2,1,3,4)] 2(4) by simp
    then show ?thesis using 2(1,2) by blast
  qed
qed

text \<open>A queue that accepts everything, as the whole of the environment.\<close>

definition demo_queue :: "task list broker" where
  "demo_queue = \<lparr>asynq_Enqueue = (\<lambda>e t _. (Inr ''id'', e @ [t])), redis_Set = (\<lambda>e _ _ _. (Inr (), e)),
     redis_SetNX = (\<lambda>e _ _ _. (Inr True, e)), redis_Del = (\<lambda>e _. (Inr (), e)), redis_Scan = (\<lambda>e _ _ _. (Inr ([], 0), e)),
     parse_url = (\<lambda>_. None)\<rparr>"

definition demo_world :: "task list ext" where
  "demo_world = \<lparr>clock = (\<lambda>e. (40 * Day, e)), sql = (\<lambda>e. (SqlOk (40 * Day), e)), collate = (\<lambda>a b. True),
     audit_defaults = audit_defaults demo_ext,
     s3_HeadObject = (\<lambda>_ e _ _. (Inl TaskIDConflict, e)), s3_CopyObject = (\<lambda>_ e _ _ _. (Inl TaskIDConflict, e)),
     s3_DeleteObject = (\<lambda>_ e _ _. (Inl TaskIDConflict, e)), s3_ListObjectsV2 = (\<lambda>_ e _ _ _ _. (Inl TaskIDConflict, e)),
     s3_AbortMultipartUpload = (\<lambda>_ e _ _ _. (Inl TaskIDConflict, e))\<rparr>"

definition exact_mux :: "string list \<Rightarrow> string \<Rightarrow> string option" where
  "exact_mux ps ty = (if ty \<in> set ps then Some ty else None)"

theorem scheduled_tasks_run_witness:
  "\<exists>r t tk. run_round demo_world demo_queue demo_group [] \<lparr>db = demo_db, env = []\<rparr> = Some (r, t) \<and> tk \<in> set (env t) \<and>
     ProcessTask exact_mux demo_ext demo_jobs tk = trash demo_ext demo_jobs 1"
proof -
  let ?s = "\<lparr>db = demo_db, env = []\<rparr> :: task list sys"
  have "map_option (\<lambda>(r, t). map task_type (env t)) (run_round demo_world demo_queue demo_group [] ?s) =
      Some [TaskInventoryBucket, TaskTrashBucket, TaskVersionsBucket, TaskMultipartBucket, TaskRequestStats]"
    by code_simp
  then obtain r t where run: "run_round demo_world demo_queue demo_group [] ?s = Some (r, t)"
    and types: "map task_type (env t) = [TaskInventoryBucket, TaskTrashBucket, TaskVersionsBucket, TaskMultipartBucket, TaskRequestStats]"
    by auto
  then have "TaskTrashBucket \<in> task_type ` set (env t)" by (metis list.set_intros set_map)
  then obtain tk where tk: "tk \<in> set (env t)" "task_type tk = TaskTrashBucket" by auto
  have con: "queue_contract demo_world demo_queue (\<lambda>e. e)" "mux_contract exact_mux"
    by (simp_all add: queue_contract_def demo_world_def demo_queue_def mux_contract_def exact_mux_def)
  have ids: "1 \<le> ID b \<and> is_int64 (ID b) \<and> TrimSpace (BucketName b) \<noteq> [] \<and> ValidString (BucketName b)" if "b \<in> set (buckets (db ?s))" for b
  proof -
    have "b = Bucket.extend demo_bucket \<lparr>inventoried_at = None\<rparr>" using that by (simp add: demo_db_def)
    moreover have "TrimSpace ''media'' \<noteq> [] \<and> ValidString ''media''" by code_simp
    ultimately show ?thesis by (simp add: demo_bucket_def Bucket.defs is_int64_def)
  qed
  have "tk \<in> set (drop (length (env ?s)) (env t))" using tk by simp
  from scheduled_tasks_run [OF con ids run this, of demo_ext demo_jobs]
  have "ProcessTask exact_mux demo_ext demo_jobs tk = trash demo_ext demo_jobs 1"
    using tk(2) by (auto simp: job_of_def task_types demo_db_def demo_bucket_def Bucket.defs)
  then show ?thesis using run tk(1) by blast
qed

end
