(* ===== verification/WorkerTasks.thy ===== *)
theory WorkerTasks
  imports WorkerMain
begin

text \<open>
  What holds of every task of the worker, whatever its type and payload and however the storage,
  the database and the clock behave while it runs: it ends, it keeps the keys of the tables
  unique, and it leaves alone what the worker does not own.
\<close>

section \<open>A relation on databases that every statement of the worker respects\<close>

definition on_db :: "(tenant_db \<Rightarrow> tenant_db \<Rightarrow> bool) \<Rightarrow> 'e sys \<Rightarrow> 'e sys \<Rightarrow> bool" where
  "on_db P s t \<longleftrightarrow> P (db s) (db t)"

locale db_preorder =
  fixes P :: "tenant_db \<Rightarrow> tenant_db \<Rightarrow> bool"
  assumes P_refl: "P d d"
    and P_trans: "P d d' \<Longrightarrow> P d' d'' \<Longrightarrow> P d d''"

sublocale db_preorder \<subseteq> io_preorder "on_db P"
  by unfold_locales (auto simp: on_db_def intro: P_refl P_trans)

text \<open>The changes that the worker makes to the database, one law for each.\<close>

locale task_effects = db_preorder +
  assumes upsert: "P d (sql_upsert bid bname k n etag ct uid now d)"
    and delete: "P d (sql_delete_object bid k d)"
    and move: "P d (move_effect bid bname src dst n etag ct uid now d)"
    and upsert_seen: "P d (sql_upsert_seen bid bname k n etag cls now d)"
    and purge_unseen: "P d (sql_purge_unseen bid now d)"
    and mark: "P d (sql_mark_inventoried bid now d)"
    and delete_version: "P d (sql_delete_version vid d)"
    and finish_upload: "P d (sql_finish_upload tid st now d)"
    and insert_audit: "P d (sql_insert_audit df u a bname ky act st msg ip ua now d)"
    and replace: "P d (replace_stats now (bucket_names d) (counted now d) d)"
begin

lemma respects_stmt: "(\<And>t d. P d (snd (f t d))) \<Longrightarrow> io_rel (on_db P) (sql_stmt x f)"
  by (auto simp: io_rel_def sql_stmt_def on_db_def P_refl split: prod.splits sql_reply.splits) (metis snd_conv)+

lemma respects_exec: "(\<And>t d. P d (f t d)) \<Longrightarrow> io_rel (on_db P) (sql_exec x f)"
  unfolding sql_exec_def by (rule respects_stmt) simp

lemma respects_query: "io_rel (on_db P) (sql_query x f)"
  unfolding sql_query_def by (rule respects_stmt) (simp add: P_refl)

lemma respects_same_db: "io_rel same_db m \<Longrightarrow> io_rel (on_db P) m"
  by (erule io_rel_mono) (simp add: same_db_def on_db_def P_refl)

lemmas respects_calls = respects_query
  respects_same_db [OF time_Now_same_db] respects_same_db [OF storage_same_db(1)] respects_same_db [OF storage_same_db(2)]
  respects_same_db [OF storage_same_db(3)] respects_same_db [OF storage_same_db(4)] respects_same_db [OF storage_same_db(5)]
  respects_same_db [OF storage_same_db(6)]

lemma respects_statements:
  "io_rel (on_db P) (Objects_Upsert x bid bname k n etag ct uid now)" "io_rel (on_db P) (Objects_Delete x bid k)"
  "io_rel (on_db P) (Objects_UpsertSeen x bid bname k n etag cls now)" "io_rel (on_db P) (Objects_PurgeUnseen x bid now)"
  "io_rel (on_db P) (Buckets_MarkInventoried x bid now)" "io_rel (on_db P) (Versions_Delete x vid)"
  "io_rel (on_db P) (Uploads_Finish x tid st now)" "io_rel (on_db P) (jobs_audit x j u a bname ky act st msg ip ua)"
  unfolding Objects_Upsert_def Objects_Delete_def Objects_UpsertSeen_def Objects_PurgeUnseen_def Buckets_MarkInventoried_def
    Versions_Delete_def Uploads_Finish_def jobs_audit_def RecordMeta_def audit_write_def Let_def
  by (intro respects_rules respects_if respects_exec upsert delete upsert_seen purge_unseen mark delete_version finish_upload insert_audit)+

lemma respects_MoveKey: "io_rel (on_db P) (Objects_MoveKey x bid bname src dst n etag ct uid now)"
proof (rule io_relI)
  fix s r t
  assume "Objects_MoveKey x bid bname src dst n etag ct uid now s = Some (r, t)"
  from Objects_MoveKey_result [OF this] show "on_db P s t" by (auto simp: on_db_def P_refl move split: sum.splits)
qed

lemma respects_Aggregate: "io_rel (on_db P) (AggregateRequests x now)"
proof (rule io_relI)
  fix s r t
  assume "AggregateRequests x now s = Some (r, t)"
  from Aggregate_run [OF this] show "on_db P s t" by (auto simp: on_db_def P_refl replace)
qed

lemma respects_queries:
  "io_rel (on_db P) (Buckets_ListActive x)" "io_rel (on_db P) (Buckets_GetByName x name)" "io_rel (on_db P) (Buckets_GetVisible x acc name)"
  "io_rel (on_db P) (TrashPolicy x)" "io_rel (on_db P) (VersionPolicy x)" "io_rel (on_db P) (MultipartPolicy x)"
  "io_rel (on_db P) (Objects_ExpiredTrash x days)" "io_rel (on_db P) (Objects_ExpiredTrashInBucket x days bid)"
  "io_rel (on_db P) (Versions_Expired x days)" "io_rel (on_db P) (Versions_ExpiredInBucket x days bname)"
  "io_rel (on_db P) (Uploads_StaleMultipart x days)" "io_rel (on_db P) (Uploads_StaleMultipartInBucket x days bname)"
  "io_rel (on_db P) (jobs_client x j)"
  unfolding Buckets_ListActive_def Buckets_GetByName_def Buckets_GetVisible_def TrashPolicy_def VersionPolicy_def MultipartPolicy_def
    CleanupPolicy_def Settings_Map_def Objects_ExpiredTrash_def Objects_ExpiredTrashInBucket_def Objects_expiredTrash_def Versions_Expired_def
    Versions_ExpiredInBucket_def Versions_expired_def Uploads_StaleMultipart_def Uploads_StaleMultipartInBucket_def
    Uploads_staleMultipart_def jobs_client_def Let_def
  by (auto intro!: respects_rules respects_calls split: sum.split)

lemma respects_storage:
  "io_rel (on_db P) (ApplyDelete x c b uid k permanent now)" "io_rel (on_db P) (ApplyCopy x c src dest uid k k' now)"
  "io_rel (on_db P) (ApplyMove x c b uid k k' now)"
  unfolding ApplyDelete_def ApplyCopy_def ApplyMove_def rejectIfExists_def Let_def
  by (auto intro!: respects_rules respects_calls respects_statements respects_MoveKey split: sum.split)

text \<open>The two loops over a listing, also where they do not end.\<close>

lemma respects_scan_pages: "io_rel (on_db P) (scan_pages x c b now token)"
proof -
  have step: "on_db P s (snd y)"
    if hyp: "\<And>x c b now token s y. loop x c b now token s = Some y \<Longrightarrow> on_db P s (snd y)"
      and run: "Option.bind (ListObjects x c (BucketName b) token 1000 s) (\<lambda>(r, s1).
        case r of Inl err \<Rightarrow> Some (Inl err, s1)
        | Inr page \<Rightarrow> Option.bind (for_each (see_object x b now) (Objects page) s1) (\<lambda>(r, s2).
            case r of Inl err \<Rightarrow> Some (Inl err, s2)
            | Inr _ \<Rightarrow> if \<not> Truncated page \<or> Token page = [] then Some (Inr (), s2) else loop x c b now (Token page) s2)) = Some y"
    for loop and x :: "'e ext" and c b now token s and y :: "(go_error + unit) \<times> 'e sys"
  proof -
    from run obtain r s1 where page: "ListObjects x c (BucketName b) token 1000 s = Some (r, s1)" by (auto simp: bind_eq_Some_conv)
    have one: "on_db P s s1" by (rule io_relD [OF respects_same_db [OF storage_same_db(6)] page])
    have see: "on_db P s s2" if "for_each (see_object x b now) objs s1 = Some (q, s2)" for objs q s2
    proof -
      have "io_rel (on_db P) (for_each (see_object x b now) objs)"
        unfolding see_object_def by (intro respects_rules respects_if respects_statements)
      then show ?thesis using that one by (blast dest: io_relD intro: R_trans)
    qed
    have rest: "on_db P s (snd y)" if "loop x c b now t s2 = Some y" "on_db P s s2" for t s2
      using hyp [OF that(1)] that(2) by (rule R_trans [rotated])
    show ?thesis
    proof (cases r)
      case (Inl err)
      then show ?thesis using run page one by auto
    next
      case (Inr pg)
      with run page obtain q s2 where objs: "for_each (see_object x b now) (Objects pg) s1 = Some (q, s2)" by (auto simp: bind_eq_Some_conv)
      with run page Inr show ?thesis by (cases q) (auto split: if_splits intro: see rest)
    qed
  qed
  have "on_db P s (snd y)" if "scan_pages x c b now token s = Some y" for x :: "'e ext" and token s y
    apply (rule scan_pages.raw_induct [where P = "\<lambda>x c b now token s y. on_db P s (snd y)" and xa = "(((((x, c), b), now), token), s)"
        and y = y, unfolded split_conv])
    subgoal premises prems for loop by (rule step [of loop, OF prems])
    by (rule that)
  then show ?thesis by (force simp: io_rel_def)
qed

lemma respects_listPrefixKeys: "io_rel (on_db P) (listPrefixKeys x c bname pfx)"
proof -
  have step: "on_db P s (snd y)"
    if hyp: "\<And>x c bname pfx ks token s y. loop x c bname pfx ks token s = Some y \<Longrightarrow> on_db P s (snd y)"
      and run: "Option.bind (ListPrefixFlat x c bname pfx token 1000 s) (\<lambda>(r, s').
        case r of Inl err \<Rightarrow> Some (Inl err, s')
        | Inr page \<Rightarrow> let keys' = ks @ filter (\<lambda>k. k \<noteq> []) (map l_Key (Objects page)) in
            if \<not> Truncated page \<or> Token page = [] then Some (Inr keys', s')
            else loop x c bname pfx keys' (Token page) s') = Some y"
    for loop and x :: "'e ext" and c bname pfx ks token s and y :: "(go_error + string list) \<times> 'e sys"
  proof -
    from run obtain r s1 where page: "ListPrefixFlat x c bname pfx token 1000 s = Some (r, s1)" by (auto simp: bind_eq_Some_conv)
    have one: "on_db P s s1" by (rule io_relD [OF respects_same_db [OF storage_same_db(5)] page])
    have rest: "on_db P s (snd y)" if "loop x c bname pfx ks' t s1 = Some y" for ks' t
      using hyp [OF that] one by (rule R_trans [rotated])
    show ?thesis using run page one by (auto simp: Let_def split: sum.splits if_splits dest: rest)
  qed
  have "on_db P s (snd y)" if "listPrefixKeys_loop x c bname pfx ks token s = Some y" for x :: "'e ext" and ks token s y
    apply (rule listPrefixKeys_loop.raw_induct [where P = "\<lambda>x c bname pfx ks token s y. on_db P s (snd y)"
        and xa = "((((((x, c), bname), pfx), ks), token), s)" and y = y, unfolded split_conv])
    subgoal premises prems for loop by (rule step [of loop, OF prems])
    by (rule that)
  then show ?thesis by (force simp: io_rel_def listPrefixKeys_def)
qed

lemma respects_Expand: "io_rel (on_db P) (ExpandDeleteKeys x c b ks)"
proof -
  have "io_rel (on_db P) (ExpandDeleteKeys_loop x c b ks seen resolved failed)" for seen resolved failed
  proof (induction ks arbitrary: seen resolved failed)
    case (Cons k ks)
    then show ?case by (auto intro!: respects_attempt respects_listPrefixKeys split: sum.split prod.split)
  qed (simp add: respects_ret)
  then show ?thesis by (simp add: ExpandDeleteKeys_def)
qed

text \<open>The handlers.\<close>

lemma respects_with_client: "(\<And>c. io_rel (on_db P) (body c)) \<Longrightarrow> io_rel (on_db P) (with_client x j body)"
  unfolding with_client_def by (auto intro!: respects_bind respects_ret respects_queries split: option.split)

lemma respects_scanBucket: "io_rel (on_db P) (scanBucket x c b)"
  unfolding scanBucket_def by (intro respects_bind respects_scan_pages respects_calls respects_statements)

lemma respects_sweep:
  "(\<And>i. io_rel (on_db P) (erase i)) \<Longrightarrow> (\<And>i. io_rel (on_db P) (forget i)) \<Longrightarrow> io_rel (on_db P) (sweep erase forget items)"
  unfolding sweep_def by (auto intro!: respects_rules split: sum.split)

lemma respects_cleanup:
  "io_rel (on_db P) (trash x j bid)" "io_rel (on_db P) (cleanVersions x j bname)" "io_rel (on_db P) (cleanMultipart x j bname)"
  unfolding trash_def cleanVersions_def cleanMultipart_def
  by (auto intro!: respects_with_client respects_rules respects_queries respects_sweep respects_calls respects_statements
      split: prod.split option.split)

lemma respects_batch:
  "io_rel (on_db P) (Jobs_BatchDelete x j tk)" "io_rel (on_db P) (Jobs_BatchCopy x j tk)" "io_rel (on_db P) (Jobs_BatchMove x j tk)"
  unfolding Jobs_BatchDelete_def Jobs_BatchCopy_def Jobs_BatchMove_def report_failed_def delete_one_def copy_one_def move_one_def
    audit_item_def Let_def
  by (auto intro!: respects_with_client respects_rules respects_queries respects_Expand respects_storage respects_calls respects_statements
      split: sum.split prod.split option.split)

lemma respects_jobs:
  "io_rel (on_db P) (Inventory x j tk)" "io_rel (on_db P) (InventoryBucket x j tk)" "io_rel (on_db P) (TrashBucket x j tk)"
  "io_rel (on_db P) (Trash x j tk)" "io_rel (on_db P) (VersionsBucket x j tk)" "io_rel (on_db P) (CleanVersions x j tk)"
  "io_rel (on_db P) (MultipartBucket x j tk)" "io_rel (on_db P) (CleanMultipart x j tk)" "io_rel (on_db P) (RequestStats x j tk)"
  unfolding Inventory_def InventoryBucket_def TrashBucket_def Trash_def VersionsBucket_def CleanVersions_def MultipartBucket_def
    CleanMultipart_def RequestStats_def
  by (auto intro!: respects_with_client respects_rules respects_queries respects_scanBucket respects_cleanup respects_Aggregate respects_calls
      split: sum.split option.split)

lemma respects_ProcessTask: "io_rel (on_db P) (ProcessTask pick_pattern x j tk)"
proof -
  have "io_rel (on_db P) (h tk)" if "(p, h) \<in> set (mux_handlers x j)" for p h
    using that respects_jobs respects_batch by (auto simp: mux_handlers_def)
  then show ?thesis
    unfolding ProcessTask_def by (auto intro!: respects_throw split: option.split dest!: map_of_SomeD)
qed

lemma task_respects: "ProcessTask pick_pattern x j tk s = Some (r, t) \<Longrightarrow> P (db s) (db t)"
  using io_relD [OF respects_ProcessTask] by (simp add: on_db_def)

lemma respects_worker_main: "io_rel (on_db P) (worker_main parse_uri pg_New pick_pattern x os_Getenv tasks)"
  unfolding worker_main_def withTaskLog_def
  by (auto intro!: respects_rules respects_ProcessTask split: sum.split prod.split)

lemma worker_respects:
  "worker_main parse_uri pg_New pick_pattern x os_Getenv tasks s = Some (r, t) \<Longrightarrow> P (db s) (db t)"
  using io_relD [OF respects_worker_main] by (simp add: on_db_def)

end

section \<open>Unique keys\<close>

definition keeps_keys :: "tenant_db \<Rightarrow> tenant_db \<Rightarrow> bool" where
  "keeps_keys d d' \<longleftrightarrow> (db_wf d \<longrightarrow> db_wf d') \<and> (stats_wf d \<longrightarrow> stats_wf d')"

lemma keeps_keys_objects:
  assumes "db_wf d \<Longrightarrow> tab_wf object_key rows"
  shows "keeps_keys d (d\<lparr>object_records := rows\<rparr>)"
  using assms by (simp add: keeps_keys_def db_wf_def stats_wf_def)

lemma move_effect_fields: "\<exists>rows. move_effect bid bname src dst n etag ct uid now d = d\<lparr>object_records := rows\<rparr>"
  by (simp add: move_effect_def Let_def sql_delete_object_def sql_rename_object_def sql_insert_object_def) blast

interpretation keys: task_effects keeps_keys
proof unfold_locales
  fix d d' d'' :: tenant_db
  show "keeps_keys d d" by (simp add: keeps_keys_def)
  show "keeps_keys d d' \<Longrightarrow> keeps_keys d' d'' \<Longrightarrow> keeps_keys d d''" by (simp add: keeps_keys_def)
  fix bid bname k n etag ct uid now
  show "keeps_keys d (sql_upsert bid bname k n etag ct uid now d)"
    unfolding sql_upsert_def by (intro keeps_keys_objects tab_wf_upsert db_wf_objects) (simp_all add: tab_simps)
  show "keeps_keys d (sql_delete_object bid k d)"
    unfolding sql_delete_object_def by (intro keeps_keys_objects tab_wf_delete db_wf_objects)
  show "keeps_keys d (sql_upsert_seen bid bname k n etag cls now d)" for cls
    unfolding sql_upsert_seen_def by (intro keeps_keys_objects tab_wf_upsert db_wf_objects) (simp_all add: tab_simps)
  show "keeps_keys d (sql_purge_unseen bid now d)"
    unfolding sql_purge_unseen_def by (intro keeps_keys_objects tab_wf_delete db_wf_objects)
  show "keeps_keys d (move_effect bid bname src dst n etag ct uid now d)" for src dst
  proof -
    obtain rows where rows: "move_effect bid bname src dst n etag ct uid now d = d\<lparr>object_records := rows\<rparr>"
      using move_effect_fields by blast
    have "tab_wf object_key rows" if "db_wf d"
      using db_wf_objects [OF db_wf_move_effect [OF that, of bid bname src dst n etag ct uid now]] by (simp add: rows)
    then show ?thesis unfolding rows by (rule keeps_keys_objects)
  qed
  show "keeps_keys d (sql_mark_inventoried bid now d)"
    by (simp add: keeps_keys_def sql_mark_inventoried_def db_wf_def stats_wf_def tab_wf_update)
  show "keeps_keys d (sql_delete_version vid d)" for vid
    by (simp add: keeps_keys_def sql_delete_version_def db_wf_def stats_wf_def tab_wf_delete)
  show "keeps_keys d (sql_finish_upload tid st now d)" for tid st
    by (simp add: keeps_keys_def sql_finish_upload_def db_wf_def stats_wf_def tab_wf_update)
  show "keeps_keys d (sql_insert_audit df u a bname ky act st msg ip ua now d)" for df u a ky act st msg ip ua
    by (simp add: keeps_keys_def sql_insert_audit_def db_wf_def stats_wf_def)
  have "stats_wf (replace_stats now (bucket_names d) (counted now d) d)" unfolding counted_def by (rule replace_stats_wf)
  then show "keeps_keys d (replace_stats now (bucket_names d) (counted now d) d)"
    by (simp add: keeps_keys_def db_wf_def replace_stats_def)
qed

section \<open>What is not the worker's\<close>

definition leaves_alone :: "tenant_db \<Rightarrow> tenant_db \<Rightarrow> bool" where
  "leaves_alone d d' \<longleftrightarrow> map Bucket.truncate (buckets d') = map Bucket.truncate (buckets d) \<and>
     account_bucket_grants d' = account_bucket_grants d \<and> tenant_users d' = tenant_users d \<and>
     platform_settings d' = platform_settings d \<and> prefix (audit_logs d) (audit_logs d') \<and>
     subseq (file_versions d') (file_versions d) \<and>
     map (\<lambda>u. u\<lparr>u_status := [], u_completed_at := None\<rparr>) (upload_tasks d') =
       map (\<lambda>u. u\<lparr>u_status := [], u_completed_at := None\<rparr>) (upload_tasks d)"

lemma leaves_alone_objects: "leaves_alone d (d\<lparr>object_records := rows\<rparr>)"
  by (simp add: leaves_alone_def)

lemma map_tab_update: "(\<And>r. f (g r) = f r) \<Longrightarrow> map f (tab_update Q g rows) = map f rows"
  by (simp add: tab_update_def)

interpretation alone: task_effects leaves_alone
proof unfold_locales
  fix d d' d'' :: tenant_db
  show "leaves_alone d d" by (simp add: leaves_alone_def)
  show "leaves_alone d d' \<Longrightarrow> leaves_alone d' d'' \<Longrightarrow> leaves_alone d d''"
    unfolding leaves_alone_def by (auto intro: prefix_order.trans subseq_order.trans)
  fix bid bname k n etag ct uid now
  show "leaves_alone d (sql_upsert bid bname k n etag ct uid now d)" "leaves_alone d (sql_delete_object bid k d)"
    "leaves_alone d (sql_upsert_seen bid bname k n etag cls now d)" "leaves_alone d (sql_purge_unseen bid now d)" for cls
    unfolding sql_upsert_def sql_delete_object_def sql_upsert_seen_def sql_purge_unseen_def by (rule leaves_alone_objects)+
  show "leaves_alone d (move_effect bid bname src dst n etag ct uid now d)" for src dst
    using move_effect_fields [of bid bname src dst n etag ct uid now d] leaves_alone_objects by metis
  show "leaves_alone d (sql_mark_inventoried bid now d)"
    by (simp add: leaves_alone_def sql_mark_inventoried_def map_tab_update Bucket.defs)
  show "leaves_alone d (sql_delete_version vid d)" for vid
    by (simp add: leaves_alone_def sql_delete_version_def tab_delete_def)
  show "leaves_alone d (sql_finish_upload tid st now d)" for tid st
    by (simp add: leaves_alone_def sql_finish_upload_def map_tab_update)
  show "leaves_alone d (sql_insert_audit df u a bname ky act st msg ip ua now d)" for df u a ky act st msg ip ua
    by (simp add: leaves_alone_def sql_insert_audit_def)
  show "leaves_alone d (replace_stats now (bucket_names d) (counted now d) d)"
    by (simp add: leaves_alone_def replace_stats_def)
qed

section \<open>Every task ends\<close>

lemma total_sql_transaction_wrap [io_rules]:
  assumes "total body"
  shows "total (sql_transaction x (wrap_err p) (wrap_err q) body)"
proof -
  have ok: "total (wrap_err m (sql_exec x f))" for m f by (intro io_rules)
  have "sql_transaction x (wrap_err p) (wrap_err q) body s \<noteq> None" for s
  proof -
    let ?K = "attempt body (\<lambda>r. case r of Inl err \<Rightarrow> (\<lambda>s'. Some (Inl err, s'\<lparr>db := db s\<rparr>))
        | Inr a \<Rightarrow> (\<lambda>s'. case wrap_err q (sql_exec x (\<lambda>_ _. db s')) (s'\<lparr>db := db s\<rparr>) of
            None \<Rightarrow> None | Some (Inl err, s'') \<Rightarrow> Some (Inl err, s'') | Some (Inr _, s'') \<Rightarrow> Some (Inr a, s'')))"
    have "total ?K"
      using ok assms by (intro total_attempt) (auto simp: total_def split: sum.split option.split)
    then have "total (bind (wrap_err p (sql_exec x (\<lambda>_ d. d))) (\<lambda>_. ?K))" by (intro total_bind ok)
    then show ?thesis unfolding sql_transaction_def by (simp add: total_def)
  qed
  then show ?thesis by (simp add: total_def)
qed

lemma total_objects [io_rules]:
  "total (Objects_Upsert x bid bname k n etag ct uid now)" "total (Objects_Delete x bid k)" "total (Objects_MoveKey x bid bname src dst n etag ct uid now)"
  "total (Objects_ExpiredTrash x days)" "total (Objects_ExpiredTrashInBucket x days bid)"
  "total (ApplyDelete x c b uid k permanent now)" "total (ApplyCopy x c sb tb uid k k' now)" "total (ApplyMove x c b uid k k' now)"
  unfolding ApplyDelete_def ApplyCopy_def ApplyMove_def rejectIfExists_def Objects_Upsert_def Objects_Delete_def Objects_MoveKey_def
    Objects_ExpiredTrash_def Objects_ExpiredTrashInBucket_def Objects_expiredTrash_def Let_def
  by (intro io_rules)+

lemma total_jobs_audit [io_rules]: "total (jobs_audit x j u a bname ky act st msg ip ua)"
  unfolding jobs_audit_def by (intro io_rules)

lemma total_option [io_rules]: "total m \<Longrightarrow> (\<And>a. total (f a)) \<Longrightarrow> total (case c of None \<Rightarrow> m | Some a \<Rightarrow> f a)"
  by (simp split: option.split)

lemma total_prod [io_rules]: "(\<And>a b. total (f a b)) \<Longrightarrow> total (case p of (a, b) \<Rightarrow> f a b)"
  by (simp split: prod.split)

lemma total_with_client [io_rules]: "(\<And>c. total (body c)) \<Longrightarrow> total (with_client x j body)"
  unfolding with_client_def jobs_client_def by (intro io_rules)

lemma total_sweep [io_rules]: "(\<And>i. total (erase i)) \<Longrightarrow> (\<And>i. total (forget i)) \<Longrightarrow> total (sweep erase forget items)"
  unfolding sweep_def by (intro io_rules)

lemma total_cleanup [io_rules]: "total (trash x j bid)" "total (cleanVersions x j bname)" "total (cleanMultipart x j bname)"
  unfolding trash_def cleanVersions_def cleanMultipart_def by (intro io_rules)+

text \<open>The loops over listings, where the storage ends its listings.\<close>

definition listings_end :: "'e ext \<Rightarrow> ('e \<Rightarrow> string \<Rightarrow> string option \<Rightarrow> s3_object list) \<Rightarrow>
    ('e \<Rightarrow> string \<Rightarrow> string option \<Rightarrow> string option \<Rightarrow> nat) \<Rightarrow> bool" where
  "listings_end x all pos \<longleftrightarrow> (\<forall>cfg. listing_contract x cfg all pos) \<and> scan_quiet x all pos"

lemma total_scanBucket: "listings_end x all pos \<Longrightarrow> total (scanBucket x c b)"
proof -
  assume "listings_end x all pos"
  then have con: "listing_contract x (c_s3 c) all pos" "scan_quiet x all pos" by (simp_all add: listings_end_def)
  have "scanBucket x c b s \<noteq> None" for s
    using con by (rule scanBucket_result [of x c all pos b s]) simp
  then show ?thesis by (simp add: total_def)
qed

lemma total_Expand: "listings_end x all pos \<Longrightarrow> total (ExpandDeleteKeys x c b ks)"
proof -
  assume "listings_end x all pos"
  then have con: "listing_contract x (c_s3 c) all pos" by (simp add: listings_end_def)
  have list: "total (listPrefixKeys x c bname pfx)" for bname pfx
    unfolding total_def listPrefixKeys_def using listPrefixKeys_loop_result [OF con] by (metis option.discI)
  have "total (ExpandDeleteKeys_loop x c b ks seen resolved failed)" for seen resolved failed
  proof (induction ks arbitrary: seen resolved failed)
    case (Cons k ks)
    then show ?case by (auto intro!: io_rules list split: sum.split prod.split)
  qed (simp add: total_ret)
  then show ?thesis by (simp add: ExpandDeleteKeys_def)
qed

lemma total_ProcessTask:
  assumes "listings_end x all pos"
  shows "total (ProcessTask pick_pattern x j tk)"
proof -
  note ends = total_scanBucket [OF assms] total_Expand [OF assms]
  have "total (Inventory x j tk)" "total (InventoryBucket x j tk)" "total (TrashBucket x j tk)"
    "total (Trash x j tk)" "total (VersionsBucket x j tk)" "total (CleanVersions x j tk)"
    "total (MultipartBucket x j tk)" "total (CleanMultipart x j tk)" "total (RequestStats x j tk)"
    "total (Jobs_BatchDelete x j tk)" "total (Jobs_BatchCopy x j tk)" "total (Jobs_BatchMove x j tk)"
    unfolding Inventory_def InventoryBucket_def TrashBucket_def Trash_def VersionsBucket_def CleanVersions_def MultipartBucket_def
      CleanMultipart_def RequestStats_def Jobs_BatchDelete_def Jobs_BatchCopy_def Jobs_BatchMove_def report_failed_def
      delete_one_def copy_one_def move_one_def audit_item_def Let_def
    by (intro io_rules ends total_AggregateRequests)+
  then have "total (h tk)" if "(p, h) \<in> set (mux_handlers x j)" for p h
    using that by (auto simp: mux_handlers_def)
  then show ?thesis
    unfolding ProcessTask_def by (auto intro!: io_rules split: option.split dest!: map_of_SomeD)
qed

lemma total_worker_main: "listings_end x all pos \<Longrightarrow> total (worker_main parse_uri pg_New pick_pattern x os_Getenv tasks)"
  unfolding worker_main_def withTaskLog_def by (intro io_rules total_ProcessTask)

text \<open>A task that fails does not keep the worker from the next one.\<close>

lemma worker_main_ok:
  assumes "listings_end x all pos" and "worker_setup parse_uri pg_New os_Getenv = Inr (j, n)"
  shows "\<exists>t. worker_main parse_uri pg_New pick_pattern x os_Getenv tasks s = Some (Inr (), t)"
proof -
  let ?one = "\<lambda>tk. attempt (withTaskLog (ProcessTask pick_pattern x j) tk) (\<lambda>_. ret ())"
  have one: "\<exists>t. ?one tk s = Some (Inr (), t)" for tk s
  proof -
    have "total (withTaskLog (ProcessTask pick_pattern x j) tk)"
      unfolding withTaskLog_def by (intro io_rules total_ProcessTask [OF assms(1)])
    then show ?thesis by (auto simp: total_def attempt_def ret_apply split: option.split)
  qed
  have "\<exists>t. for_each ?one tasks s = Some (Inr (), t)" for s
  proof (induction tasks arbitrary: s)
    case (Cons tk tasks)
    obtain u where "?one tk s = Some (Inr (), u)" using one by blast
    then show ?case using Cons.IH [of u] by (simp add: bind_apply)
  qed (simp add: ret_apply)
  then show ?thesis using assms(2) by (simp add: worker_main_def)
qed

section \<open>The properties\<close>

text \<open>
  C11: Every task ends. Whatever is delivered to the worker (any type, any payload, bytes that are no
  JSON included), as long as the storage ends its listings while nobody writes, the
  handler returns; and a worker that has started gets through any sequence of tasks, the ones
  that fail included.
\<close>

theorem tasks_end:
  assumes "\<And>cfg. listing_contract x cfg all pos" and "scan_quiet x all pos"
  shows "(\<exists>r t. ProcessTask pick_pattern x j tk s = Some (r, t)) \<and>
    (worker_setup parse_uri pg_New os_Getenv \<in> range Inr \<longrightarrow>
      (\<exists>t. worker_main parse_uri pg_New pick_pattern x os_Getenv tasks s = Some (Inr (), t)))"
proof -
  have ends: "listings_end x all pos" using assms by (simp add: listings_end_def)
  have "\<exists>r t. ProcessTask pick_pattern x j tk s = Some (r, t)"
    using total_ProcessTask [OF ends] by (auto simp: total_def)
  then show ?thesis using worker_main_ok [OF ends] by auto
qed

text \<open>A process environment, and tasks of which one is unknown, one malformed, and two in order.\<close>

definition demo_getenv :: "string \<Rightarrow> string" where
  "demo_getenv v = (if v = ''REDIS_URL'' then ''redis://redis'' else if v = ''DATABASE_URL'' then ''postgres://db''
     else if v = ''S3_ENDPOINT'' then ''http://rgw/'' else if v = ''RGW_ACCESS_KEY'' then ''ak''
     else if v = ''RGW_SECRET_KEY'' then ''sk'' else [])"

definition demo_tasks :: "task list" where
  "demo_tasks = [\<lparr>task_type = ''objects:unknown'', task_payload = None\<rparr>, \<lparr>task_type = TaskTrashBucket, task_payload = None\<rparr>,
     \<lparr>task_type = TaskTrash, task_payload = None\<rparr>, \<lparr>task_type = TaskInventory, task_payload = None\<rparr>]"

lemma demo_setup: "worker_setup (\<lambda>_. None) (\<lambda>_. None) demo_getenv \<in> range Inr"
proof -
  have "(case worker_setup (\<lambda>_. None) (\<lambda>_. None) demo_getenv of Inl _ \<Rightarrow> False | Inr _ \<Rightarrow> True)" by code_simp
  then show ?thesis by (auto split: sum.splits)
qed

lemma demo_worker_run:
  obtains t where "worker_main (\<lambda>_. None) (\<lambda>_. None) exact_mux demo_ext demo_getenv demo_tasks demo_dirty = Some (Inr (), t)"
    and "lookup_object (db t) (1, ''.trash/old'') = None"
proof -
  have "map_option (\<lambda>(r, t). r = Inr () \<and> lookup_object (db t) (1, ''.trash/old'') = None)
      (worker_main (\<lambda>_. None) (\<lambda>_. None) exact_mux demo_ext demo_getenv demo_tasks demo_dirty) = Some True" by code_simp
  then show thesis using that by auto
qed

theorem tasks_end_witness:
  "(\<exists>r t. ProcessTask exact_mux demo_ext demo_jobs \<lparr>task_type = TaskBatchDelete, task_payload = None\<rparr> demo_dirty = Some (r, t)) \<and>
     (\<exists>t. worker_main (\<lambda>_. None) (\<lambda>_. None) exact_mux demo_ext demo_getenv demo_tasks demo_dirty = Some (Inr (), t))"
  using tasks_end [OF mem_listing_contract mem_scan_quiet] demo_setup by blast

text \<open>
  C12: No task makes two rows with one key. Whatever the tasks are, however they end and at whatever
  statement the database fails, the tables whose keys the SQL of the program relies on (objects by bucket
  and key, settings, versions, uploads, buckets by id and by name, grants, and the six tables of
  statistics) have unique keys afterwards if they had before.
\<close>

theorem tasks_keep_keys:
  assumes "worker_main parse_uri pg_New pick_pattern x os_Getenv tasks s = Some (r, t)"
    and "db_wf (db s)" and "stats_wf (db s)"
  shows "db_wf (db t) \<and> stats_wf (db t)"
  using keys.worker_respects [OF assms(1)] assms(2,3) by (simp add: keeps_keys_def)

lemma demo_dirty_stats_wf: "stats_wf (db demo_dirty)"
  by (simp add: stats_wf_def demo_dirty_def demo_db_def empty_db_def tab_wf_def)

theorem tasks_keep_keys_witness:
  "\<exists>t. worker_main (\<lambda>_. None) (\<lambda>_. None) exact_mux demo_ext demo_getenv demo_tasks demo_dirty = Some (Inr (), t) \<and>
     lookup_object (db t) (1, ''.trash/old'') = None \<and> db_wf (db t) \<and> stats_wf (db t)"
proof (rule demo_worker_run)
  fix t :: "mem sys"
  assume run: "worker_main (\<lambda>_. None) (\<lambda>_. None) exact_mux demo_ext demo_getenv demo_tasks demo_dirty = Some (Inr (), t)"
    and gone: "lookup_object (db t) (1, ''.trash/old'') = None"
  from tasks_keep_keys [OF run demo_dirty_wf demo_dirty_stats_wf] show ?thesis using run gone by blast
qed

text \<open>
  C13: The worker keeps to its tables. Whatever the tasks are and however they end, the columns of the
  buckets that the program reads, the grants, the users and the settings are as they were, the audit log has only grown at its end, version
  rows have only been removed, and of the uploads only the status and the completion time have changed.
\<close>

theorem tasks_leave_alone:
  assumes "worker_main parse_uri pg_New pick_pattern x os_Getenv tasks s = Some (r, t)"
  shows "map Bucket.truncate (buckets (db t)) = map Bucket.truncate (buckets (db s)) \<and>
    account_bucket_grants (db t) = account_bucket_grants (db s) \<and> tenant_users (db t) = tenant_users (db s) \<and>
    platform_settings (db t) = platform_settings (db s) \<and> prefix (audit_logs (db s)) (audit_logs (db t)) \<and>
    subseq (file_versions (db t)) (file_versions (db s)) \<and>
    map (\<lambda>u. u\<lparr>u_status := [], u_completed_at := None\<rparr>) (upload_tasks (db t)) =
      map (\<lambda>u. u\<lparr>u_status := [], u_completed_at := None\<rparr>) (upload_tasks (db s))"
  using alone.worker_respects [OF assms] by (simp add: leaves_alone_def)

theorem tasks_leave_alone_witness:
  "\<exists>t. worker_main (\<lambda>_. None) (\<lambda>_. None) exact_mux demo_ext demo_getenv demo_tasks demo_dirty = Some (Inr (), t) \<and>
     lookup_object (db t) (1, ''.trash/old'') = None \<and> platform_settings (db t) = demo_policies"
proof (rule demo_worker_run)
  fix t :: "mem sys"
  assume run: "worker_main (\<lambda>_. None) (\<lambda>_. None) exact_mux demo_ext demo_getenv demo_tasks demo_dirty = Some (Inr (), t)"
    and gone: "lookup_object (db t) (1, ''.trash/old'') = None"
  from tasks_leave_alone [OF run] have "platform_settings (db t) = demo_policies" by (simp add: demo_dirty_def)
  then show ?thesis using run gone by blast
qed

end
