(* ===== verification/WorkerRaces.thy ===== *)
theory WorkerRaces
  imports WorkerTasks
begin

text \<open>
  A worker runs several tasks at once (\<^verbatim>\<open>AsynqConcurrency\<close>). Here the tasks of the two kinds that write the records
  of the same objects meet: an inventory (\<open>scanBucket\<close>) and a batch move.
\<close>

text \<open>A scan during which somebody else acts, between its last page and the purge.\<close>

definition scan_during :: "('e, unit) io \<Rightarrow> 'e ext \<Rightarrow> Client \<Rightarrow> Bucket \<Rightarrow> ('e, unit) io" where
  "scan_during other x s3 b =
     bind (time_Now x) (\<lambda>started.
     bind (scan_pages x s3 b started []) (\<lambda>_.
     bind other (\<lambda>_.
     bind (Objects_PurgeUnseen x (ID b) started) (\<lambda>_.
     bind (time_Now x) (\<lambda>now.
     Buckets_MarkInventoried x (ID b) now)))))"

lemma scan_during_nobody: "scan_during (ret ()) x s3 b = scanBucket x s3 b"
  unfolding scan_during_def scanBucket_def bind_ret by (rule refl)

lemma scan_end_view:
  assumes "s3_contract x cfg decode view"
  shows "io_rel (same_view view) (Objects_PurgeUnseen x bid T)"
    and "io_rel (same_view view) (bind (time_Now x) (\<lambda>now. Buckets_MarkInventoried x bid now))"
proof -
  have "view (snd (clock x e)) = view e" for e using assms by (simp add: s3_contract_def quiet_contract_def)
  then have "io_rel (same_view view) (time_Now x)"
    by (auto simp: io_rel_def time_Now_def same_view_def split: prod.splits) (metis snd_conv)
  then show "io_rel (same_view view) (bind (time_Now x) (\<lambda>now. Buckets_MarkInventoried x bid now))"
    unfolding Buckets_MarkInventoried_def by (intro sameview.respects_rules sql_exec_view [OF assms])
  show "io_rel (same_view view) (Objects_PurgeUnseen x bid T)"
    unfolding Objects_PurgeUnseen_def by (intro sameview.respects_rules sql_exec_view [OF assms])
qed

text \<open>
  C18: A batch stamps the records of the objects it moves with the time the batch started. A scan that starts
  later, and has listed the bucket when the object is moved, drops the record of the moved object,
  which is in the storage; a scan that started no later than the batch keeps it.
\<close>

theorem scan_forgets_moved:
  assumes "s3_contract x (c_s3 c) decode view" and "plain_source decode (BucketName b) src" and "src \<noteq> dest"
    and "db_wf (db s)" and "clock x (env s) = (T, e)" and "scan_during (ApplyMove x c b uid src dest now) x c b s = Some (Inr (), t)"
  shows "view (env t) (BucketName b) dest \<noteq> None \<and> (lookup_object (db t) (ID b, dest) = None \<longleftrightarrow> now < T)"
proof -
  let ?mark = "bind (time_Now x) (\<lambda>now. Buckets_MarkInventoried x (ID b) now)"
  have "time_Now x s = Some (Inr T, s\<lparr>env := e\<rparr>)" by (simp add: time_Now_def assms(5))
  with assms(6) have "bind (scan_pages x c b T []) (\<lambda>_. bind (ApplyMove x c b uid src dest now) (\<lambda>_.
      bind (Objects_PurgeUnseen x (ID b) T) (\<lambda>_. ?mark))) (s\<lparr>env := e\<rparr>) = Some (Inr (), t)"
    by (simp add: scan_during_def bind_apply [of "time_Now x"])
  then obtain s1 where scan: "scan_pages x c b T [] (s\<lparr>env := e\<rparr>) = Some (Inr (), s1)"
    and rest: "bind (ApplyMove x c b uid src dest now) (\<lambda>_. bind (Objects_PurgeUnseen x (ID b) T) (\<lambda>_. ?mark)) s1 = Some (Inr (), t)"
    by (rule bind_Inr_E) simp
  from rest obtain s2 where move: "ApplyMove x c b uid src dest now s1 = Some (Inr (), s2)"
    and rest: "bind (Objects_PurgeUnseen x (ID b) T) (\<lambda>_. ?mark) s2 = Some (Inr (), t)"
    by (rule bind_Inr_E) simp
  from rest obtain s3 where purge: "Objects_PurgeUnseen x (ID b) T s2 = Some (Inr (), s3)" and mark: "?mark s3 = Some (Inr (), t)"
    by (rule bind_Inr_E) simp
  have wf: "db_wf (db s1)" using io_relD [OF keys.respects_scan_pages scan] assms(4) by (simp add: on_db_def keeps_keys_def)
  note facts = relocation_keeps_content [OF ApplyMove_stages(1) [OF assms(1,2) move]]
  have "view (env t) = view (env s2)"
    using io_relD [OF scan_end_view(1) [OF assms(1)] purge] io_relD [OF scan_end_view(2) [OF assms(1)] mark] by (simp add: same_view_def)
  then have there: "view (env t) (BucketName b) dest \<noteq> None" using facts(3) assms(3) by simp
  from facts(4) obtain sz etag ct where moved: "db s2 = move_effect (ID b) (BucketName b) src dest sz etag ct uid now (db s1)" by blast
  have row: "\<exists>row. lookup_object (db s2) (ID b, dest) = Some row \<and> o_last_seen_at row = Some now"
    unfolding moved lookup_move_effect [OF wf] by (auto simp: moved_row_def split: option.split)
  have "db_wf (db s2)" using db_wf_move_effect [OF wf] moved by simp
  moreover have "db s3 = sql_purge_unseen (ID b) T (db s2)" using PurgeUnseen_result [OF purge] by auto
  ultimately have "lookup_object (db s3) (ID b, dest) = None \<longleftrightarrow> now < T"
    using row by (auto simp: lookup_purge_unseen split: if_splits)
  then show ?thesis using there mark_lookup [OF mark] by simp
qed

theorem scan_forgets_moved_witness:
  "\<exists>t. scan_during (ApplyMove demo_ext mem_client demo_bucket 5 ''docs/a'' ''docs/c'' (39 * Day)) demo_ext mem_client demo_bucket demo_sys = Some (Inr (), t) \<and>
     mem_view (env t) ''media'' ''docs/c'' \<noteq> None \<and> lookup_object (db t) (1, ''docs/c'') = None"
proof -
  let ?run = "scan_during (ApplyMove demo_ext mem_client demo_bucket 5 ''docs/a'' ''docs/c'' (39 * Day)) demo_ext mem_client demo_bucket demo_sys"
  have "map_option fst ?run = Some (Inr ())" by code_simp
  then obtain t where run: "?run = Some (Inr (), t)" by (rule run_obtain)
  have "plain_source (\<lambda>s. s) (BucketName demo_bucket) ''docs/a''" "db_wf (db demo_sys)"
    by (simp_all add: plain_source_def demo_bucket_def demo_sys_def demo_db_wf)
  moreover have "clock demo_ext (env demo_sys) = (40 * Day, env demo_sys)" by (simp add: mem_ext_def demo_sys_def)
  ultimately have "mem_view (env t) ''media'' ''docs/c'' \<noteq> None \<and> (lookup_object (db t) (1, ''docs/c'') = None \<longleftrightarrow> 39 * Day < 40 * Day)"
    using scan_forgets_moved [OF mem_s3_contract _ _ _ _ run] by (simp add: demo_bucket_def)
  then show ?thesis using run by (simp add: Day_def Hour_def Minute_def Second_def)
qed

end
