(* ===== verification/BucketOps.thy ===== *)
theory BucketOps
  imports Service Json
begin

text \<open>
  The rest of \<^verbatim>\<open>internal/storage/client.go\<close>, and \<^verbatim>\<open>cdn.go\<close>: buckets, uploads, presigned URLs, bucket
  policies and CORS rules. The calls of the SDK are the parameters \<open>'e s3_api\<close>; the text of JSON
  documents (\<^verbatim>\<open>encoding/json\<close>) and of URLs (\<^verbatim>\<open>net/url\<close>) is a parameter too, so that the model has
  what the program does with the documents and the URLs. A slice is \<open>None\<close> where it is \<^verbatim>\<open>nil\<close>.
\<close>

section \<open>Library calls\<close>

text \<open>
  A reader: the bytes it yields, how it ends (\<open>None\<close> is \<^verbatim>\<open>io.EOF\<close>), and whether the end is reported
  with the last bytes or by a read of its own. \<open>LimitReader\<close> and \<open>ReadAll\<close> are those of \<^verbatim>\<open>io\<close>.
\<close>

record reader =
  rd_bytes :: string
  rd_error :: "ext_error option"
  rd_joined :: bool

definition LimitReader :: "reader \<Rightarrow> int \<Rightarrow> reader" where
  "LimitReader r n =
     (if int (length (rd_bytes r)) < n \<or> int (length (rd_bytes r)) = n \<and> rd_joined r then r
      else \<lparr>rd_bytes = take (nat n) (rd_bytes r), rd_error = None, rd_joined = False\<rparr>)"

definition ReadAll :: "reader \<Rightarrow> go_error + string" where
  "ReadAll r = (case rd_error r of None \<Rightarrow> Inr (rd_bytes r) | Some err \<Rightarrow> Inl (ErrExt err))"

text \<open>\<^verbatim>\<open>types.CompletedPart\<close> and \<^verbatim>\<open>types.CORSRule\<close>.\<close>

record s3_part =
  sp_ETag :: "string option"
  sp_PartNumber :: "int option"

record s3_cors =
  sc_ID :: "string option"
  sc_AllowedOrigins :: "string list option"
  sc_AllowedMethods :: "string list option"
  sc_AllowedHeaders :: "string list option"
  sc_ExposeHeaders :: "string list option"
  sc_MaxAgeSeconds :: "int option"

record 'e s3_api =
  s3_CreateBucket :: "sdk_config \<Rightarrow> 'e \<Rightarrow> string \<Rightarrow> (ext_error + unit) \<times> 'e"
  s3_DeleteBucket :: "sdk_config \<Rightarrow> 'e \<Rightarrow> string \<Rightarrow> (ext_error + unit) \<times> 'e"
  s3_PutObject :: "sdk_config \<Rightarrow> 'e \<Rightarrow> string \<Rightarrow> string \<Rightarrow> reader \<Rightarrow> string option \<Rightarrow> (ext_error + string option) \<times> 'e"
  s3_GetObject :: "sdk_config \<Rightarrow> 'e \<Rightarrow> string \<Rightarrow> string \<Rightarrow> (ext_error + reader \<times> string option) \<times> 'e"
  presign_PutObject :: "sdk_config \<Rightarrow> 'e \<Rightarrow> string \<Rightarrow> string \<Rightarrow> string option \<Rightarrow> duration \<Rightarrow> (ext_error + string) \<times> 'e"
  presign_GetObject :: "sdk_config \<Rightarrow> 'e \<Rightarrow> string \<Rightarrow> string \<Rightarrow> duration \<Rightarrow> (ext_error + string) \<times> 'e"
  presign_UploadPart :: "sdk_config \<Rightarrow> 'e \<Rightarrow> string \<Rightarrow> string \<Rightarrow> string \<Rightarrow> int \<Rightarrow> duration \<Rightarrow> (ext_error + string) \<times> 'e"
  s3_CreateMultipartUpload :: "sdk_config \<Rightarrow> 'e \<Rightarrow> string \<Rightarrow> string \<Rightarrow> string option \<Rightarrow> (ext_error + string option) \<times> 'e"
  s3_CompleteMultipartUpload :: "sdk_config \<Rightarrow> 'e \<Rightarrow> string \<Rightarrow> string \<Rightarrow> string \<Rightarrow> s3_part list \<Rightarrow> (ext_error + unit) \<times> 'e"
  s3_PutBucketVersioning :: "sdk_config \<Rightarrow> 'e \<Rightarrow> string \<Rightarrow> string \<Rightarrow> (ext_error + unit) \<times> 'e"
  s3_GetBucketPolicy :: "sdk_config \<Rightarrow> 'e \<Rightarrow> string \<Rightarrow> (ext_error + string option) \<times> 'e"
  s3_PutBucketPolicy :: "sdk_config \<Rightarrow> 'e \<Rightarrow> string \<Rightarrow> string \<Rightarrow> (ext_error + unit) \<times> 'e"
  s3_DeleteBucketPolicy :: "sdk_config \<Rightarrow> 'e \<Rightarrow> string \<Rightarrow> (ext_error + unit) \<times> 'e"
  s3_GetBucketCors :: "sdk_config \<Rightarrow> 'e \<Rightarrow> string \<Rightarrow> (ext_error + s3_cors list) \<times> 'e"
  s3_PutBucketCors :: "sdk_config \<Rightarrow> 'e \<Rightarrow> string \<Rightarrow> s3_cors list \<Rightarrow> (ext_error + unit) \<times> 'e"
  s3_DeleteBucketCors :: "sdk_config \<Rightarrow> 'e \<Rightarrow> string \<Rightarrow> (ext_error + unit) \<times> 'e"

text \<open>JSON texts and URLs. Of a URL the program sees the scheme and the host; the rest is kept as it is.\<close>

record json_lib =
  json_Marshal :: "json \<Rightarrow> ext_error + string"
  json_Unmarshal :: "string \<Rightarrow> ext_error + json"

record url =
  u_Scheme :: string
  u_Host :: string
  u_rest :: "string list"

record url_lib =
  url_Parse :: "string \<Rightarrow> url option"
  url_String :: "url \<Rightarrow> string"

section \<open>Buckets\<close>

definition EnsureBucket :: "'e s3_api \<Rightarrow> Client \<Rightarrow> string \<Rightarrow> ('e, unit) io" where
  "EnsureBucket a c name = attempt (ext_call (\<lambda>e. s3_CreateBucket a (c_s3 c) e name)) (\<lambda>r. case r of
     Inr _ \<Rightarrow> ret ()
   | Inl err \<Rightarrow> (case unwrap_all err of
       ErrExt (AwsError ty code msg) \<Rightarrow>
         if ty = BucketAlreadyExists \<or> ty = BucketAlreadyOwnedByYou then ret () else throw err
     | _ \<Rightarrow> throw err))"

definition DeleteBucket :: "'e s3_api \<Rightarrow> Client \<Rightarrow> string \<Rightarrow> ('e, unit) io" where
  "DeleteBucket a c name = attempt (ext_call (\<lambda>e. s3_DeleteBucket a (c_s3 c) e name)) (\<lambda>r. case r of
     Inr _ \<Rightarrow> ret ()
   | Inl err \<Rightarrow> if isNotFound err then throw ErrNotFound
       else if apiCode err = ''BucketNotEmpty'' then throw ErrNotEmpty
       else throw err)"

definition PutBucketVersioning :: "'e s3_api \<Rightarrow> Client \<Rightarrow> string \<Rightarrow> string \<Rightarrow> ('e, unit) io" where
  "PutBucketVersioning a c bucket status =
     (let st = (if status = ''Enabled'' then ''Enabled'' else ''Suspended'')
      in ext_call (\<lambda>e. s3_PutBucketVersioning a (c_s3 c) e bucket st))"

section \<open>Content\<close>

definition opt_type :: "string \<Rightarrow> string option" where
  "opt_type contentType = (if contentType \<noteq> [] then Some contentType else None)"

definition PutObject :: "'e s3_api \<Rightarrow> Client \<Rightarrow> string \<Rightarrow> string \<Rightarrow> reader \<Rightarrow> string \<Rightarrow> ('e, string option) io" where
  "PutObject a c bucket key body contentType =
     bind (ext_call (\<lambda>e. s3_PutObject a (c_s3 c) e bucket key body (opt_type contentType))) (\<lambda>etag. ret (stripETag etag))"

definition GetObject :: "'e s3_api \<Rightarrow> Client \<Rightarrow> string \<Rightarrow> string \<Rightarrow> int \<Rightarrow> ('e, string \<times> string option) io" where
  "GetObject a c bucket key maxBytes = attempt (ext_call (\<lambda>e. s3_GetObject a (c_s3 c) e bucket key)) (\<lambda>r. case r of
     Inl err \<Rightarrow> if isNotFound err then throw ErrNotFound else throw err
   | Inr (out, contentType) \<Rightarrow>
       (let r = (if maxBytes > 0 then LimitReader out maxBytes else out) in
        case ReadAll r of Inl err \<Rightarrow> throw err | Inr body \<Rightarrow> ret (body, contentType)))"

record CompletedPart =
  PartNumber :: int
  cp_ETag :: string

definition CreateMultipart :: "'e s3_api \<Rightarrow> Client \<Rightarrow> string \<Rightarrow> string \<Rightarrow> string \<Rightarrow> ('e, string) io" where
  "CreateMultipart a c bucket key contentType =
     bind (ext_call (\<lambda>e. s3_CreateMultipartUpload a (c_s3 c) e bucket key (opt_type contentType))) (\<lambda>out. case out of
       None \<Rightarrow> throw (ErrNew ''CreateMultipartUpload did not return UploadId'')
     | Some u \<Rightarrow> if u = [] then throw (ErrNew ''CreateMultipartUpload did not return UploadId'') else ret u)"

definition CompleteMultipart :: "'e s3_api \<Rightarrow> Client \<Rightarrow> string \<Rightarrow> string \<Rightarrow> string \<Rightarrow> CompletedPart list \<Rightarrow> ('e, unit) io" where
  "CompleteMultipart a c bucket key uploadID parts =
     (let completed = map (\<lambda>p. \<lparr>sp_ETag = Some (cp_ETag p), sp_PartNumber = Some (PartNumber p)\<rparr>) parts
      in ext_call (\<lambda>e. s3_CompleteMultipartUpload a (c_s3 c) e bucket key uploadID completed))"

section \<open>Presigned URLs\<close>

text \<open>
  \<^verbatim>\<open>int(d.Seconds())\<close>: whole seconds, towards zero. (\<^verbatim>\<open>Seconds\<close> is a \<^verbatim>\<open>float64\<close>, which is fine enough for
  this below \<open>2^24\<close> seconds, 194 days; the service accepts 7 days.)
\<close>

definition whole_seconds :: "duration \<Rightarrow> int" where
  "whole_seconds d = sgn d * (\<bar>d\<bar> div Second)"

definition SetCDN :: "string \<Rightarrow> string \<Rightarrow> Client \<Rightarrow> Client" where
  "SetCDN download preview c = c\<lparr>downloadCDNURL := download, previewCDNURL := preview\<rparr>"

definition rewriteCDN :: "url_lib \<Rightarrow> string \<Rightarrow> string \<Rightarrow> string" where
  "rewriteCDN l raw cdnBase =
     (let cdnBase = TrimRightChar (TrimSpace cdnBase) (CHR ''/'') in
      if raw = [] \<or> cdnBase = [] then raw
      else case url_Parse l raw of
        None \<Rightarrow> raw
      | Some u \<Rightarrow> if u_Host u = [] then raw
          else case url_Parse l cdnBase of
            None \<Rightarrow> raw
          | Some base \<Rightarrow> if u_Host base = [] then raw
              else url_String l (u\<lparr>u_Scheme := u_Scheme base, u_Host := u_Host base\<rparr>))"

definition client_DownloadTTL :: "Client \<Rightarrow> duration" where
  "client_DownloadTTL c = downloadTTL c"

definition UploadTTLSeconds :: "Client \<Rightarrow> int" where
  "UploadTTLSeconds c = whole_seconds (uploadTTL c)"

definition PresignPut :: "'e s3_api \<Rightarrow> Client \<Rightarrow> string \<Rightarrow> string \<Rightarrow> string \<Rightarrow> ('e, string \<times> int) io" where
  "PresignPut a c bucket key contentType =
     bind (ext_call (\<lambda>e. presign_PutObject a (c_s3 c) e bucket key (opt_type contentType) (uploadTTL c)))
       (\<lambda>url. ret (url, whole_seconds (uploadTTL c)))"

definition PresignGetFor :: "'e s3_api \<Rightarrow> url_lib \<Rightarrow> Client \<Rightarrow> string \<Rightarrow> string \<Rightarrow> duration \<Rightarrow> ('e, string \<times> int) io" where
  "PresignGetFor a l c bucket key ttl =
     (if ttl < Second then throw (ErrNew ''expired'')
      else bind (ext_call (\<lambda>e. presign_GetObject a (c_s3 c) e bucket key ttl))
        (\<lambda>url. ret (rewriteCDN l url (downloadCDNURL c), whole_seconds ttl)))"

definition PresignGet :: "'e s3_api \<Rightarrow> url_lib \<Rightarrow> Client \<Rightarrow> string \<Rightarrow> string \<Rightarrow> ('e, string \<times> int) io" where
  "PresignGet a l c bucket key = PresignGetFor a l c bucket key (downloadTTL c)"

definition PresignUploadPart :: "'e s3_api \<Rightarrow> Client \<Rightarrow> string \<Rightarrow> string \<Rightarrow> string \<Rightarrow> int \<Rightarrow> ('e, string) io" where
  "PresignUploadPart a c bucket key uploadID part =
     ext_call (\<lambda>e. presign_UploadPart a (c_s3 c) e bucket key uploadID part (uploadTTL c))"

section \<open>Policies\<close>

definition isNoPolicy :: "go_error \<Rightarrow> bool" where
  "isNoPolicy err \<longleftrightarrow> apiCode err = ''NoSuchBucketPolicy''"

text \<open>A policy is a \<^verbatim>\<open>map[string]any\<close>, \<open>None\<close> for \<^verbatim>\<open>nil\<close>.\<close>

definition GetBucketPolicy :: "'e s3_api \<Rightarrow> json_lib \<Rightarrow> Client \<Rightarrow> string \<Rightarrow> ('e, (string \<times> json) list option) io" where
  "GetBucketPolicy a jl c bucket = attempt (ext_call (\<lambda>e. s3_GetBucketPolicy a (c_s3 c) e bucket)) (\<lambda>r. case r of
     Inl err \<Rightarrow> if isNoPolicy err then ret None else throw err
   | Inr None \<Rightarrow> ret None
   | Inr (Some raw) \<Rightarrow>
       if raw = [] then ret None
       else (case json_Unmarshal jl raw of
         Inl err \<Rightarrow> throw (ErrExt err)
       | Inr doc \<Rightarrow> (case doc of
           JObj obj \<Rightarrow> ret (Some obj)
         | _ \<Rightarrow> throw (ErrNew ''Bucket policy is not a JSON object''))))"

definition PutBucketPolicy :: "'e s3_api \<Rightarrow> json_lib \<Rightarrow> Client \<Rightarrow> string \<Rightarrow> (string \<times> json) list option \<Rightarrow> ('e, unit) io" where
  "PutBucketPolicy a jl c bucket policy =
     (case json_Marshal jl (case policy of None \<Rightarrow> JNull | Some obj \<Rightarrow> JObj obj) of
        Inl err \<Rightarrow> throw (ErrExt err)
      | Inr raw \<Rightarrow> ext_call (\<lambda>e. s3_PutBucketPolicy a (c_s3 c) e bucket raw))"

definition DeleteBucketPolicy :: "'e s3_api \<Rightarrow> Client \<Rightarrow> string \<Rightarrow> ('e, unit) io" where
  "DeleteBucketPolicy a c bucket = attempt (ext_call (\<lambda>e. s3_DeleteBucketPolicy a (c_s3 c) e bucket)) (\<lambda>r. case r of
     Inl err \<Rightarrow> if isNoPolicy err then ret () else throw err
   | Inr _ \<Rightarrow> ret ())"

section \<open>CORS rules\<close>

record CORSRule =
  AllowedOrigins :: "string list option"
  AllowedMethods :: "string list option"
  AllowedHeaders :: "string list option"
  ExposeHeaders :: "string list option"
  MaxAgeSeconds :: "int option"

definition isNoCORS :: "go_error \<Rightarrow> bool" where
  "isNoCORS err = (let code = apiCode err in code = ''NoSuchCORSConfiguration'' \<or> code = ''NoSuchBucketCORSConfiguration'')"

text \<open>\<open>slice_len\<close> is \<^verbatim>\<open>len\<close>, \<open>append_nil s\<close> is \<^verbatim>\<open>append([]string(nil), s...)\<close>.\<close>

definition slice_len :: "'a list option \<Rightarrow> nat" where
  "slice_len s = (case s of None \<Rightarrow> 0 | Some vs \<Rightarrow> length vs)"

definition append_nil :: "'a list option \<Rightarrow> 'a list option" where
  "append_nil s = (if slice_len s > 0 then s else None)"

definition corsToS3 :: "CORSRule list \<Rightarrow> s3_cors list" where
  "corsToS3 rules = map (\<lambda>r. \<lparr>sc_ID = None, sc_AllowedOrigins = AllowedOrigins r, sc_AllowedMethods = AllowedMethods r,
     sc_AllowedHeaders = (if slice_len (AllowedHeaders r) > 0 then AllowedHeaders r else None),
     sc_ExposeHeaders = (if slice_len (ExposeHeaders r) > 0 then ExposeHeaders r else None),
     sc_MaxAgeSeconds = MaxAgeSeconds r\<rparr>) rules"

definition corsFromS3 :: "s3_cors list \<Rightarrow> CORSRule list" where
  "corsFromS3 rules = map (\<lambda>r. \<lparr>AllowedOrigins = append_nil (sc_AllowedOrigins r), AllowedMethods = append_nil (sc_AllowedMethods r),
     AllowedHeaders = append_nil (sc_AllowedHeaders r), ExposeHeaders = append_nil (sc_ExposeHeaders r),
     MaxAgeSeconds = sc_MaxAgeSeconds r\<rparr>) rules"

definition GetBucketCORS :: "'e s3_api \<Rightarrow> Client \<Rightarrow> string \<Rightarrow> ('e, CORSRule list option) io" where
  "GetBucketCORS a c bucket = attempt (ext_call (\<lambda>e. s3_GetBucketCors a (c_s3 c) e bucket)) (\<lambda>r. case r of
     Inl err \<Rightarrow> if isNoCORS err then ret None else throw err
   | Inr rules \<Rightarrow> ret (Some (corsFromS3 rules)))"

definition PutBucketCORS :: "'e s3_api \<Rightarrow> Client \<Rightarrow> string \<Rightarrow> CORSRule list \<Rightarrow> ('e, unit) io" where
  "PutBucketCORS a c bucket rules = ext_call (\<lambda>e. s3_PutBucketCors a (c_s3 c) e bucket (corsToS3 rules))"

definition DeleteBucketCORS :: "'e s3_api \<Rightarrow> Client \<Rightarrow> string \<Rightarrow> ('e, unit) io" where
  "DeleteBucketCORS a c bucket = attempt (ext_call (\<lambda>e. s3_DeleteBucketCors a (c_s3 c) e bucket)) (\<lambda>r. case r of
     Inl err \<Rightarrow> if isNoCORS err then ret () else throw err
   | Inr _ \<Rightarrow> ret ())"

section \<open>Facts\<close>

lemma LimitReader_bytes: "0 < n \<Longrightarrow> rd_bytes (LimitReader r n) = take (nat n) (rd_bytes r)"
  by (auto simp: LimitReader_def)

text \<open>What is read of an object is a first part of it, no longer than the limit, and all of it where there is
  no limit or the object is shorter.\<close>

lemma GetObject_result:
  assumes "s3_GetObject a (c_s3 c) (env s) b k = (Inr (out, ct), e)" and "GetObject a c b k n s = Some (Inr (body, ct'), t)"
  shows "ct' = ct \<and> db t = db s \<and> prefix body (rd_bytes out) \<and> (0 < n \<longrightarrow> int (length body) \<le> n) \<and>
    (n \<le> 0 \<or> int (length (rd_bytes out)) \<le> n \<longrightarrow> body = rd_bytes out)"
  using assms
  by (auto simp: GetObject_def attempt_def ext_call_def ret_apply throw_apply Let_def ReadAll_def LimitReader_bytes take_is_prefix
      split: if_splits option.splits)

text \<open>After a success of \<open>EnsureBucket\<close> the bucket exists, new or not.\<close>

lemma EnsureBucket_result:
  assumes "s3_CreateBucket a (c_s3 c) (env s) name = (r, e)" and "EnsureBucket a c name s = Some (q, t)"
  shows "t = s\<lparr>env := e\<rparr> \<and> (q = Inr () \<longleftrightarrow> (case r of Inr _ \<Rightarrow> True
    | Inl err \<Rightarrow> \<exists>ty code msg. err = AwsError ty code msg \<and> ty \<in> {BucketAlreadyExists, BucketAlreadyOwnedByYou}))"
  using assms
  by (auto simp: EnsureBucket_def attempt_def ext_call_def ret_apply throw_apply split: sum.splits ext_error.splits if_splits)

text \<open>A URL is valid for less than a second to the time it is signed for, and not signed for less.\<close>

lemma whole_seconds_bounds: "0 \<le> d \<Longrightarrow> whole_seconds d * Second \<le> d \<and> d < (whole_seconds d + 1) * Second"
proof -
  assume d: "0 \<le> d"
  then have "whole_seconds d = d div Second" by (cases "d = 0") (simp_all add: whole_seconds_def)
  moreover have "d div Second * Second + d mod Second = d" by simp
  moreover have "0 \<le> d mod Second" "d mod Second < Second" by (simp_all add: Second_def)
  ultimately show ?thesis by (simp only: distrib_right) linarith
qed

lemma PresignGetFor_result:
  assumes "PresignGetFor a l c b k ttl s = Some (r, t)"
  shows "(ttl < Second \<longrightarrow> r = Inl (ErrNew ''expired'') \<and> t = s) \<and> (\<forall>u n. r = Inr (u, n) \<longrightarrow>
    1 \<le> n \<and> n * Second \<le> ttl \<and> (\<exists>raw e. presign_GetObject a (c_s3 c) (env s) b k ttl = (Inr raw, e) \<and> u = rewriteCDN l raw (downloadCDNURL c)))"
proof -
  have "1 \<le> whole_seconds ttl \<and> whole_seconds ttl * Second \<le> ttl" if "Second \<le> ttl"
  proof -
    have "0 < Second" by (simp add: Second_def)
    with that have "0 \<le> ttl" by simp
    moreover from this have "Second < (whole_seconds ttl + 1) * Second" using whole_seconds_bounds that by fastforce
    ultimately show ?thesis using whole_seconds_bounds [of ttl] \<open>0 < Second\<close> by (simp add: mult_less_cancel_right)
  qed
  then show ?thesis
    using assms by (auto simp: PresignGetFor_def bind_apply ext_call_def ret_apply throw_apply split: if_splits prod.splits sum.splits)
qed

lemma rewriteCDN_unset: "rewriteCDN l raw [] = raw"
  by (simp add: rewriteCDN_def TrimRightChar_def)

section \<open>What is put is what is read\<close>

text \<open>
  The documented behaviour of the calls for CORS rules and policies while nobody else writes:
  \<open>cors e b\<close> and \<open>policy e b\<close> are the rules and the text that the service keeps for the bucket.
\<close>

definition cors_contract :: "'e s3_api \<Rightarrow> sdk_config \<Rightarrow> ('e \<Rightarrow> string \<Rightarrow> s3_cors list option) \<Rightarrow> bool" where
  "cors_contract a cfg cors \<longleftrightarrow>
     (\<forall>e b rules e'. s3_PutBucketCors a cfg e b rules = (Inr (), e') \<longrightarrow> cors e' = (cors e)(b := Some rules)) \<and>
     (\<forall>e b r e'. s3_GetBucketCors a cfg e b = (r, e') \<longrightarrow> cors e' = cors e \<and> (case r of
        Inr rules \<Rightarrow> cors e b = Some rules | Inl err \<Rightarrow> isNoCORS (ErrExt err) \<longrightarrow> cors e b = None)) \<and>
     (\<forall>e b r e'. s3_DeleteBucketCors a cfg e b = (r, e') \<longrightarrow> (case r of
        Inr _ \<Rightarrow> cors e' = (cors e)(b := None) | Inl err \<Rightarrow> isNoCORS (ErrExt err) \<longrightarrow> cors e b = None \<and> cors e' = cors e))"

text \<open>
  The documents that \<^verbatim>\<open>encoding/json\<close> reads back into a \<^verbatim>\<open>map[string]any\<close> as they were: maps have each key once (listed
  in the order in which they are written), strings are UTF-8, and numbers are integers that a \<^verbatim>\<open>float64\<close> holds.
\<close>

fun go_document :: "json \<Rightarrow> bool" where
  "go_document (JInt n) = (\<bar>n\<bar> \<le> 2 ^ 53)"
| "go_document (JReal txt) = False"
| "go_document (JStr s) = ValidString s"
| "go_document (JArr vs) = list_all go_document vs"
| "go_document (JObj fs) = (sorted_wrt (<) (map fst fs) \<and> list_all (\<lambda>f. ValidString (fst f) \<and> go_document (snd f)) fs)"
| "go_document _ = True"

definition policy_contract :: "'e s3_api \<Rightarrow> json_lib \<Rightarrow> sdk_config \<Rightarrow> ('e \<Rightarrow> string \<Rightarrow> string option) \<Rightarrow> bool" where
  "policy_contract a jl cfg policy \<longleftrightarrow>
     (\<forall>j raw. go_document j \<longrightarrow> json_Marshal jl j = Inr raw \<longrightarrow> raw \<noteq> [] \<and> json_Unmarshal jl raw = Inr j) \<and>
     (\<forall>e b raw e'. s3_PutBucketPolicy a cfg e b raw = (Inr (), e') \<longrightarrow> policy e' = (policy e)(b := Some raw)) \<and>
     (\<forall>e b r e'. s3_GetBucketPolicy a cfg e b = (r, e') \<longrightarrow> policy e' = policy e \<and> (case r of
        Inr raw \<Rightarrow> policy e b = raw | Inl err \<Rightarrow> isNoPolicy (ErrExt err) \<longrightarrow> policy e b = None)) \<and>
     (\<forall>e b r e'. s3_DeleteBucketPolicy a cfg e b = (r, e') \<longrightarrow> (case r of
        Inr _ \<Rightarrow> policy e' = (policy e)(b := None) | Inl err \<Rightarrow> isNoPolicy (ErrExt err) \<longrightarrow> policy e b = None \<and> policy e' = policy e))"

text \<open>The rules as they come back: an empty slice is \<^verbatim>\<open>nil\<close>.\<close>

definition nil_slices :: "CORSRule \<Rightarrow> CORSRule" where
  "nil_slices r = \<lparr>AllowedOrigins = append_nil (AllowedOrigins r), AllowedMethods = append_nil (AllowedMethods r),
     AllowedHeaders = append_nil (AllowedHeaders r), ExposeHeaders = append_nil (ExposeHeaders r), MaxAgeSeconds = MaxAgeSeconds r\<rparr>"

lemma append_nil_idem [simp]: "append_nil (append_nil s) = append_nil s" "append_nil None = None"
  by (simp_all add: append_nil_def slice_len_def)

lemma corsFromS3_corsToS3: "corsFromS3 (corsToS3 rules) = map nil_slices rules"
  by (simp add: corsFromS3_def corsToS3_def nil_slices_def comp_def append_nil_def [symmetric])

lemma PutBucketCORS_result:
  "cors_contract a (c_s3 c) cors \<Longrightarrow> PutBucketCORS a c b rules s = Some (Inr (), t) \<Longrightarrow> cors (env t) b = Some (corsToS3 rules)"
  by (auto simp: cors_contract_def PutBucketCORS_def ext_call_def split: prod.splits sum.splits)

lemma GetBucketCORS_result:
  assumes "cors_contract a (c_s3 c) cors" and "GetBucketCORS a c b s = Some (Inr got, t)"
  shows "got = map_option corsFromS3 (cors (env s) b) \<and> cors (env t) = cors (env s)"
proof -
  obtain r e where get: "s3_GetBucketCors a (c_s3 c) (env s) b = (r, e)" by fastforce
  then have "cors e = cors (env s)" "case r of Inr rules \<Rightarrow> cors (env s) b = Some rules | Inl err \<Rightarrow> isNoCORS (ErrExt err) \<longrightarrow> cors (env s) b = None"
    using assms(1) by (auto simp: cors_contract_def)
  then show ?thesis
    using assms(2) get by (auto simp: GetBucketCORS_def attempt_def ext_call_def ret_apply throw_apply split: sum.splits if_splits)
qed

lemma DeleteBucketCORS_result:
  assumes "cors_contract a (c_s3 c) cors" and "DeleteBucketCORS a c b s = Some (Inr (), t)"
  shows "cors (env t) b = None"
proof -
  obtain r e where del: "s3_DeleteBucketCors a (c_s3 c) (env s) b = (r, e)" by fastforce
  then have "case r of Inr _ \<Rightarrow> cors e = (cors (env s))(b := None) | Inl err \<Rightarrow> isNoCORS (ErrExt err) \<longrightarrow> cors (env s) b = None \<and> cors e = cors (env s)"
    using assms(1) by (auto simp: cors_contract_def)
  then show ?thesis
    using assms(2) del by (auto simp: DeleteBucketCORS_def attempt_def ext_call_def ret_apply throw_apply split: sum.splits if_splits)
qed

lemma PutBucketPolicy_result:
  assumes "policy_contract a jl (c_s3 c) policy" and "PutBucketPolicy a jl c b (Some obj) s = Some (Inr (), t)" and "go_document (JObj obj)"
  obtains raw where "policy (env t) b = Some raw" "raw \<noteq> []" "json_Unmarshal jl raw = Inr (JObj obj)"
proof (cases "json_Marshal jl (JObj obj)")
  case (Inl err)
  then show ?thesis using assms(2) by (simp add: PutBucketPolicy_def throw_apply)
next
  case (Inr raw)
  then have "raw \<noteq> []" "json_Unmarshal jl raw = Inr (JObj obj)" using assms(1,3) unfolding policy_contract_def by blast+
  moreover have "policy (env t) b = Some raw"
    using assms(1,2) Inr by (auto simp: policy_contract_def PutBucketPolicy_def ext_call_def split: prod.splits sum.splits)
  ultimately show thesis using that by blast
qed

lemma GetBucketPolicy_result:
  assumes "policy_contract a jl (c_s3 c) policy" and "GetBucketPolicy a jl c b s = Some (Inr got, t)"
  shows "case policy (env s) b of None \<Rightarrow> got = None
    | Some raw \<Rightarrow> if raw = [] then got = None else \<exists>obj. json_Unmarshal jl raw = Inr (JObj obj) \<and> got = Some obj"
proof -
  obtain r e where get: "s3_GetBucketPolicy a (c_s3 c) (env s) b = (r, e)" by fastforce
  then have "case r of Inr raw \<Rightarrow> policy (env s) b = raw | Inl err \<Rightarrow> isNoPolicy (ErrExt err) \<longrightarrow> policy (env s) b = None"
    using assms(1) by (auto simp: policy_contract_def)
  then show ?thesis
    using assms(2) get
    by (auto simp: GetBucketPolicy_def attempt_def ext_call_def ret_apply throw_apply
        split: sum.splits if_splits option.splits json.splits)
qed

lemma DeleteBucketPolicy_result:
  assumes "policy_contract a jl (c_s3 c) policy" and "DeleteBucketPolicy a c b s = Some (Inr (), t)"
  shows "policy (env t) b = None"
proof -
  obtain r e where del: "s3_DeleteBucketPolicy a (c_s3 c) (env s) b = (r, e)" by fastforce
  then have "case r of Inr _ \<Rightarrow> policy e = (policy (env s))(b := None)
      | Inl err \<Rightarrow> isNoPolicy (ErrExt err) \<longrightarrow> policy (env s) b = None \<and> policy e = policy (env s)"
    using assms(1) by (auto simp: policy_contract_def)
  then show ?thesis
    using assms(2) del by (auto simp: DeleteBucketPolicy_def attempt_def ext_call_def ret_apply throw_apply split: sum.splits if_splits)
qed

text \<open>
  C38: What is configured for a bucket is what is read back, and nothing after it is deleted: the CORS rules
  with their empty lists as \<^verbatim>\<open>nil\<close>, the policy document as it was. (The service keeps what it accepts, and
  the text of a document that JSON can hold exactly reads back as the document.)
\<close>

theorem bucket_configuration_roundtrip:
  assumes "cors_contract a (c_s3 c) cors" and "policy_contract a jl (c_s3 c) policy" and "go_document (JObj obj)"
  shows "(PutBucketCORS a c b rules s = Some (Inr (), t) \<longrightarrow> GetBucketCORS a c b t = Some (Inr got, u) \<longrightarrow> got = Some (map nil_slices rules)) \<and>
    (DeleteBucketCORS a c b s = Some (Inr (), t) \<longrightarrow> GetBucketCORS a c b t = Some (Inr got, u) \<longrightarrow> got = None) \<and>
    (PutBucketPolicy a jl c b (Some obj) s = Some (Inr (), t) \<longrightarrow> GetBucketPolicy a jl c b t = Some (Inr doc, u) \<longrightarrow> doc = Some obj) \<and>
    (DeleteBucketPolicy a c b s = Some (Inr (), t) \<longrightarrow> GetBucketPolicy a jl c b t = Some (Inr doc, u) \<longrightarrow> doc = None)"
proof (intro conjI impI)
  note get = GetBucketCORS_result [OF assms(1)] GetBucketPolicy_result [OF assms(2)]
  show "got = Some (map nil_slices rules)" if "PutBucketCORS a c b rules s = Some (Inr (), t)" "GetBucketCORS a c b t = Some (Inr got, u)"
    using get(1) [OF that(2)] PutBucketCORS_result [OF assms(1) that(1)] by (simp add: corsFromS3_corsToS3)
  show "got = None" if "DeleteBucketCORS a c b s = Some (Inr (), t)" "GetBucketCORS a c b t = Some (Inr got, u)"
    using get(1) [OF that(2)] DeleteBucketCORS_result [OF assms(1) that(1)] by simp
  show "doc = Some obj" if put: "PutBucketPolicy a jl c b (Some obj) s = Some (Inr (), t)" and "GetBucketPolicy a jl c b t = Some (Inr doc, u)"
    using PutBucketPolicy_result [OF assms(2) put assms(3)] get(2) [OF that(2)] by fastforce
  show "doc = None" if "DeleteBucketPolicy a c b s = Some (Inr (), t)" "GetBucketPolicy a jl c b t = Some (Inr doc, u)"
    using get(2) [OF that(2)] DeleteBucketPolicy_result [OF assms(2) that(1)] by simp
qed

text \<open>A service that keeps the rules and the policy text per bucket, and a JSON library for one document.\<close>

record configured =
  cf_cors :: "string \<Rightarrow> s3_cors list option"
  cf_policy :: "string \<Rightarrow> string option"

definition missing :: "string \<Rightarrow> ext_error" where
  "missing code = AwsError OtherAPIError code ''not configured''"

definition config_api :: "configured s3_api" where
  "config_api = \<lparr>s3_CreateBucket = (\<lambda>_ e _. (Inr (), e)), s3_DeleteBucket = (\<lambda>_ e _. (Inr (), e)),
     s3_PutObject = (\<lambda>_ e _ _ _ _. (Inr None, e)), s3_GetObject = (\<lambda>_ e _ _. (Inl (missing ''NoSuchKey''), e)),
     presign_PutObject = (\<lambda>_ e _ _ _ _. (Inr [], e)), presign_GetObject = (\<lambda>_ e _ _ _. (Inr [], e)),
     presign_UploadPart = (\<lambda>_ e _ _ _ _ _. (Inr [], e)), s3_CreateMultipartUpload = (\<lambda>_ e _ _ _. (Inr None, e)),
     s3_CompleteMultipartUpload = (\<lambda>_ e _ _ _ _. (Inr (), e)), s3_PutBucketVersioning = (\<lambda>_ e _ _. (Inr (), e)),
     s3_GetBucketPolicy = (\<lambda>_ e b. (case cf_policy e b of None \<Rightarrow> Inl (missing ''NoSuchBucketPolicy'') | Some raw \<Rightarrow> Inr (Some raw), e)),
     s3_PutBucketPolicy = (\<lambda>_ e b raw. (Inr (), e\<lparr>cf_policy := (cf_policy e)(b := Some raw)\<rparr>)),
     s3_DeleteBucketPolicy = (\<lambda>_ e b. (Inr (), e\<lparr>cf_policy := (cf_policy e)(b := None)\<rparr>)),
     s3_GetBucketCors = (\<lambda>_ e b. (case cf_cors e b of None \<Rightarrow> Inl (missing ''NoSuchCORSConfiguration'') | Some rules \<Rightarrow> Inr rules, e)),
     s3_PutBucketCors = (\<lambda>_ e b rules. (Inr (), e\<lparr>cf_cors := (cf_cors e)(b := Some rules)\<rparr>)),
     s3_DeleteBucketCors = (\<lambda>_ e b. (Inr (), e\<lparr>cf_cors := (cf_cors e)(b := None)\<rparr>))\<rparr>"

definition demo_policy :: "(string \<times> json) list" where
  "demo_policy = [(''Statement'', JArr []), (''Version'', JStr ''2012-10-17'')]"

definition one_document :: json_lib where
  "one_document = \<lparr>json_Marshal = (\<lambda>j. if j = JObj demo_policy then Inr ''{...}'' else Inl (NetError ''unsupported'')),
     json_Unmarshal = (\<lambda>raw. if raw = ''{...}'' then Inr (JObj demo_policy) else Inl (NetError ''syntax''))\<rparr>"

definition demo_rule :: CORSRule where
  "demo_rule = \<lparr>AllowedOrigins = Some [''*''], AllowedMethods = Some [''GET''], AllowedHeaders = Some [], ExposeHeaders = None,
     MaxAgeSeconds = Some 3600\<rparr>"

lemma config_contracts: "cors_contract config_api cfg cf_cors" "policy_contract config_api one_document cfg cf_policy"
  by (auto simp: cors_contract_def policy_contract_def config_api_def one_document_def missing_def split: option.splits if_splits)

theorem bucket_configuration_roundtrip_witness:
  "\<exists>t u v w. PutBucketCORS config_api mem_client ''media'' [demo_rule] \<lparr>db = empty_db, env = \<lparr>cf_cors = (\<lambda>_. None), cf_policy = (\<lambda>_. None)\<rparr>\<rparr> = Some (Inr (), t) \<and>
     GetBucketCORS config_api mem_client ''media'' t = Some (Inr (Some [demo_rule\<lparr>AllowedHeaders := None\<rparr>]), u) \<and>
     PutBucketPolicy config_api one_document mem_client ''media'' (Some demo_policy) u = Some (Inr (), v) \<and>
     GetBucketPolicy config_api one_document mem_client ''media'' v = Some (Inr (Some demo_policy), w)"
proof -
  let ?s = "\<lparr>db = empty_db, env = \<lparr>cf_cors = (\<lambda>_. None), cf_policy = (\<lambda>_. None)\<rparr>\<rparr> :: configured sys"
  obtain t where put: "PutBucketCORS config_api mem_client ''media'' [demo_rule] ?s = Some (Inr (), t)"
    and kept: "cf_cors (env t) ''media'' = Some (corsToS3 [demo_rule])"
    by (simp add: PutBucketCORS_def ext_call_def config_api_def)
  obtain got u where get: "GetBucketCORS config_api mem_client ''media'' t = Some (Inr got, u)"
    using kept by (simp add: GetBucketCORS_def attempt_def ext_call_def config_api_def ret_apply)
  obtain v where put': "PutBucketPolicy config_api one_document mem_client ''media'' (Some demo_policy) u = Some (Inr (), v)"
    and kept': "cf_policy (env v) ''media'' = Some ''{...}''"
    by (simp add: PutBucketPolicy_def ext_call_def config_api_def one_document_def)
  obtain doc w where get': "GetBucketPolicy config_api one_document mem_client ''media'' v = Some (Inr doc, w)"
    using kept' by (simp add: GetBucketPolicy_def attempt_def ext_call_def config_api_def one_document_def ret_apply)
  have "go_document (JObj demo_policy)" by code_simp
  note same = bucket_configuration_roundtrip [OF config_contracts this]
  have "got = Some (map nil_slices [demo_rule])" "doc = Some demo_policy" using same put get put' get' by blast+
  then show ?thesis using put get put' get' by (auto simp: nil_slices_def append_nil_def slice_len_def demo_rule_def)
qed

end
