(* ===== verification/Spec2Isabelle.thy ===== *)
theory Spec2Isabelle
  imports WorkerRaces BucketOps
begin

text \<open>
  The tenant background worker of OssPilot: two Go programs that keep the objects of a tenant's
  buckets (S3 compatible storage) and the tenant database (PostgreSQL) in step. The \<^verbatim>\<open>scheduler\<close>
  (\<^verbatim>\<open>cmd/scheduler\<close>, several at once) puts tasks into a queue on Redis, one per bucket, kind of job and
  time slot; the \<^verbatim>\<open>worker\<close> (\<^verbatim>\<open>cmd/worker\<close>) runs them, and the batch tasks that the API of the tenant
  enqueues. This development models all of the code that decides anything, and proves what keeps the
  users' data safe.

  \<^bold>\<open>How a program is modelled.\<close> A computation is a function from the state, the database and an
  environment of unknown type, to \<open>None\<close> (it does not end) or a result with the state after it; the result
  is an error or a value (\<open>World\<close>). Every call of a library (S3 SDK, pgx, go-redis, asynq, the clock) is a
  field of a record that the definitions take as an argument, so that it may answer in any way, errors
  after the work was done included. SQL texts are functions on a database of one list of rows
  per table (\<open>TenantDB\<close>); a statement is refused, executed, or executed with its reply lost, and a transaction
  is rolled back on an error. Strings are lists of bytes, \<^verbatim>\<open>int64\<close> counters wrap around, times are
  integers in nanoseconds. What the code relies on of a library is a named hypothesis of the
  properties that need it, listed below.

  \<^bold>\<open>The theories and the code\<close> (below \<^verbatim>\<open>src/\<close>; a theory imports those of the components it calls):
  \<^item> \<open>Prelude\<close>, \<open>GoStrings\<close>, \<open>Calendar\<close>, \<open>GoError\<close>, \<open>Json\<close>: tables and their laws (locale \<open>keyed_store\<close>, which every
    table keyed by the program interprets), the functions of Go's library that the program calls
    (\<^verbatim>\<open>strings\<close>, \<^verbatim>\<open>strconv\<close>, \<^verbatim>\<open>sort\<close>, \<^verbatim>\<open>time\<close>, \<^verbatim>\<open>errors\<close>, \<^verbatim>\<open>encoding/json\<close> on documents).
  \<^item> \<open>TenantDB\<close>, \<open>World\<close>: the database, \<^verbatim>\<open>LIKE\<close>, effects, and relations between states that computations respect (locale \<open>io_preorder\<close>).
  \<^item> \<open>Storage\<close>, \<open>BucketOps\<close>: \<^verbatim>\<open>internal/storage\<close>. \<open>Service\<close>: the contract of the storage, and an
    in-memory service that fulfils it, on which the witnesses run.
  \<^item> \<open>ObjectKey\<close>, \<open>ObjectList\<close>, \<open>ObjectStore\<close>, \<open>ObjectApply\<close>, \<open>DeleteKeys\<close>: \<^verbatim>\<open>internal/objects\<close>.
  \<^item> \<open>Platform\<close>: \<^verbatim>\<open>internal/platform\<close>, \<^verbatim>\<open>internal/config\<close>, \<^verbatim>\<open>internal/logx\<close>. \<open>AuditLog\<close>: \<^verbatim>\<open>internal/audit\<close>.
    \<open>BucketStore\<close>: \<^verbatim>\<open>internal/bucket\<close>. \<open>Versions\<close>: \<^verbatim>\<open>internal/versions\<close>. \<open>Uploads\<close>: \<^verbatim>\<open>internal/uploads\<close>.
  \<^item> \<open>Queue\<close>, \<open>Sched\<close>, \<open>SchedulerMain\<close>, \<open>Cluster\<close>: \<^verbatim>\<open>internal/queue\<close>, \<^verbatim>\<open>internal/sched\<close>, \<^verbatim>\<open>cmd/scheduler\<close>, and the
    interleaving of several schedulers as a step relation.
  \<^item> \<open>WorkerJobs\<close>, \<open>WorkerCleanup\<close>, \<open>WorkerRetention\<close>, \<open>WorkerInventory\<close>: \<^verbatim>\<open>internal/worker/jobs.go\<close>.
    \<open>WorkerBatch\<close>, \<open>WorkerMove\<close>, \<open>WorkerCopy\<close>: \<^verbatim>\<open>internal/worker/batch.go\<close>.
  \<^item> \<open>StatsCount\<close>, \<open>StatsAggregate\<close>, \<open>StatsExact\<close>: \<^verbatim>\<open>internal/stats\<close>.
  \<^item> \<open>WorkerMain\<close>: \<^verbatim>\<open>cmd/worker\<close>. \<open>WorkerTasks\<close>: what holds of every task. \<open>WorkerRaces\<close>: an inventory that meets a batch.

  Definitions have the names of the functions and types in the code, with the package in front where two
  packages use one name (\<open>Objects_Get\<close>, \<open>Buckets_List\<close>); \<open>sql_...\<close> is the effect of one SQL text.

  \<^bold>\<open>What is shown.\<close>
  \<^item> Content. Deleting to the trash, moving and copying, in batches too, never lose the content of an object nor
    overwrite one, wherever they stop and whatever others write meanwhile to other objects; \<open>ExpandDeleteKeys\<close>
    names exactly the objects below the given keys; a batch delete touches these only, in a bucket that the account may see, and
    deletes them all when nothing fails. The exceptions are theorems as
    well: a move onto the object's own key, and a key with a percent sign (\<open>self_move_destroys\<close>, \<open>percent_key_loses_content\<close>),
    and an object that appears at the destination between the check and the copy (\<open>move_race_overwrites\<close>).
  \<^item> Cleanup. The three sweeps (one locale, \<open>rubbish\<close>, interpreted for trash, versions and uploads) remove only what at the end of the run
    the policy calls expired, only in the bucket they were given, and from the database only what the
    storage has given up; without errors they remove all of it. The inventory drops the record of no
    object and ends with the records of the listing. It also restarts the retention of the trash (\<open>inventory_postpones_trash\<close>),
    and drops the record of an object that a batch which began before it moves under its eyes (\<open>scan_forgets_moved\<close>).
  \<^item> Scheduling. While no scheduler's clock is ahead of that of Redis by more than a bound (the code reads the clock of its own host), claims are made
    more than this bound before their slot ends, and the replies of the queue arrive, no task is accepted twice in a slot,
    however the schedulers interleave, crash and see different members; the code of a round takes the steps of that
    relation. Each bucket has one owner among the members of a common view. The two limits, a late claim and a claim that
    is left behind, are theorems. What a round enqueues the worker runs as the job it was meant to be.
  \<^item> Statistics. The one pass over the log equals counting for each row on its own; a run replaces all tables or none.
  \<^item> Every task. It ends, keeps keys unique, and leaves alone what is not the worker's (locale \<open>task_effects\<close>: a law for each of the ten
    statements that tasks execute gives it for all tasks and their sequences).
  \<^item> Data. Listing pages partition the folded listing; the escaped prefix matches as a prefix; payloads, CORS rules and policies read
    back as written; visibility, grants and upload states behave as their statements say.

  \<^bold>\<open>Contracts\<close> (hypotheses about libraries, each with an instance that fulfils it): \<open>s3_contract\<close>, a call does what it says
    or reports an error, and may do both; \<open>shared_contract\<close>, the same of the objects that nobody else writes; \<open>plain_source\<close>, a copy source that URL decoding leaves alone;
    \<open>list_contract\<close>, \<open>listing_contract\<close>, \<open>listing_of\<close>, listings in pages that end, while nobody writes;
    \<open>abort_contract\<close>; \<open>time_contract\<close>, no call turns the time back and \<^verbatim>\<open>now()\<close> is not ahead of it; \<open>never_fails\<close>, a time without failures; \<open>scan_contract\<close>, Redis ends a scan; \<open>broker_contract\<close>, Redis and asynq, whose replies may get lost; \<open>honest_broker\<close>, the same when they answer; \<open>queue_contract\<close>, \<open>mux_contract\<close>;
    \<open>cors_contract\<close>, \<open>policy_contract\<close>; \<open>scan_quiet\<close>, \<open>sql_quiet\<close>, statements do not change the storage; \<open>db_wf\<close>, the unique keys of the schema.

  \<^bold>\<open>Loops.\<close> The three loops over pages (a directory, a bucket, the keys of Redis) have no bound in the code and are
    \<open>partial_function\<close>s; \<open>tasks_end\<close> shows that the first two end when the storage ends its listings, and the
    properties about a listing show that they return; \<open>run_round_safe\<close> shows that the third ends when Redis ends its scans, so
  that any number of rounds comes to its end. Nothing runs on fuel except the main loop of the scheduler,
    which by intention does not end: it is cut off after a given number of rounds.

  \<^bold>\<open>Not modelled.\<close> Log output, HTTP (\<^verbatim>\<open>/healthz\<close>) and connection handling; contexts and timeouts (a call may fail instead);
    the interleaving of tasks call by call, except for schedulers and for what others write into the storage while an
    object is copied, moved or trashed: the other properties of a task are about one that nobody disturbs;
    the database schema, migrations and the API, which are in other repositories
    (defaults of new rows are parameters); the text of JSON documents and of URLs; the retries of the queue.
\<close>

end
